(* ===== verification/Prelude.thy ===== *)
theory Prelude
  imports Main "HOL-Library.Word" "HOL-Library.Sublist" "HOL-Library.Char_ord"
    "HOL-Library.List_Lexorder" "HOL-Library.Product_Lexorder" "HOL-Library.Multiset"
begin

text \<open>
  What every theory of the development shares: the type names of the Go integers and of
  fallible results, the collections of rewrite rules, comparison functions in the style of
  \<^verbatim>\<open>slices.SortFunc\<close> with the interface a comparison has to meet (locale \<open>keyed_order\<close>), and
  generic facts on lists, prefixes and separators.
\<close>

section \<open>Types and rule collections\<close>

type_synonym uint16 = "16 word"
type_synonym uint32 = "32 word"
type_synonym uint64 = "64 word"

text \<open>
  A Go function that returns \<^verbatim>\<open>(T, error)\<close> is a value of a sum type, \<open>Inl\<close> for the error; one
  that also changes the state of an object returns the new state beside it, on errors too.
\<close>

type_synonym ('e, 'a, 's) action = "'s \<Rightarrow> ('e + 'a) \<times> 's"

named_theorems go_defs \<open>definitions of the model that its proofs unfold together\<close>
named_theorems norm_simps \<open>what normalisation does to names and records\<close>

section \<open>Lists, prefixes and separators\<close>

lemma prefix_append_sep:
  assumes "c \<notin> set xs" and "c \<notin> set ys"
  shows "prefix (xs @ [c]) (ys @ c # zs) \<longleftrightarrow> xs = ys"
proof
  assume "prefix (xs @ [c]) (ys @ c # zs)"
  then obtain ws where eq: "ys @ c # zs = xs @ c # ws" by (auto simp: prefix_def)
  have "takeWhile (\<lambda>x. x \<noteq> c) (ys @ c # zs) = ys"
    using assms(2) by (subst takeWhile_append2) auto
  moreover have "takeWhile (\<lambda>x. x \<noteq> c) (xs @ c # ws) = xs"
    using assms(1) by (subst takeWhile_append2) auto
  ultimately show "xs = ys" using eq by simp
qed (auto simp: prefix_def)

lemma append_sep_eq_iff:
  assumes "c \<notin> set xs" and "c \<notin> set ys"
  shows "xs @ c # us = ys @ c # vs \<longleftrightarrow> xs = ys \<and> us = vs"
proof
  assume eq: "xs @ c # us = ys @ c # vs"
  then have "prefix (xs @ [c]) (ys @ c # vs)" by (metis append_Cons append_Nil append_assoc prefixI)
  with assms have "xs = ys" by (simp add: prefix_append_sep)
  with eq show "xs = ys \<and> us = vs" by simp
qed simp

lemma filter_not_mem_eq: "distinct xs \<Longrightarrow> set (filter P xs) = {x \<in> set xs. P x}"
  by simp

lemma mset_eq_distinct_set:
  "distinct xs \<Longrightarrow> distinct ys \<Longrightarrow> set xs = set ys \<Longrightarrow> mset xs = mset ys"
  by (simp add: set_eq_iff_mset_eq_distinct)

lemma distinct_concat_map:
  assumes "distinct ks" and "\<And>k. distinct (f k)" and "\<And>k k'. k \<noteq> k' \<Longrightarrow> set (f k) \<inter> set (f k') = {}"
  shows "distinct (concat (map f ks))"
  using assms(1)
proof (induction ks)
  case (Cons k ks)
  then have "set (f k) \<inter> set (f k') = {}" if "k' \<in> set ks" for k'
    using that assms(3) [of k k'] by auto
  with Cons assms(2) show ?case by auto
qed simp

text \<open>
  The elements of a list whose key under \<open>f\<close> is neither in \<open>K\<close> nor the key of an earlier element:
  what the loops that skip keys they have seen leave.
\<close>

fun first_by :: "('a \<Rightarrow> 'k) \<Rightarrow> 'k set \<Rightarrow> 'a list \<Rightarrow> 'a list" where
  "first_by f K [] = []"
| "first_by f K (x # xs) = (if f x \<in> K then first_by f K xs else x # first_by f (insert (f x) K) xs)"

lemma set_first_by: "set (first_by f K xs) \<subseteq> set xs"
  by (induction xs arbitrary: K) auto

lemma keys_first_by: "f ` set (first_by f K xs) = f ` set xs - K"
  by (induction xs arbitrary: K) auto

lemma distinct_first_by: "distinct (map f (first_by f K xs))"
proof (induction xs arbitrary: K)
  case (Cons x xs)
  have "f x \<notin> f ` set (first_by f (insert (f x) K) xs)" by (simp add: keys_first_by)
  with Cons show ?case by simp
qed simp

lemma first_by_append: "first_by f K (xs @ ys) = first_by f K xs @ first_by f (K \<union> f ` set xs) ys"
  by (induction xs arbitrary: K) (auto simp: insert_absorb Un_commute)

lemma first_by_id: "distinct (map f xs) \<Longrightarrow> f ` set xs \<inter> K = {} \<Longrightarrow> first_by f K xs = xs"
proof (induction xs arbitrary: K)
  case (Cons x xs)
  then have "first_by f (insert (f x) K) xs = xs" by (intro Cons.IH) auto
  with Cons.prems show ?case by simp
qed simp

lemma first_by_filter: "distinct (map f xs) \<Longrightarrow> first_by f K xs = filter (\<lambda>x. f x \<notin> K) xs"
proof (induction xs arbitrary: K)
  case (Cons x xs)
  have "first_by f (insert (f x) K) xs = filter (\<lambda>y. f y \<notin> insert (f x) K) xs"
    using Cons by simp
  also have "\<dots> = filter (\<lambda>y. f y \<notin> K) xs"
    using Cons.prems by (intro filter_cong) (auto simp: image_iff)
  finally show ?case using Cons by simp
qed simp

section \<open>Comparison functions and sorting\<close>

text \<open>
  \<^verbatim>\<open>slices.SortFunc(xs, cmp)\<close> sorts by a three-way comparison. It is not stable; the model is the
  stable insertion sort, one of the results Go may give when \<open>cmp\<close> is 0 on different
  elements, and the only one when it is not.
\<close>

fun insortFunc :: "('a \<Rightarrow> 'a \<Rightarrow> int) \<Rightarrow> 'a \<Rightarrow> 'a list \<Rightarrow> 'a list" where
  "insortFunc cmp x [] = [x]"
| "insortFunc cmp x (y # ys) = (if cmp x y \<le> 0 then x # y # ys else y # insortFunc cmp x ys)"

definition SortFunc :: "('a \<Rightarrow> 'a \<Rightarrow> int) \<Rightarrow> 'a list \<Rightarrow> 'a list" where
  "SortFunc cmp xs = foldr (insortFunc cmp) xs []"

definition three_way :: "'k::linorder \<Rightarrow> 'k \<Rightarrow> int" where
  "three_way a b = (if a < b then -1 else if b < a then 1 else 0)"

lemma three_way_le_0 [simp]: "three_way a b \<le> 0 \<longleftrightarrow> a \<le> b"
  by (auto simp: three_way_def)

lemma three_way_eq_0 [simp]: "three_way a b = 0 \<longleftrightarrow> a = b"
  by (auto simp: three_way_def)

text \<open>
  The interface a comparison has to meet: it orders its arguments by a key. What the callers
  of a sort rely on (a permutation, in key order, and, where the key is unique, the same
  result for every order of the input and every sorting algorithm) is proved once here.
\<close>

locale keyed_order =
  fixes cmp :: "'a \<Rightarrow> 'a \<Rightarrow> int" and key :: "'a \<Rightarrow> 'k::linorder"
  assumes cmp_key: "cmp x y = three_way (key x) (key y)"
begin

lemma insortFunc_insort_key: "insortFunc cmp x ys = insort_key key x ys"
  by (induction ys) (auto simp: cmp_key)

lemma SortFunc_sort_key: "SortFunc cmp xs = sort_key key xs"
proof -
  have "insortFunc cmp = insort_key key" by (intro ext) (rule insortFunc_insort_key)
  then show ?thesis by (simp add: SortFunc_def sort_key_def)
qed

lemma mset_SortFunc: "mset (SortFunc cmp xs) = mset xs"
  by (simp add: SortFunc_sort_key)

lemma set_SortFunc: "set (SortFunc cmp xs) = set xs"
  by (simp add: SortFunc_sort_key)

lemma distinct_SortFunc: "distinct (SortFunc cmp xs) = distinct xs"
  by (simp add: SortFunc_sort_key)

lemma length_SortFunc: "length (SortFunc cmp xs) = length xs"
  by (simp add: SortFunc_sort_key)

lemma sorted_SortFunc: "sorted (map key (SortFunc cmp xs))"
  by (simp add: SortFunc_sort_key)

lemma SortFunc_unique:
  assumes "mset ys = mset xs" and "sorted (map key ys)" and "inj_on key (set xs)"
  shows "SortFunc cmp xs = ys"
  using assms by (simp add: SortFunc_sort_key sort_key_inj_key_eq)

lemma SortFunc_cong_mset:
  assumes "mset xs = mset ys" and "inj_on key (set xs)"
  shows "SortFunc cmp xs = SortFunc cmp ys"
  by (rule SortFunc_unique) (use assms in \<open>auto simp: mset_SortFunc sorted_SortFunc\<close>)

end

lemma SortFunc_Nil [simp]: "SortFunc cmp [] = []"
  by (simp add: SortFunc_def)

lemma SortFunc_single [simp]: "SortFunc cmp [x] = [x]"
  by (simp add: SortFunc_def)

lemma set_insortFunc [simp]: "set (insortFunc cmp x xs) = insert x (set xs)"
  by (induction xs) auto

lemma set_SortFunc_any [simp]: "set (SortFunc cmp xs) = set xs"
  by (induction xs) (auto simp: SortFunc_def)

end
