(* ===== verification/Go_Std.thy ===== *)
theory Go_Std
  imports Prelude
begin

text \<open>
  The part of the Go standard library the program uses on strings: \<^verbatim>\<open>strings.TrimSpace\<close>,
  \<^verbatim>\<open>ToLower\<close>, \<^verbatim>\<open>Split\<close>, \<^verbatim>\<open>Join\<close>, \<^verbatim>\<open>Fields\<close>, \<^verbatim>\<open>TrimSuffix\<close> and \<^verbatim>\<open>TrimPrefix\<close>, decimal formatting and
  hexadecimal encoding. A Go string is a sequence of bytes, so it is a \<open>string\<close> here and
  \<open>length\<close> counts bytes. \<^verbatim>\<open>strings.HasPrefix(s, p)\<close> is \<open>prefix p s\<close>, and the order of Go
  strings is the lexicographic order of bytes of the library's \<open>List_Lexorder\<close>.
\<close>

section \<open>White space\<close>

text \<open>
  \<^verbatim>\<open>unicode.IsSpace\<close>, as the UTF-8 encodings of its code points: six ASCII characters, NEL, NBSP,
  U+1680, U+2000 to U+200A, U+2028, U+2029, U+202F, U+205F and U+3000.
\<close>

definition spaceRunes :: "string list" where
  "spaceRunes =
     [[CHR 0x09], [CHR 0x0A], [CHR 0x0B], [CHR 0x0C], [CHR 0x0D], [CHR 0x20],
      [CHR 0xC2, CHR 0x85], [CHR 0xC2, CHR 0xA0], [CHR 0xE1, CHR 0x9A, CHR 0x80],
      [CHR 0xE2, CHR 0x80, CHR 0x80], [CHR 0xE2, CHR 0x80, CHR 0x81],
      [CHR 0xE2, CHR 0x80, CHR 0x82], [CHR 0xE2, CHR 0x80, CHR 0x83],
      [CHR 0xE2, CHR 0x80, CHR 0x84], [CHR 0xE2, CHR 0x80, CHR 0x85],
      [CHR 0xE2, CHR 0x80, CHR 0x86], [CHR 0xE2, CHR 0x80, CHR 0x87],
      [CHR 0xE2, CHR 0x80, CHR 0x88], [CHR 0xE2, CHR 0x80, CHR 0x89],
      [CHR 0xE2, CHR 0x80, CHR 0x8A], [CHR 0xE2, CHR 0x80, CHR 0xA8],
      [CHR 0xE2, CHR 0x80, CHR 0xA9], [CHR 0xE2, CHR 0x80, CHR 0xAF],
      [CHR 0xE2, CHR 0x81, CHR 0x9F], [CHR 0xE3, CHR 0x80, CHR 0x80]]"

lemma spaceRunes_not_Nil [simp]: "w \<in> set spaceRunes \<Longrightarrow> w \<noteq> []"
  by (auto simp: spaceRunes_def)

lemma spaceRunes_no_dot: "w \<in> set spaceRunes \<Longrightarrow> CHR ''.'' \<notin> set w"
  by (auto simp: spaceRunes_def)

function TrimLeftSpace :: "string \<Rightarrow> string" where
  "TrimLeftSpace s =
     (case List.find (\<lambda>w. prefix w s) spaceRunes of
        None \<Rightarrow> s
      | Some w \<Rightarrow> TrimLeftSpace (drop (length w) s))"
  by pat_completeness auto
termination
proof (relation "measure length")
  fix s w
  assume "List.find (\<lambda>w. prefix w s) spaceRunes = Some w"
  then have "w \<noteq> []" and "prefix w s" by (auto simp: find_Some_iff)
  then show "(drop (length w) s, s) \<in> measure length" by (auto simp: prefix_def)
qed simp

function TrimRightSpace :: "string \<Rightarrow> string" where
  "TrimRightSpace s =
     (case List.find (\<lambda>w. suffix w s) spaceRunes of
        None \<Rightarrow> s
      | Some w \<Rightarrow> TrimRightSpace (take (length s - length w) s))"
  by pat_completeness auto
termination
proof (relation "measure length")
  fix s w
  assume "List.find (\<lambda>w. suffix w s) spaceRunes = Some w"
  then have "w \<noteq> []" and "suffix w s" by (auto simp: find_Some_iff)
  then show "(take (length s - length w) s, s) \<in> measure length" by (auto simp: suffix_def)
qed simp

declare TrimLeftSpace.simps [simp del] TrimRightSpace.simps [simp del]

definition TrimSpace :: "string \<Rightarrow> string" where
  "TrimSpace s = TrimRightSpace (TrimLeftSpace s)"

text \<open>A string without white space at either end.\<close>

definition trimmed :: "string \<Rightarrow> bool" where
  "trimmed s \<longleftrightarrow> (\<forall>w \<in> set spaceRunes. \<not> prefix w s \<and> \<not> suffix w s)"

lemma find_None_ball: "List.find P xs = None \<longleftrightarrow> (\<forall>x \<in> set xs. \<not> P x)"
  by (auto simp: find_None_iff)

lemma TrimLeftSpace_fix: "\<forall>w \<in> set spaceRunes. \<not> prefix w s \<Longrightarrow> TrimLeftSpace s = s"
  by (subst TrimLeftSpace.simps) (simp add: find_None_ball [THEN iffD2])

lemma TrimRightSpace_fix: "\<forall>w \<in> set spaceRunes. \<not> suffix w s \<Longrightarrow> TrimRightSpace s = s"
  by (subst TrimRightSpace.simps) (simp add: find_None_ball [THEN iffD2])

lemma trimmed_TrimSpace [simp]: "trimmed s \<Longrightarrow> TrimSpace s = s"
  by (simp add: trimmed_def TrimSpace_def TrimLeftSpace_fix TrimRightSpace_fix)

lemma TrimLeftSpace_no_prefix: "w \<in> set spaceRunes \<Longrightarrow> \<not> prefix w (TrimLeftSpace s)"
proof (induction s rule: TrimLeftSpace.induct)
  case (1 s)
  show ?case
    by (subst TrimLeftSpace.simps)
      (use 1 in \<open>auto simp: find_None_ball split: option.split\<close>)
qed

lemma TrimRightSpace_no_suffix: "w \<in> set spaceRunes \<Longrightarrow> \<not> suffix w (TrimRightSpace s)"
proof (induction s rule: TrimRightSpace.induct)
  case (1 s)
  show ?case
    by (subst TrimRightSpace.simps)
      (use 1 in \<open>auto simp: find_None_ball split: option.split\<close>)
qed

lemma prefix_TrimRightSpace: "prefix (TrimRightSpace s) s"
proof (induction s rule: TrimRightSpace.induct)
  case (1 s)
  show ?case
    by (subst TrimRightSpace.simps)
      (use 1 in \<open>auto split: option.split intro: prefix_order.trans take_is_prefix\<close>)
qed

lemma suffix_TrimLeftSpace: "suffix (TrimLeftSpace s) s"
proof (induction s rule: TrimLeftSpace.induct)
  case (1 s)
  show ?case
    by (subst TrimLeftSpace.simps)
      (use 1 in \<open>auto split: option.split intro: suffix_order.trans suffix_drop\<close>)
qed

lemma trimmed_of_TrimSpace [simp]: "trimmed (TrimSpace s)"
  unfolding trimmed_def TrimSpace_def
  using TrimLeftSpace_no_prefix TrimRightSpace_no_suffix prefix_TrimRightSpace
  by (meson prefix_order.trans)

lemma TrimSpace_idem [simp]: "TrimSpace (TrimSpace s) = TrimSpace s"
  by simp

lemma set_TrimSpace: "set (TrimSpace s) \<subseteq> set s"
  using set_mono_prefix [OF prefix_TrimRightSpace, of "TrimLeftSpace s"]
    set_mono_suffix [OF suffix_TrimLeftSpace, of s]
  by (auto simp: TrimSpace_def)

lemma trimmed_snoc_dot: "trimmed s \<Longrightarrow> trimmed (s @ ''.'')"
proof -
  assume s: "trimmed s"
  have "\<not> suffix w (s @ ''.'')" if "w \<in> set spaceRunes" for w
  proof
    assume "suffix w (s @ ''.'')"
    with that have "last w = CHR ''.''"
      by (metis last_appendR last_ConsL list.discI spaceRunes_not_Nil suffix_def)
    with that show False using spaceRunes_no_dot [OF that] by (metis last_in_set spaceRunes_not_Nil)
  qed
  moreover have "\<not> prefix w (s @ ''.'')" if "w \<in> set spaceRunes" for w
    using s that spaceRunes_no_dot [OF that] by (auto simp: trimmed_def)
  ultimately show ?thesis by (simp add: trimmed_def)
qed

section \<open>Case\<close>

definition ascii :: "string \<Rightarrow> bool" where
  "ascii s \<longleftrightarrow> list_all (\<lambda>c. of_char c < (128::nat)) s"

definition lowerByte :: "char \<Rightarrow> char" where
  "lowerByte c =
     (if 65 \<le> (of_char c :: nat) \<and> of_char c \<le> (90::nat) then char_of (of_char c + (32::nat)) else c)"

text \<open>
  \<^verbatim>\<open>strings.ToLower\<close>: bytewise on an ASCII string; otherwise \<^verbatim>\<open>strings.Map(unicode.ToLower, s)\<close>, whose
  Unicode tables are the parameter \<open>uni\<close>.
\<close>

definition ToLower :: "(string \<Rightarrow> string) \<Rightarrow> string \<Rightarrow> string" where
  "ToLower uni s = (if ascii s then map lowerByte s else uni s)"

definition lowercase :: "string \<Rightarrow> bool" where
  "lowercase s \<longleftrightarrow> list_all (\<lambda>c. lowerByte c = c) s"

lemma of_char_lowerByte:
  "(of_char (lowerByte c) :: nat) =
     (if 65 \<le> (of_char c :: nat) \<and> of_char c \<le> (90::nat) then of_char c + 32 else of_char c)"
  by (simp add: lowerByte_def)

lemma lowerByte_idem [simp]: "lowerByte (lowerByte c) = lowerByte c"
proof -
  have "(of_char (lowerByte (lowerByte c)) :: nat) = of_char (lowerByte c)"
    by (simp add: of_char_lowerByte)
  then show ?thesis by simp
qed

lemma lowerByte_eq_iff:
  assumes "\<not> (65 \<le> (of_char d :: nat) \<and> of_char d \<le> (90::nat))"
    and "\<not> (97 \<le> (of_char d :: nat) \<and> of_char d \<le> (122::nat))"
  shows "lowerByte c = d \<longleftrightarrow> c = d"
proof
  assume "lowerByte c = d"
  then have "(of_char (lowerByte c) :: nat) = of_char d" by simp
  then have "(of_char c :: nat) = of_char d" using assms by (auto simp: of_char_lowerByte split: if_splits)
  then show "c = d" by simp
next
  assume "c = d"
  with assms show "lowerByte c = d" by (auto simp: lowerByte_def)
qed

lemma ascii_append [simp]: "ascii (s @ t) \<longleftrightarrow> ascii s \<and> ascii t"
  by (simp add: ascii_def)

lemma ascii_dot [simp]: "ascii ''.''"
  by (simp add: ascii_def)

lemma ascii_subset: "ascii s \<Longrightarrow> set t \<subseteq> set s \<Longrightarrow> ascii t"
  by (auto simp: ascii_def list_all_iff)

lemma ascii_map_lower: "ascii s \<Longrightarrow> ascii (map lowerByte s)"
  by (auto simp: ascii_def list_all_iff of_char_lowerByte)

lemma ToLower_ascii: "ascii s \<Longrightarrow> ToLower uni s = map lowerByte s"
  by (simp add: ToLower_def)

lemma ToLower_lowercase: "ascii s \<Longrightarrow> lowercase s \<Longrightarrow> ToLower uni s = s"
  by (simp add: ToLower_def lowercase_def list_all_iff map_idI)

lemma lowercase_append [simp]: "lowercase (s @ t) \<longleftrightarrow> lowercase s \<and> lowercase t"
  by (simp add: lowercase_def)

lemma lowercase_dot [simp]: "lowercase ''.''"
  by (simp add: lowercase_def lowerByte_def)

lemma lowercase_map_lower [simp]: "lowercase (map lowerByte s)"
  by (simp add: lowercase_def list_all_iff)

lemma lowercase_subset: "lowercase s \<Longrightarrow> set t \<subseteq> set s \<Longrightarrow> lowercase t"
  by (auto simp: lowercase_def list_all_iff)

text \<open>Trimming and lower-casing commute: no byte of a space rune is a letter.\<close>

lemma spaceRunes_lower: "w \<in> set spaceRunes \<Longrightarrow> d \<in> set w \<Longrightarrow> lowerByte c = d \<longleftrightarrow> c = d"
  by (rule lowerByte_eq_iff) (auto simp: spaceRunes_def)

lemma map_lower_fix: "w \<in> set spaceRunes \<Longrightarrow> map lowerByte s = w \<longleftrightarrow> s = w"
proof -
  assume w: "w \<in> set spaceRunes"
  have "(map lowerByte s = v) = (s = v)" if "set v \<subseteq> set w" for v
    using that
  proof (induction v arbitrary: s)
    case (Cons d v)
    show ?case
    proof (cases s)
      case (Cons c s')
      then show ?thesis using Cons.IH [of s'] Cons.prems spaceRunes_lower [OF w, of d c] by auto
    qed simp
  qed simp
  then show ?thesis by simp
qed

lemma prefix_map_lower: "w \<in> set spaceRunes \<Longrightarrow> prefix w (map lowerByte s) \<longleftrightarrow> prefix w s"
  by (metis map_lower_fix prefix_def map_eq_append_conv take_map append_eq_conv_conj take_is_prefix)

lemma suffix_map_lower: "w \<in> set spaceRunes \<Longrightarrow> suffix w (map lowerByte s) \<longleftrightarrow> suffix w s"
  by (metis map_lower_fix suffix_def map_eq_append_conv)

lemma find_cong_set: "(\<And>x. x \<in> set xs \<Longrightarrow> P x = Q x) \<Longrightarrow> List.find P xs = List.find Q xs"
  by (induction xs) auto

lemma TrimLeftSpace_lower: "TrimLeftSpace (map lowerByte s) = map lowerByte (TrimLeftSpace s)"
proof (induction s rule: TrimLeftSpace.induct)
  case (1 s)
  have "List.find (\<lambda>w. prefix w (map lowerByte s)) spaceRunes = List.find (\<lambda>w. prefix w s) spaceRunes"
    by (rule find_cong_set) (rule prefix_map_lower)
  with 1 show ?case
    by (subst (1 2) TrimLeftSpace.simps) (simp add: drop_map split: option.split)
qed

lemma TrimRightSpace_lower: "TrimRightSpace (map lowerByte s) = map lowerByte (TrimRightSpace s)"
proof (induction s rule: TrimRightSpace.induct)
  case (1 s)
  have "List.find (\<lambda>w. suffix w (map lowerByte s)) spaceRunes = List.find (\<lambda>w. suffix w s) spaceRunes"
    by (rule find_cong_set) (rule suffix_map_lower)
  with 1 show ?case
    by (subst (1 2) TrimRightSpace.simps) (simp add: take_map split: option.split)
qed

lemma TrimSpace_ToLower: "ascii s \<Longrightarrow> ToLower uni (TrimSpace s) = TrimSpace (ToLower uni s)"
  using ascii_subset [OF _ set_TrimSpace]
  by (simp add: ToLower_ascii TrimSpace_def TrimLeftSpace_lower TrimRightSpace_lower)

section \<open>Splitting and joining\<close>

text \<open>\<^verbatim>\<open>strings.Split(s, sep)\<close> for a separator of one byte: one more part than separators.\<close>

fun split_on :: "char \<Rightarrow> string \<Rightarrow> string list" where
  "split_on c [] = [[]]"
| "split_on c (x # xs) =
     (if x = c then [] # split_on c xs
      else (case split_on c xs of [] \<Rightarrow> [[x]] | w # ws \<Rightarrow> (x # w) # ws))"

fun Join :: "string list \<Rightarrow> string \<Rightarrow> string" where
  "Join [] sep = []"
| "Join [w] sep = w"
| "Join (w # ws) sep = w @ sep @ Join ws sep"

definition TrimSuffix :: "string \<Rightarrow> string \<Rightarrow> string" where
  "TrimSuffix s suf = (if suffix suf s then take (length s - length suf) s else s)"

definition TrimPrefix :: "string \<Rightarrow> string \<Rightarrow> string" where
  "TrimPrefix s pre = (if prefix pre s then drop (length pre) s else s)"

lemma split_on_not_Nil [simp]: "split_on c s \<noteq> []"
  by (induction s) (auto split: list.splits)

lemma split_on_append_sep:
  "split_on c (s @ c # t) = split_on c s @ split_on c t"
  by (induction s) (auto split: list.splits)

lemma split_on_no_sep: "c \<notin> set s \<Longrightarrow> split_on c s = [s]"
  by (induction s) auto

lemma split_on_parts: "w \<in> set (split_on c s) \<Longrightarrow> c \<notin> set w"
  by (induction s arbitrary: w) (auto split: list.splits if_splits)

lemma Join_Cons: "ws \<noteq> [] \<Longrightarrow> Join (w # ws) sep = w @ sep @ Join ws sep"
  by (cases ws) auto

lemma Join_split_on: "Join (split_on c s) [c] = s"
proof (induction s)
  case (Cons x xs)
  then show ?case
    by (cases "split_on c xs"; cases "tl (split_on c xs)")
      (auto simp: Join_Cons split: list.splits)
qed simp

text \<open>\<^verbatim>\<open>strings.Fields\<close>: the maximal runs without white space.\<close>

function Fields :: "string \<Rightarrow> string list" where
  "Fields s =
     (case s of
        [] \<Rightarrow> []
      | c # cs \<Rightarrow>
         (case List.find (\<lambda>w. prefix w s) spaceRunes of
            Some w \<Rightarrow> Fields (drop (length w) s)
          | None \<Rightarrow> (case Fields cs of
                      [] \<Rightarrow> [[c]]
                    | f # fs \<Rightarrow> if cs \<noteq> [] \<and> List.find (\<lambda>w. prefix w cs) spaceRunes = None
                                then (c # f) # fs else [c] # f # fs)))"
  by pat_completeness auto
termination
proof (relation "measure length")
  fix s c cs w
  assume "s = c # cs" and "List.find (\<lambda>w. prefix w s) spaceRunes = Some w"
  then show "(drop (length w) s, s) \<in> measure length" by (auto simp: find_Some_iff)
qed simp_all

declare Fields.simps [simp del]

section \<open>Numbers\<close>

fun dec :: "nat \<Rightarrow> string" where
  "dec n = (if n < 10 then [char_of (48 + n)] else dec (n div 10) @ [char_of (48 + n mod 10)])"

declare dec.simps [simp del]

text \<open>The verb \<^verbatim>\<open>%0wd\<close> of \<^verbatim>\<open>fmt.Sprintf\<close>: decimal, padded with zeros to at least \<open>w\<close> digits.\<close>

definition dec_pad :: "nat \<Rightarrow> nat \<Rightarrow> string" where
  "dec_pad w n = replicate (w - length (dec n)) (CHR ''0'') @ dec n"

definition hexDigit :: "nat \<Rightarrow> char" where
  "hexDigit n = (if n < 10 then char_of (48 + n) else char_of (87 + n))"

text \<open>\<^verbatim>\<open>hex.EncodeToString\<close>: two lower-case digits per byte.\<close>

definition hexEncode :: "string \<Rightarrow> string" where
  "hexEncode s = concat (map (\<lambda>c. [hexDigit (of_char c div 16), hexDigit (of_char c mod 16)]) s)"

definition isDigit :: "char \<Rightarrow> bool" where
  "isDigit c \<longleftrightarrow> 48 \<le> (of_char c :: nat) \<and> of_char c \<le> (57::nat)"

lemma isDigit_char_of: "(n::nat) < 10 \<Longrightarrow> isDigit (char_of (48 + n))"
  by (simp add: isDigit_def)

lemma dec_digits: "list_all isDigit (dec n)"
proof (induction n rule: dec.induct)
  case (1 n)
  show ?case
    by (subst dec.simps) (use 1 in \<open>auto simp: isDigit_char_of\<close>)
qed

lemma dec_not_Nil [simp]: "dec n \<noteq> []"
  by (subst dec.simps) simp

text \<open>Reading decimal digits back, to show that \<open>dec\<close> is injective.\<close>

definition undec :: "string \<Rightarrow> nat" where
  "undec s = foldl (\<lambda>n c. 10 * n + (of_char c - 48)) 0 s"

lemma undec_dec: "undec (dec n) = n"
proof (induction n rule: dec.induct)
  case (1 n)
  show ?case
    by (subst dec.simps) (use 1 in \<open>auto simp: undec_def\<close>)
qed

lemma dec_inject [simp]: "dec m = dec n \<longleftrightarrow> m = n"
  by (metis undec_dec)

lemma undec_dec_pad: "undec (dec_pad w n) = n"
proof -
  have zeros: "foldl (\<lambda>n c. 10 * n + (of_char c - 48)) 0 (replicate k (CHR ''0'')) = (0::nat)" for k
    by (induction k) auto
  show ?thesis using undec_dec [of n] by (simp add: undec_def dec_pad_def zeros)
qed

lemma dec_pad_inject [simp]: "dec_pad w m = dec_pad w n \<longleftrightarrow> m = n"
  by (metis undec_dec_pad)

lemma digits_no_char: "list_all isDigit s \<Longrightarrow> \<not> isDigit c \<Longrightarrow> c \<notin> set s"
  by (auto simp: list_all_iff)

lemma dec_pad_digits: "list_all isDigit (dec_pad w n)"
  using dec_digits [of n] by (auto simp: dec_pad_def list_all_iff isDigit_def)

lemma hexDigit_not_bar: "n < 16 \<Longrightarrow> hexDigit n \<noteq> CHR ''|''"
proof -
  assume "n < 16"
  then have "(of_char (hexDigit n) :: nat) < 103" by (auto simp: hexDigit_def)
  then show ?thesis by auto
qed

section \<open>Evaluation\<close>

text \<open>
  Equations that evaluate characters by their bits instead of by numbers; they are used when the
  model is run on a concrete input.
\<close>

lemma ascii_code [code]: "ascii s = list_all (\<lambda>c. \<not> digit7 c) s"
proof -
  have "of_char c < (128::nat) \<longleftrightarrow> \<not> digit7 c" for c
    by (cases c) (simp add: of_char_def)
  then show ?thesis by (simp add: ascii_def)
qed

lemma lowerByte_code [code]:
  "lowerByte (Char b0 b1 b2 b3 b4 b5 b6 b7) =
     (if \<not> b7 \<and> b6 \<and> \<not> b5 \<and> (b0 \<or> b1 \<or> b2 \<or> b3 \<or> b4) \<and> \<not> (b4 \<and> b3 \<and> (b2 \<or> b1 \<and> b0))
      then Char b0 b1 b2 b3 b4 True b6 b7 else Char b0 b1 b2 b3 b4 b5 b6 b7)"
proof -
  have "(of_char (lowerByte (Char b0 b1 b2 b3 b4 b5 b6 b7)) :: nat) = of_char
     (if \<not> b7 \<and> b6 \<and> \<not> b5 \<and> (b0 \<or> b1 \<or> b2 \<or> b3 \<or> b4) \<and> \<not> (b4 \<and> b3 \<and> (b2 \<or> b1 \<and> b0))
      then Char b0 b1 b2 b3 b4 True b6 b7 else Char b0 b1 b2 b3 b4 b5 b6 b7)"
    unfolding of_char_lowerByte
    by (cases b0; cases b1; cases b2; cases b3; cases b4; cases b5; cases b6; cases b7; simp add: of_char_def)
  then show ?thesis by simp
qed

definition hexNibble :: "bool \<Rightarrow> bool \<Rightarrow> bool \<Rightarrow> bool \<Rightarrow> char" where
  "hexNibble b3 b2 b1 b0 =
     (if b3 then
        if b2 then if b1 then if b0 then CHR ''f'' else CHR ''e'' else if b0 then CHR ''d'' else CHR ''c''
        else if b1 then if b0 then CHR ''b'' else CHR ''a'' else if b0 then CHR ''9'' else CHR ''8''
      else
        if b2 then if b1 then if b0 then CHR ''7'' else CHR ''6'' else if b0 then CHR ''5'' else CHR ''4''
        else if b1 then if b0 then CHR ''3'' else CHR ''2'' else if b0 then CHR ''1'' else CHR ''0'')"

lemma hexNibble_hexDigit: "hexNibble b3 b2 b1 b0 = hexDigit (of_char (Char b0 b1 b2 b3 False False False False))"
  by (cases b0; cases b1; cases b2; cases b3; simp add: hexNibble_def hexDigit_def of_char_def char_of_def bit_Suc_0_iff)

lemma of_char_nibbles:
  "of_char (Char b0 b1 b2 b3 b4 b5 b6 b7) div (16::nat) = of_char (Char b4 b5 b6 b7 False False False False)"
  "of_char (Char b0 b1 b2 b3 b4 b5 b6 b7) mod (16::nat) = of_char (Char b0 b1 b2 b3 False False False False)"
proof -
  have "(of_char (Char b0 b1 b2 b3 b4 b5 b6 b7) :: nat) =
      of_char (Char b0 b1 b2 b3 False False False False) + 16 * of_char (Char b4 b5 b6 b7 False False False False)"
    by (simp only: of_char_def char.sel horner_sum_simps) (simp add: algebra_simps)
  moreover have "(of_char (Char b0 b1 b2 b3 False False False False) :: nat) < 16"
    by (cases b0; cases b1; cases b2; cases b3; simp add: of_char_def)
  ultimately show
    "of_char (Char b0 b1 b2 b3 b4 b5 b6 b7) div (16::nat) = of_char (Char b4 b5 b6 b7 False False False False)"
    "of_char (Char b0 b1 b2 b3 b4 b5 b6 b7) mod (16::nat) = of_char (Char b0 b1 b2 b3 False False False False)"
    by simp_all
qed

lemma hexEncode_code [code]:
  "hexEncode s = concat (map (\<lambda>c. case c of Char b0 b1 b2 b3 b4 b5 b6 b7 \<Rightarrow>
     [hexNibble b7 b6 b5 b4, hexNibble b3 b2 b1 b0]) s)"
proof -
  have "[hexDigit (of_char c div 16), hexDigit (of_char c mod 16)] =
      (case c of Char b0 b1 b2 b3 b4 b5 b6 b7 \<Rightarrow> [hexNibble b7 b6 b5 b4, hexNibble b3 b2 b1 b0])" for c
    by (cases c) (simp only: char.case of_char_nibbles hexNibble_hexDigit)
  then show ?thesis by (simp only: hexEncode_def)
qed

lemma dec_code [code]:
  "dec n = (if n < 10 then [''0123456789'' ! n] else dec (n div 10) @ [''0123456789'' ! (n mod 10)])"
proof -
  have "char_of (48 + k) = ''0123456789'' ! k" if "k < 10" for k :: nat
  proof -
    from that have "k \<in> {0, 1, 2, 3, 4, 5, 6, 7, 8, 9}" by auto
    then show ?thesis by (auto simp: char_of_def bit_Suc_0_iff)
  qed
  then show ?thesis by (subst dec.simps) simp
qed

end
