(* ===== verification/Packages.thy ===== *)
theory Packages
  imports Go_Std
begin

text \<open>
  The packages the program imports and does not contain. Each is a record of the functions
  the code calls, passed as an argument to the definitions that call them, and a predicate
  with the documented behaviour the theorems rely on. Each record also has a reference
  instance that meets its predicate, on which the witnesses evaluate the model.
\<close>

section \<open>Domain names: github.com/miekg/dns, Unicode tables, SHA-256\<close>

text \<open>
  \<open>Fqdn\<close> and \<open>IsSubDomain\<close> are \<^verbatim>\<open>dns.Fqdn\<close> and \<^verbatim>\<open>dns.IsSubDomain(parent, child)\<close>; \<open>unicodeLower\<close> is
  \<^verbatim>\<open>strings.Map(unicode.ToLower, s)\<close> on strings that are not ASCII; \<open>Sum256\<close> is \<^verbatim>\<open>sha256.Sum256\<close>.
  No theorem assumes anything of the last two: they hold for every function.
\<close>

record names_pkg =
  unicodeLower :: "string \<Rightarrow> string"
  Sum256 :: "string \<Rightarrow> string"
  Fqdn :: "string \<Rightarrow> string"
  IsSubDomain :: "string \<Rightarrow> string \<Rightarrow> bool"

text \<open>
  A name as the stores and the zone index can hold it without confusion: ASCII, without the
  character \<open>|\<close> that separates the parts of storage keys and without the backslash that
  escapes dots in the presentation format of a domain name.
\<close>

definition plain :: "string \<Rightarrow> bool" where
  "plain s \<longleftrightarrow> ascii s \<and> CHR ''|'' \<notin> set s \<and> CHR 0x5C \<notin> set s"

text \<open>A fully qualified, lower-case name without escapes.\<close>

definition dns_name :: "string \<Rightarrow> bool" where
  "dns_name s \<longleftrightarrow> ascii s \<and> lowercase s \<and> CHR 0x5C \<notin> set s \<and> suffix ''.'' s"

text \<open>Membership of a name in a zone, for such names: the root, the zone itself, or below it.\<close>

definition in_zone :: "string \<Rightarrow> string \<Rightarrow> bool" where
  "in_zone z n \<longleftrightarrow> z = ''.'' \<or> n = z \<or> suffix (''.'' @ z) n"

text \<open>
  Documented behaviour. \<^verbatim>\<open>Fqdn\<close> returns the fully qualified name, and is the identity on a name
  that is fully qualified already; without an escape such a name is one that ends in a dot, and
  every fully qualified name ends in one.
  \<^verbatim>\<open>IsSubDomain\<close> checks that the child is the parent or a child of it.
\<close>

definition names_pkg_ok :: "'x names_pkg_scheme \<Rightarrow> bool" where
  "names_pkg_ok E \<longleftrightarrow>
     (\<forall>s. \<not> suffix ''.'' s \<longrightarrow> Fqdn E s = s @ ''.'') \<and>
     (\<forall>s. suffix ''.'' s \<and> CHR 0x5C \<notin> set s \<longrightarrow> Fqdn E s = s) \<and>
     (\<forall>s. suffix ''.'' (Fqdn E s)) \<and>
     (\<forall>z n. dns_name z \<and> dns_name n \<longrightarrow> IsSubDomain E z n = in_zone z n)"

lemma Fqdn_no_dot: "names_pkg_ok E \<Longrightarrow> \<not> suffix ''.'' s \<Longrightarrow> Fqdn E s = s @ ''.''"
  by (simp add: names_pkg_ok_def)

lemma Fqdn_dot: "names_pkg_ok E \<Longrightarrow> suffix ''.'' s \<Longrightarrow> CHR 0x5C \<notin> set s \<Longrightarrow> Fqdn E s = s"
  by (simp add: names_pkg_ok_def)

lemma IsSubDomain_in_zone:
  "names_pkg_ok E \<Longrightarrow> dns_name z \<Longrightarrow> dns_name n \<Longrightarrow> IsSubDomain E z n = in_zone z n"
  by (simp add: names_pkg_ok_def)

lemma suffix_Fqdn: "names_pkg_ok E \<Longrightarrow> suffix ''.'' (Fqdn E s)"
  by (simp add: names_pkg_ok_def)

lemma Fqdn_cases:
  assumes "names_pkg_ok E" and "CHR 0x5C \<notin> set s"
  shows "Fqdn E s = (if suffix ''.'' s then s else s @ ''.'')"
  using assms by (simp add: names_pkg_ok_def)

definition names_ref :: names_pkg where
  "names_ref =
     \<lparr>unicodeLower = (\<lambda>s. s), Sum256 = rev,
      Fqdn = (\<lambda>s. if suffix ''.'' s then s else s @ ''.''), IsSubDomain = in_zone\<rparr>"

lemma names_ref_ok [simp]: "names_pkg_ok names_ref"
  by (simp add: names_ref_def names_pkg_ok_def)

lemma plain_subset: "plain s \<Longrightarrow> set t \<subseteq> set s \<Longrightarrow> plain t"
  by (auto simp: plain_def intro: ascii_subset)

lemma plain_append [simp]: "plain (s @ t) \<longleftrightarrow> plain s \<and> plain t"
  by (auto simp: plain_def)

lemma plain_dot [simp]: "plain ''.''"
  by (simp add: plain_def)

lemma plain_map_lower:
  assumes "plain s" shows "plain (map lowerByte s)"
proof -
  have "c \<notin> set (map lowerByte s)" if "c \<notin> set s" "c \<in> {CHR ''|'', CHR 0x5C}" for c
  proof -
    have "lowerByte d = c \<longleftrightarrow> d = c" for d using that(2) by (intro lowerByte_eq_iff) auto
    with that(1) show ?thesis by (metis imageE list.set_map)
  qed
  with assms show ?thesis by (simp add: plain_def ascii_map_lower)
qed

section \<open>Insertion-ordered sets: github.com/arcgolabs/collectionx/set\<close>

text \<open>
  \<^verbatim>\<open>OrderedSet[string]\<close>: \<open>oset_new\<close> is \<^verbatim>\<open>NewOrderedSet\<close> and \<^verbatim>\<open>NewOrderedSetWithCapacity\<close>, whose argument is
  a hint. \<open>oset_Values\<close> lists the elements in the order in which they were first added.
\<close>

record 'o set_pkg =
  oset_new :: 'o
  oset_Add :: "string \<Rightarrow> 'o \<Rightarrow> 'o"
  oset_Contains :: "'o \<Rightarrow> string \<Rightarrow> bool"
  oset_Values :: "'o \<Rightarrow> string list"
  oset_Len :: "'o \<Rightarrow> nat"

definition set_pkg_ok :: "'o set_pkg \<Rightarrow> bool" where
  "set_pkg_ok OS \<longleftrightarrow>
     oset_Values OS (oset_new OS) = [] \<and>
     (\<forall>s x. oset_Values OS (oset_Add OS x s) =
        (if x \<in> set (oset_Values OS s) then oset_Values OS s else oset_Values OS s @ [x])) \<and>
     (\<forall>s x. oset_Contains OS s x = (x \<in> set (oset_Values OS s))) \<and>
     (\<forall>s. oset_Len OS s = length (oset_Values OS s))"

lemma oset_Values_new: "set_pkg_ok OS \<Longrightarrow> oset_Values OS (oset_new OS) = []"
  by (simp add: set_pkg_ok_def)

lemma oset_Values_Add:
  "set_pkg_ok OS \<Longrightarrow> oset_Values OS (oset_Add OS x s) =
     (if x \<in> set (oset_Values OS s) then oset_Values OS s else oset_Values OS s @ [x])"
  by (simp add: set_pkg_ok_def)

lemma oset_Contains_iff: "set_pkg_ok OS \<Longrightarrow> oset_Contains OS s x \<longleftrightarrow> x \<in> set (oset_Values OS s)"
  by (simp add: set_pkg_ok_def)

lemma oset_Len_Values: "set_pkg_ok OS \<Longrightarrow> oset_Len OS s = length (oset_Values OS s)"
  by (simp add: set_pkg_ok_def)

lemmas oset_laws = oset_Values_new oset_Values_Add oset_Contains_iff oset_Len_Values

definition set_ref :: "string list set_pkg" where
  "set_ref =
     \<lparr>oset_new = [], oset_Add = (\<lambda>x s. if x \<in> set s then s else s @ [x]),
      oset_Contains = (\<lambda>s x. x \<in> set s), oset_Values = (\<lambda>s. s), oset_Len = length\<rparr>"

lemma set_ref_ok [simp]: "set_pkg_ok set_ref"
  by (simp add: set_ref_def set_pkg_ok_def)

text \<open>Adding the elements of a list one by one, and what the set holds then.\<close>

definition oset_addAll :: "'o set_pkg \<Rightarrow> string list \<Rightarrow> 'o \<Rightarrow> 'o" where
  "oset_addAll OS xs s = fold (oset_Add OS) xs s"

lemma set_oset_addAll:
  "set_pkg_ok OS \<Longrightarrow> set (oset_Values OS (oset_addAll OS xs s)) = set (oset_Values OS s) \<union> set xs"
  by (induction xs arbitrary: s) (auto simp: oset_addAll_def oset_Values_Add)

lemma distinct_oset_addAll:
  "set_pkg_ok OS \<Longrightarrow> distinct (oset_Values OS s) \<Longrightarrow> distinct (oset_Values OS (oset_addAll OS xs s))"
  by (induction xs arbitrary: s) (auto simp: oset_addAll_def oset_Values_Add)

end
