(* ===== verification/Records.thy ===== *)
theory Records
  imports Packages
begin

text \<open>
  Zones, records and record filters with their normalisation, storage keys and comparisons:
  \<^verbatim>\<open>dnsserver/record.go\<close>, \<^verbatim>\<open>errors.go\<close>, \<^verbatim>\<open>store_helpers.go\<close> and \<^verbatim>\<open>record_filter.go\<close>. The conversion between
  records and the resource records of the DNS package is in the theory \<open>RR\<close>.
\<close>

section \<open>Errors\<close>

datatype ErrorCode =
    CodeRepositoryNotConfigured | CodeZoneNameRequired | CodeRecordNameRequired
  | CodeRecordDataRequired | CodeRecordTypeRequired | CodeRecordOutOfZone
  | CodeRRSetNameRequired | CodeRRSetTypeRequired | CodeRRSetRecordsRequired
  | CodeRRSetMismatch | CodeZoneSOANotAtApex | CodeZoneSOARecordCountInvalid
  | CodeZoneCNAMEConflict | CodeZoneCNAMERecordCountInvalid | CodeZoneApexNSRequired
  | CodeServerNil | CodeHandlerNil | CodeServerAlreadyStarted

datatype sentinel =
    ErrRepositoryNotConfigured | ErrZoneNameRequired | ErrRecordNameRequired
  | ErrRecordDataRequired | ErrRecordTypeRequired | ErrRecordOutOfZone
  | ErrRRSetNameRequired | ErrRRSetTypeRequired | ErrRRSetRecordsRequired
  | ErrRRSetMismatch | ErrSOAMustBeAtZoneApex | ErrSOARecordCountInvalid
  | ErrCNAMEConflict | ErrCNAMERecordCountInvalid | ErrApexNSRequired
  | ErrServerNil | ErrHandlerNil | ErrServerAlreadyStarted

text \<open>
  An error the code makes: \<open>Coded\<close> by \<^verbatim>\<open>errorBuilder(op, code).Wrap(sentinel)\<close>, \<open>Uncoded\<close> by a plain
  message, \<open>External\<close> an error of an imported package, \<open>Panic\<close> a run-time panic. Wrapping an error
  adds an operation name, fields and a message to it and keeps its code and cause, so a
  wrapped error is the same value here.
\<close>

datatype error = Coded ErrorCode sentinel | Uncoded string | External string | Panic string

fun ErrorCodeOf :: "error \<Rightarrow> ErrorCode option" where
  "ErrorCodeOf (Coded code _) = Some code"
| "ErrorCodeOf _ = None"

definition HasErrorCode :: "error \<Rightarrow> ErrorCode \<Rightarrow> bool" where
  "HasErrorCode err code \<longleftrightarrow> ErrorCodeOf err = Some code"

section \<open>Constants of the DNS package\<close>

text \<open>The numbers IANA assigns to the types and classes the code names.\<close>

abbreviation TypeA :: uint16 where "TypeA \<equiv> 1"
abbreviation TypeNS :: uint16 where "TypeNS \<equiv> 2"
abbreviation TypeCNAME :: uint16 where "TypeCNAME \<equiv> 5"
abbreviation TypeSOA :: uint16 where "TypeSOA \<equiv> 6"
abbreviation TypeMX :: uint16 where "TypeMX \<equiv> 15"
abbreviation TypeTXT :: uint16 where "TypeTXT \<equiv> 16"
abbreviation TypeAAAA :: uint16 where "TypeAAAA \<equiv> 28"
abbreviation TypeSRV :: uint16 where "TypeSRV \<equiv> 33"
abbreviation TypeANY :: uint16 where "TypeANY \<equiv> 255"
abbreviation ClassINET :: uint16 where "ClassINET \<equiv> 1"
abbreviation ClassNONE :: uint16 where "ClassNONE \<equiv> 254"
abbreviation ClassANY :: uint16 where "ClassANY \<equiv> 255"

section \<open>Zones and records\<close>

record Zone =
  zone_Name :: string

record Record =
  rec_Zone :: string
  rec_Name :: string
  rec_TTL :: uint32
  rec_Class :: uint16
  rec_Type :: uint16
  rec_Data :: string

text \<open>\<^verbatim>\<open>dns.Fqdn(strings.TrimSpace(strings.ToLower(name)))\<close>, written out at every use in the code.\<close>

definition fqdnName :: "'x names_pkg_scheme \<Rightarrow> string \<Rightarrow> string" where
  "fqdnName E name = Fqdn E (TrimSpace (ToLower (unicodeLower E) name))"

definition NormalizeZoneName :: "'x names_pkg_scheme \<Rightarrow> string \<Rightarrow> error + string" where
  "NormalizeZoneName E name =
     (let normalized = fqdnName E name in
      if normalized = ''.'' then Inl (Coded CodeZoneNameRequired ErrZoneNameRequired)
      else Inr normalized)"

definition NormalizeRecord :: "'x names_pkg_scheme \<Rightarrow> Record \<Rightarrow> error + Record" where
  "NormalizeRecord E record =
     (case NormalizeZoneName E (rec_Zone record) of
        Inl err \<Rightarrow> Inl err
      | Inr zone \<Rightarrow>
         (let name = fqdnName E (rec_Name record) in
          if name = ''.'' then Inl (Coded CodeRecordNameRequired ErrRecordNameRequired)
          else if \<not> IsSubDomain E zone name then Inl (Coded CodeRecordOutOfZone ErrRecordOutOfZone)
          else
            let record1 = record\<lparr>rec_Zone := zone, rec_Name := name,
                  rec_Class := (if rec_Class record = 0 then ClassINET else rec_Class record),
                  rec_Data := TrimSpace (rec_Data record)\<rparr> in
            if rec_Data record1 = [] then Inl (Coded CodeRecordDataRequired ErrRecordDataRequired)
            else if rec_Type record1 = 0 then Inl (Coded CodeRecordTypeRequired ErrRecordTypeRequired)
            else Inr record1))"

section \<open>Storage keys\<close>

text \<open>
  \<^verbatim>\<open>Record.Key\<close>: zone, name, five-digit type and the first eight bytes of the SHA-256 digest of
  class and lower-cased data, separated by bars.
\<close>

definition fingerprint :: "'x names_pkg_scheme \<Rightarrow> Record \<Rightarrow> string" where
  "fingerprint E r =
     hexEncode (take 8 (Sum256 E (dec (unat (rec_Class r)) @ ''|'' @ ToLower (unicodeLower E) (rec_Data r))))"

definition Key :: "'x names_pkg_scheme \<Rightarrow> Record \<Rightarrow> string" where
  "Key E r =
     rec_Zone r @ ''|'' @ rec_Name r @ ''|'' @ dec_pad 5 (unat (rec_Type r)) @ ''|'' @ fingerprint E r"

definition RecordPrefix :: "string \<Rightarrow> string \<Rightarrow> uint16 \<Rightarrow> string" where
  "RecordPrefix zone name qtype =
     (let pre = zone @ ''|'' @ name @ ''|'' in
      if qtype = TypeANY then pre else pre @ dec_pad 5 (unat qtype) @ ''|'')"

definition WithName :: "Record \<Rightarrow> string \<Rightarrow> Record" where
  "WithName r name = r\<lparr>rec_Name := name\<rparr>"

definition CNAME :: "'x names_pkg_scheme \<Rightarrow> Record \<Rightarrow> string" where
  "CNAME E r = (if rec_Type r \<noteq> TypeCNAME then [] else fqdnName E (rec_Data r))"

section \<open>Lookup arguments and comparisons\<close>

definition NormalizeLookup ::
  "'x names_pkg_scheme \<Rightarrow> string \<Rightarrow> string \<Rightarrow> error + (string \<times> string)" where
  "NormalizeLookup E zone name =
     (case NormalizeZoneName E zone of
        Inl err \<Rightarrow> Inl err
      | Inr normalizedZone \<Rightarrow>
         (let normalizedName = fqdnName E name in
          if \<not> IsSubDomain E normalizedZone normalizedName
          then Inl (Uncoded ''lookup name is outside zone'')
          else Inr (normalizedZone, normalizedName)))"

definition CompareRecords :: "Record \<Rightarrow> Record \<Rightarrow> int" where
  "CompareRecords left right =
     (if rec_Zone left < rec_Zone right then -1
      else if rec_Zone left > rec_Zone right then 1
      else if rec_Name left < rec_Name right then -1
      else if rec_Name left > rec_Name right then 1
      else if rec_Type left < rec_Type right then -1
      else if rec_Type left > rec_Type right then 1
      else if rec_Data left < rec_Data right then -1
      else if rec_Data left > rec_Data right then 1
      else 0)"

definition CompareRecordsByData :: "Record \<Rightarrow> Record \<Rightarrow> int" where
  "CompareRecordsByData left right =
     (if rec_Data left < rec_Data right then -1
      else if rec_Data left > rec_Data right then 1
      else 0)"

section \<open>Record filters\<close>

record RecordFilter =
  flt_Zone :: string
  flt_Name :: string
  flt_Type :: uint16
  flt_Class :: uint16

definition NormalizeRecordFilter ::
  "'x names_pkg_scheme \<Rightarrow> RecordFilter \<Rightarrow> error + RecordFilter" where
  "NormalizeRecordFilter E filt =
     (case (if flt_Zone filt \<noteq> [] then NormalizeZoneName E (flt_Zone filt) else Inr []) of
        Inl err \<Rightarrow> Inl err
      | Inr zone \<Rightarrow>
         (let name = (if flt_Name filt \<noteq> [] then fqdnName E (flt_Name filt) else []) in
          if flt_Name filt \<noteq> [] \<and> name = ''.''
          then Inl (Coded CodeRecordNameRequired ErrRecordNameRequired)
          else if zone \<noteq> [] \<and> name \<noteq> [] \<and> \<not> IsSubDomain E zone name
          then Inl (Coded CodeRecordOutOfZone ErrRecordOutOfZone)
          else Inr \<lparr>flt_Zone = zone, flt_Name = name,
                    flt_Type = (if flt_Type filt = TypeANY then 0 else flt_Type filt),
                    flt_Class = (if flt_Class filt = ClassANY then 0 else flt_Class filt)\<rparr>))"

definition RecordListPrefix :: "RecordFilter \<Rightarrow> string" where
  "RecordListPrefix filt =
     (if flt_Zone filt = [] then []
      else if flt_Name filt = [] then flt_Zone filt @ ''|''
      else if flt_Type filt = 0 then RecordPrefix (flt_Zone filt) (flt_Name filt) TypeANY
      else RecordPrefix (flt_Zone filt) (flt_Name filt) (flt_Type filt))"

definition RecordMatchesFilter :: "Record \<Rightarrow> RecordFilter \<Rightarrow> bool" where
  "RecordMatchesFilter record filt =
     (if flt_Zone filt \<noteq> [] \<and> rec_Zone record \<noteq> flt_Zone filt then False
      else if flt_Name filt \<noteq> [] \<and> rec_Name record \<noteq> flt_Name filt then False
      else if flt_Type filt \<noteq> 0 \<and> rec_Type record \<noteq> flt_Type filt then False
      else if flt_Class filt \<noteq> 0 \<and> rec_Class record \<noteq> flt_Class filt then False
      else True)"

section \<open>Facts on normalisation\<close>

text \<open>
  On plain input a normalised name is a \<open>dns_name\<close>, plain again and a fixed point of
  normalisation; the store relies on this when the manager hands it records that are
  normalised already.
\<close>

lemma fqdnName_plain:
  assumes "names_pkg_ok E" and "plain s"
  shows "dns_name (fqdnName E s)" and "plain (fqdnName E s)" and "trimmed (fqdnName E s)"
proof -
  let ?t = "TrimSpace (map lowerByte s)"
  have low: "ToLower (unicodeLower E) s = map lowerByte s"
    using assms(2) by (simp add: plain_def ToLower_ascii)
  have pt: "plain ?t" using plain_subset [OF plain_map_lower set_TrimSpace] assms(2) by blast
  have lt: "lowercase ?t" by (rule lowercase_subset [OF lowercase_map_lower set_TrimSpace])
  have f: "fqdnName E s = (if suffix ''.'' ?t then ?t else ?t @ ''.'')"
    using pt by (simp add: fqdnName_def low Fqdn_cases [OF assms(1)] plain_def)
  show "plain (fqdnName E s)" using pt by (simp add: f)
  show "trimmed (fqdnName E s)" by (simp add: f trimmed_snoc_dot)
  show "dns_name (fqdnName E s)" using pt lt by (auto simp: f dns_name_def plain_def)
qed

lemma fqdnName_fix:
  assumes "names_pkg_ok E" and "dns_name n" and "trimmed n"
  shows "fqdnName E n = n"
  using assms by (simp add: fqdnName_def dns_name_def ToLower_lowercase Fqdn_dot)

lemma fqdnName_idem:
  "names_pkg_ok E \<Longrightarrow> plain s \<Longrightarrow> fqdnName E (fqdnName E s) = fqdnName E s"
  by (simp add: fqdnName_fix fqdnName_plain)

lemma fqdnName_not_Nil: "names_pkg_ok E \<Longrightarrow> plain s \<Longrightarrow> fqdnName E s \<noteq> []"
  using fqdnName_plain(1) by (fastforce simp: dns_name_def)

lemma NormalizeZoneName_Inr:
  "NormalizeZoneName E s = Inr z \<longleftrightarrow> z = fqdnName E s \<and> z \<noteq> ''.''"
  by (auto simp: NormalizeZoneName_def Let_def)

lemma NormalizeZoneName_Inl:
  "NormalizeZoneName E s = Inl err \<longleftrightarrow>
     fqdnName E s = ''.'' \<and> err = Coded CodeZoneNameRequired ErrZoneNameRequired"
  by (auto simp: NormalizeZoneName_def Let_def)

lemma NormalizeZoneName_idem:
  assumes "names_pkg_ok E" and "plain s" and "NormalizeZoneName E s = Inr z"
  shows "NormalizeZoneName E z = Inr z"
  using assms by (auto simp: NormalizeZoneName_Inr fqdnName_idem)

text \<open>A normalised zone name, as a property of the name alone.\<close>

definition normal_zone :: "'x names_pkg_scheme \<Rightarrow> string \<Rightarrow> bool" where
  "normal_zone E z \<longleftrightarrow> plain z \<and> NormalizeZoneName E z = Inr z"

lemma normal_zoneD [norm_simps]:
  "normal_zone E z \<Longrightarrow> NormalizeZoneName E z = Inr z"
  by (simp add: normal_zone_def)

lemma normal_zone_NormalizeZoneName:
  "names_pkg_ok E \<Longrightarrow> plain s \<Longrightarrow> NormalizeZoneName E s = Inr z \<Longrightarrow> normal_zone E z"
  by (auto simp: normal_zone_def NormalizeZoneName_Inr fqdnName_plain fqdnName_idem)

text \<open>The well-formedness of a record: plain names and a fixed point of \<^verbatim>\<open>NormalizeRecord\<close>.\<close>

definition plain_record :: "Record \<Rightarrow> bool" where
  "plain_record r \<longleftrightarrow> plain (rec_Zone r) \<and> plain (rec_Name r)"

definition normal_record :: "'x names_pkg_scheme \<Rightarrow> Record \<Rightarrow> bool" where
  "normal_record E r \<longleftrightarrow> plain_record r \<and> NormalizeRecord E r = Inr r"

lemma NormalizeRecord_Inr:
  "NormalizeRecord E r = Inr n \<longleftrightarrow>
     fqdnName E (rec_Zone r) \<noteq> ''.'' \<and> fqdnName E (rec_Name r) \<noteq> ''.'' \<and>
     IsSubDomain E (fqdnName E (rec_Zone r)) (fqdnName E (rec_Name r)) \<and>
     TrimSpace (rec_Data r) \<noteq> [] \<and> rec_Type r \<noteq> 0 \<and>
     n = r\<lparr>rec_Zone := fqdnName E (rec_Zone r), rec_Name := fqdnName E (rec_Name r),
          rec_Class := (if rec_Class r = 0 then ClassINET else rec_Class r),
          rec_Data := TrimSpace (rec_Data r)\<rparr>"
  by (auto simp: NormalizeRecord_def Let_def NormalizeZoneName_Inr NormalizeZoneName_Inl
      split: sum.split)

lemma NormalizeRecord_idem:
  assumes "names_pkg_ok E" and "plain_record r" and "NormalizeRecord E r = Inr n"
  shows "NormalizeRecord E n = Inr n"
  using assms by (auto simp: NormalizeRecord_Inr plain_record_def fqdnName_idem)

lemma normal_record_NormalizeRecord:
  assumes "names_pkg_ok E" and "plain_record r" and "NormalizeRecord E r = Inr n"
  shows "normal_record E n"
  using assms NormalizeRecord_idem [OF assms]
  by (auto simp: normal_record_def plain_record_def NormalizeRecord_Inr fqdnName_plain)

lemma normal_recordD:
  assumes "normal_record E r"
  shows "NormalizeRecord E r = Inr r" and "plain (rec_Zone r)" and "plain (rec_Name r)"
    and "fqdnName E (rec_Zone r) = rec_Zone r" and "fqdnName E (rec_Name r) = rec_Name r"
    and "rec_Type r \<noteq> 0" and "rec_Data r \<noteq> []" and "rec_Class r \<noteq> 0"
    and "IsSubDomain E (rec_Zone r) (rec_Name r)"
    and "rec_Zone r \<noteq> ''.''" and "rec_Name r \<noteq> ''.''"
proof -
  have eq: "NormalizeRecord E r = Inr r" using assms by (simp add: normal_record_def)
  show "NormalizeRecord E r = Inr r" by (rule eq)
  show "plain (rec_Zone r)" "plain (rec_Name r)"
    using assms by (simp_all add: normal_record_def plain_record_def)
  have n: "r = r\<lparr>rec_Zone := fqdnName E (rec_Zone r), rec_Name := fqdnName E (rec_Name r),
          rec_Class := (if rec_Class r = 0 then ClassINET else rec_Class r),
          rec_Data := TrimSpace (rec_Data r)\<rparr>"
    using eq by (simp only: NormalizeRecord_Inr)
  show z: "fqdnName E (rec_Zone r) = rec_Zone r" by (subst (2) n) simp
  show m: "fqdnName E (rec_Name r) = rec_Name r" by (subst (2) n) simp
  show "rec_Class r \<noteq> 0" by (subst n) simp
  have "TrimSpace (rec_Data r) = rec_Data r" by (subst (2) n) simp
  with eq z m show "rec_Type r \<noteq> 0" "rec_Data r \<noteq> []" "IsSubDomain E (rec_Zone r) (rec_Name r)"
    "rec_Zone r \<noteq> ''.''" "rec_Name r \<noteq> ''.''"
    by (auto simp: NormalizeRecord_Inr)
qed

lemma normal_record_zone: "normal_record E r \<Longrightarrow> normal_zone E (rec_Zone r)"
  by (simp add: normal_zone_def NormalizeZoneName_Inr normal_recordD)

section \<open>Facts on keys\<close>

text \<open>
  On plain names a key determines zone, name, type and fingerprint, and the prefixes the
  stores scan by select exactly the records of one zone, one name or one type at a name.
\<close>

lemma plain_no_bar [simp]: "plain s \<Longrightarrow> CHR ''|'' \<notin> set s"
  by (simp add: plain_def)

lemma dec_pad_no_bar [simp]: "CHR ''|'' \<notin> set (dec_pad w n)"
  by (rule digits_no_char [OF dec_pad_digits]) (simp add: isDigit_def)

lemma Key_eq_iff:
  assumes "plain_record r" and "plain_record r'"
  shows "Key E r = Key E r' \<longleftrightarrow>
    rec_Zone r = rec_Zone r' \<and> rec_Name r = rec_Name r' \<and> rec_Type r = rec_Type r' \<and>
    fingerprint E r = fingerprint E r'"
  using assms
  by (auto simp: Key_def plain_record_def append_sep_eq_iff word_unat_eq_iff)

definition row_key :: "string \<Rightarrow> string \<Rightarrow> string" where
  "row_key z n = z @ ''|'' @ n @ ''|''"

lemma RecordPrefix_ANY: "RecordPrefix z n TypeANY = row_key z n"
  by (simp add: RecordPrefix_def row_key_def)

lemma row_key_inject:
  assumes "plain z" and "plain n" and "row_key z' n' = row_key z n"
  shows "z' = z \<and> n' = n"
proof -
  have cnt: "count_list (row_key x y) (CHR ''|'') = count_list x (CHR ''|'') + count_list y (CHR ''|'') + 2"
    for x y by (simp add: row_key_def)
  have "count_list z (CHR ''|'') = 0" "count_list n (CHR ''|'') = 0"
    using assms(1,2) by (simp_all add: count_list_0_iff)
  then have "count_list z' (CHR ''|'') = 0" "count_list n' (CHR ''|'') = 0"
    using cnt [of z n] cnt [of z' n'] assms(3) by simp_all
  then have "CHR ''|'' \<notin> set z'" "CHR ''|'' \<notin> set n'" by (simp_all add: count_list_0_iff)
  with assms show ?thesis by (auto simp: row_key_def append_sep_eq_iff)
qed

lemma prefix_zone_row_key:
  assumes "plain z" and "plain z'"
  shows "prefix (z @ ''|'') (row_key z' n) \<longleftrightarrow> z = z'"
  using assms by (simp add: row_key_def prefix_append_sep)

section \<open>Facts on comparisons\<close>

definition record_key :: "Record \<Rightarrow> string \<times> string \<times> uint16 \<times> string" where
  "record_key r = (rec_Zone r, rec_Name r, rec_Type r, rec_Data r)"

interpretation by_record: keyed_order CompareRecords record_key
  by unfold_locales (auto simp: CompareRecords_def three_way_def record_key_def)

interpretation by_data: keyed_order CompareRecordsByData rec_Data
  by unfold_locales (auto simp: CompareRecordsByData_def three_way_def)

lemma RecordMatchesFilter_iff:
  "RecordMatchesFilter r f \<longleftrightarrow>
     (flt_Zone f = [] \<or> rec_Zone r = flt_Zone f) \<and> (flt_Name f = [] \<or> rec_Name r = flt_Name f) \<and>
     (flt_Type f = 0 \<or> rec_Type r = flt_Type f) \<and> (flt_Class f = 0 \<or> rec_Class r = flt_Class f)"
  by (auto simp: RecordMatchesFilter_def)

lemma normal_record_names:
  assumes "names_pkg_ok E" and "normal_record E r"
  shows "dns_name (rec_Zone r)" and "dns_name (rec_Name r)" and "in_zone (rec_Zone r) (rec_Name r)"
proof -
  show z: "dns_name (rec_Zone r)" and n: "dns_name (rec_Name r)"
    using fqdnName_plain(1) [OF assms(1)] normal_recordD(2-5) [OF assms(2)] by metis+
  show "in_zone (rec_Zone r) (rec_Name r)"
    using normal_recordD(9) [OF assms(2)] IsSubDomain_in_zone [OF assms(1) z n] by simp
qed

section \<open>Properties\<close>

text \<open>A record as a client may write it, and its normal form.\<close>

definition sample_raw :: Record where
  "sample_raw = \<lparr>rec_Zone = '' Example.ORG'', rec_Name = ''WWW.example.org'', rec_TTL = 300,
     rec_Class = 0, rec_Type = TypeA, rec_Data = ''192.0.2.1 ''\<rparr>"

definition sample_record :: Record where
  "sample_record = \<lparr>rec_Zone = ''example.org.'', rec_Name = ''www.example.org.'', rec_TTL = 300,
     rec_Class = ClassINET, rec_Type = TypeA, rec_Data = ''192.0.2.1''\<rparr>"

lemma sample_plain: "plain_record sample_raw"
  by code_simp

lemma sample_normalized: "NormalizeRecord names_ref sample_raw = Inr sample_record"
  by code_simp

lemma sample_normal: "normal_record names_ref sample_record"
  by code_simp

text \<open>
  C38: A record that \<^verbatim>\<open>NormalizeRecord\<close> returns has a lower-case, fully qualified zone and name, lies
  in its zone, which is not the root, has a class, a type and data, keeps the type and the TTL
  of its argument, and is a fixed point of \<^verbatim>\<open>NormalizeRecord\<close>.
\<close>

theorem NormalizeRecord_wellformed:
  assumes "names_pkg_ok E" and "plain_record r" and "NormalizeRecord E r = Inr n"
  shows "dns_name (rec_Zone n) \<and> dns_name (rec_Name n) \<and> in_zone (rec_Zone n) (rec_Name n) \<and>
    rec_Zone n \<noteq> ''.'' \<and> rec_Class n \<noteq> 0 \<and> rec_Type n \<noteq> 0 \<and> rec_Data n \<noteq> [] \<and>
    rec_Type n = rec_Type r \<and> rec_TTL n = rec_TTL r \<and> NormalizeRecord E n = Inr n"
proof -
  have n: "normal_record E n" by (rule normal_record_NormalizeRecord [OF assms])
  have "rec_Type n = rec_Type r" "rec_TTL n = rec_TTL r" using assms(3) by (auto simp: NormalizeRecord_Inr)
  with normal_recordD(6) [OF n] show ?thesis
    by (simp add: normal_record_names [OF assms(1) n] normal_recordD(1,7,8,10) [OF n])
qed

theorem NormalizeRecord_wellformed_witness:
  "NormalizeRecord names_ref sample_raw = Inr sample_record \<and>
   in_zone (rec_Zone sample_record) (rec_Name sample_record)"
  using NormalizeRecord_wellformed [OF names_ref_ok sample_plain sample_normalized] sample_normalized by simp

text \<open>
  C39: Two records with plain names have the same storage key exactly when they have the same zone,
  name, type and fingerprint of class and data; the TTL and the letter case of the data do not
  matter. So saving a record under its key can only ever replace a record of the same RRset.
\<close>

theorem Key_determines_record:
  assumes "plain_record r" and "plain_record r'"
  shows "(Key E r = Key E r' \<longleftrightarrow>
      rec_Zone r = rec_Zone r' \<and> rec_Name r = rec_Name r' \<and> rec_Type r = rec_Type r' \<and>
      fingerprint E r = fingerprint E r') \<and>
    Key E (r\<lparr>rec_TTL := ttl\<rparr>) = Key E r"
  using assms by (simp add: Key_eq_iff) (simp add: Key_def fingerprint_def)

theorem Key_determines_record_witness:
  "Key names_ref sample_record \<noteq> Key names_ref (sample_record\<lparr>rec_Type := TypeAAAA\<rparr>)"
proof -
  have "plain_record sample_record" "plain_record (sample_record\<lparr>rec_Type := TypeAAAA\<rparr>)" by code_simp+
  from Key_determines_record [OF this, where E = names_ref and ttl = 0] show ?thesis
    by (simp add: sample_record_def)
qed

end
