(* ===== verification/Repository.thy ===== *)
theory Repository
  imports Records
begin

text \<open>
  The interface between the storage back ends and everything above them:
  \<^verbatim>\<open>dnsserver/store.go\<close>. The record \<open>Repository\<close> is the Go interface of that name (with the
  optional \<^verbatim>\<open>Revisioner\<close>), \<open>abs_store\<close> the content a back end stands for, the functions \<open>spec_*\<close> what
  its operations do to that content, and the locale \<open>repository\<close> the contract between the two.
  Clients prove their lemmas inside the locale; each back end interprets it.
\<close>

section \<open>The interface\<close>

record 's Repository =
  repo_SaveZone :: "Zone \<Rightarrow> (error, unit, 's) action"
  repo_DeleteZone :: "string \<Rightarrow> (error, unit, 's) action"
  repo_ListZones :: "'s \<Rightarrow> error + Zone list"
  repo_SaveRecord :: "Record \<Rightarrow> (error, unit, 's) action"
  repo_DeleteRecord :: "Record \<Rightarrow> (error, unit, 's) action"
  repo_ListRecords :: "RecordFilter \<Rightarrow> 's \<Rightarrow> error + Record list"
  repo_Lookup :: "string \<Rightarrow> string \<Rightarrow> uint16 \<Rightarrow> uint16 \<Rightarrow> 's \<Rightarrow> error + Record list"
  repo_LookupAll :: "string \<Rightarrow> string \<Rightarrow> uint16 \<Rightarrow> 's \<Rightarrow> error + Record list"
  repo_Revision :: "('s \<Rightarrow> uint64) option"

section \<open>Abstract content\<close>

record abs_store =
  abs_zones :: "string set"
  abs_records :: "Record set"

definition abs_wf :: "'x names_pkg_scheme \<Rightarrow> abs_store \<Rightarrow> bool" where
  "abs_wf E a \<longleftrightarrow>
     finite (abs_zones a) \<and> finite (abs_records a) \<and>
     (\<forall>z \<in> abs_zones a. normal_zone E z) \<and>
     (\<forall>r \<in> abs_records a. normal_record E r \<and> rec_Zone r \<in> abs_zones a) \<and>
     inj_on (Key E) (abs_records a)"

definition put_record :: "'x names_pkg_scheme \<Rightarrow> Record \<Rightarrow> Record set \<Rightarrow> Record set" where
  "put_record E r A = insert r {v \<in> A. Key E v \<noteq> Key E r}"

definition del_record :: "'x names_pkg_scheme \<Rightarrow> Record \<Rightarrow> Record set \<Rightarrow> Record set" where
  "del_record E r A = {v \<in> A. Key E v \<noteq> Key E r}"

definition spec_SaveZone :: "'x names_pkg_scheme \<Rightarrow> Zone \<Rightarrow> (error, unit, abs_store) action" where
  "spec_SaveZone E z a =
     (case NormalizeZoneName E (zone_Name z) of
        Inl err \<Rightarrow> (Inl err, a)
      | Inr n \<Rightarrow> (Inr (), a\<lparr>abs_zones := insert n (abs_zones a)\<rparr>))"

definition spec_DeleteZone :: "'x names_pkg_scheme \<Rightarrow> string \<Rightarrow> (error, unit, abs_store) action" where
  "spec_DeleteZone E z a =
     (case NormalizeZoneName E z of
        Inl err \<Rightarrow> (Inl err, a)
      | Inr n \<Rightarrow> (Inr (), \<lparr>abs_zones = abs_zones a - {n},
                         abs_records = {r \<in> abs_records a. rec_Zone r \<noteq> n}\<rparr>))"

definition spec_SaveRecord :: "'x names_pkg_scheme \<Rightarrow> Record \<Rightarrow> (error, unit, abs_store) action" where
  "spec_SaveRecord E r a =
     (case NormalizeRecord E r of
        Inl err \<Rightarrow> (Inl err, a)
      | Inr n \<Rightarrow> (Inr (), \<lparr>abs_zones = insert (rec_Zone n) (abs_zones a),
                         abs_records = put_record E n (abs_records a)\<rparr>))"

definition spec_DeleteRecord :: "'x names_pkg_scheme \<Rightarrow> Record \<Rightarrow> (error, unit, abs_store) action" where
  "spec_DeleteRecord E r a =
     (case NormalizeRecord E r of
        Inl err \<Rightarrow> (Inl err, a)
      | Inr n \<Rightarrow> (Inr (), a\<lparr>abs_records := del_record E n (abs_records a)\<rparr>))"

definition lookup_set :: "string \<Rightarrow> string \<Rightarrow> uint16 \<Rightarrow> uint16 \<Rightarrow> abs_store \<Rightarrow> Record set" where
  "lookup_set z n qtype qclass a =
     {r \<in> abs_records a. rec_Zone r = z \<and> rec_Name r = n \<and>
        (qtype = TypeANY \<or> rec_Type r = qtype) \<and> (qclass = ClassANY \<or> rec_Class r = qclass)}"

text \<open>A list that holds every element of a set once.\<close>

definition enumerates :: "'a list \<Rightarrow> 'a set \<Rightarrow> bool" where
  "enumerates xs A \<longleftrightarrow> distinct xs \<and> set xs = A"

text \<open>An operation on the state \<open>'s\<close> simulates one on the content.\<close>

definition refines ::
  "('s \<Rightarrow> bool) \<Rightarrow> ('s \<Rightarrow> 'a) \<Rightarrow> ('s \<Rightarrow> 'r \<times> 's) \<Rightarrow> ('a \<Rightarrow> 'r \<times> 'a) \<Rightarrow> bool" where
  "refines invar content f g \<longleftrightarrow>
     (\<forall>s. invar s \<longrightarrow> invar (snd (f s)) \<and> g (content s) = (fst (f s), content (snd (f s))))"

lemma refinesI:
  assumes "\<And>s. invar s \<Longrightarrow> invar (snd (f s))"
    and "\<And>s. invar s \<Longrightarrow> g (content s) = (fst (f s), content (snd (f s)))"
  shows "refines invar content f g"
  using assms by (simp add: refines_def)

lemma refinesD:
  assumes "refines invar content f g" and "invar s" and "f s = (r, s')"
  shows "invar s'" and "g (content s) = (r, content s')"
  using assms by (auto simp: refines_def)

text \<open>A history of writes, on a back end and on the content it stands for.\<close>

datatype store_write =
    WriteSaveZone Zone | WriteDeleteZone string | WriteSaveRecord Record | WriteDeleteRecord Record

fun repo_write :: "'s Repository \<Rightarrow> store_write \<Rightarrow> (error, unit, 's) action" where
  "repo_write R (WriteSaveZone z) = repo_SaveZone R z"
| "repo_write R (WriteDeleteZone z) = repo_DeleteZone R z"
| "repo_write R (WriteSaveRecord r) = repo_SaveRecord R r"
| "repo_write R (WriteDeleteRecord r) = repo_DeleteRecord R r"

fun spec_write :: "'x names_pkg_scheme \<Rightarrow> store_write \<Rightarrow> (error, unit, abs_store) action" where
  "spec_write E (WriteSaveZone z) = spec_SaveZone E z"
| "spec_write E (WriteDeleteZone z) = spec_DeleteZone E z"
| "spec_write E (WriteSaveRecord r) = spec_SaveRecord E r"
| "spec_write E (WriteDeleteRecord r) = spec_DeleteRecord E r"

fun plain_write :: "store_write \<Rightarrow> bool" where
  "plain_write (WriteSaveZone z) = plain (zone_Name z)"
| "plain_write (WriteDeleteZone z) = plain z"
| "plain_write (WriteSaveRecord r) = plain_record r"
| "plain_write (WriteDeleteRecord r) = plain_record r"

definition run_writes :: "(store_write \<Rightarrow> 's \<Rightarrow> 'r \<times> 's) \<Rightarrow> store_write list \<Rightarrow> 's \<Rightarrow> 's" where
  "run_writes step ws s = fold (\<lambda>w s. snd (step w s)) ws s"

section \<open>The contract\<close>

locale repository =
  fixes E :: "'x names_pkg_scheme" and R :: "'s Repository"
    and invar :: "'s \<Rightarrow> bool" and content :: "'s \<Rightarrow> abs_store"
  assumes names_ok: "invar s \<Longrightarrow> names_pkg_ok E"
    and abs_wf: "invar s \<Longrightarrow> abs_wf E (content s)"
    and SaveZone: "plain (zone_Name z) \<Longrightarrow> refines invar content (repo_SaveZone R z) (spec_SaveZone E z)"
    and DeleteZone: "plain zn \<Longrightarrow> refines invar content (repo_DeleteZone R zn) (spec_DeleteZone E zn)"
    and SaveRecord: "plain_record r \<Longrightarrow> refines invar content (repo_SaveRecord R r) (spec_SaveRecord E r)"
    and DeleteRecord:
      "plain_record r \<Longrightarrow> refines invar content (repo_DeleteRecord R r) (spec_DeleteRecord E r)"
    and ListZones: "invar s \<Longrightarrow> \<exists>zs. repo_ListZones R s = Inr zs \<and>
      map zone_Name zs = sorted_list_of_set (abs_zones (content s))"
    and ListRecords_err: "NormalizeRecordFilter E f = Inl err \<Longrightarrow> repo_ListRecords R f s = Inl err"
    and ListRecords: "invar s \<Longrightarrow> NormalizeRecordFilter E f = Inr g \<Longrightarrow>
      \<exists>xs. repo_ListRecords R f s = Inr xs \<and> sorted (map record_key xs) \<and>
        enumerates xs {r \<in> abs_records (content s). RecordMatchesFilter r g}"
    and Lookup_err: "NormalizeLookup E zn n = Inl err \<Longrightarrow> repo_Lookup R zn n qt qc s = Inl err"
    and Lookup: "invar s \<Longrightarrow> NormalizeLookup E zn n = Inr (z', n') \<Longrightarrow>
      \<exists>xs. repo_Lookup R zn n qt qc s = Inr xs \<and> sorted (map rec_Data xs) \<and>
        enumerates xs (lookup_set z' n' qt qc (content s))"
    and LookupAll_err: "NormalizeLookup E zn n = Inl err \<Longrightarrow> repo_LookupAll R zn n qc s = Inl err"
    and LookupAll: "invar s \<Longrightarrow> NormalizeLookup E zn n = Inr (z', n') \<Longrightarrow>
      \<exists>xs. repo_LookupAll R zn n qc s = Inr xs \<and> sorted (map rec_Data xs) \<and>
        enumerates xs (lookup_set z' n' TypeANY qc (content s))"
begin

lemma normal_stored: "invar s \<Longrightarrow> r \<in> abs_records (content s) \<Longrightarrow> normal_record E r"
  using abs_wf by (auto simp: abs_wf_def)

lemma stored_zone: "invar s \<Longrightarrow> r \<in> abs_records (content s) \<Longrightarrow> rec_Zone r \<in> abs_zones (content s)"
  using abs_wf by (auto simp: abs_wf_def)

lemma finite_zones: "invar s \<Longrightarrow> finite (abs_zones (content s))"
  using abs_wf by (auto simp: abs_wf_def)

lemma inj_Key_stored: "invar s \<Longrightarrow> inj_on (Key E) (abs_records (content s))"
  using abs_wf by (auto simp: abs_wf_def)

lemma write_refines: "plain_write w \<Longrightarrow> refines invar content (repo_write R w) (spec_write E w)"
  by (cases w) (simp_all add: SaveZone DeleteZone SaveRecord DeleteRecord)

lemma history_refines:
  assumes "invar s" and "list_all plain_write ws"
  shows "invar (run_writes (repo_write R) ws s) \<and>
    content (run_writes (repo_write R) ws s) = run_writes (spec_write E) ws (content s)"
  using assms
proof (induction ws arbitrary: s)
  case (Cons w ws)
  obtain x s' where step: "repo_write R w s = (x, s')" by (cases "repo_write R w s")
  note sim = refinesD [OF write_refines _ step]
  have "plain_write w" using Cons.prems by simp
  with Cons.prems sim have "invar s'" "spec_write E w (content s) = (x, content s')" by simp_all
  with Cons step show ?case by (simp add: run_writes_def)
qed (simp add: run_writes_def)

lemma DeleteRecord_stored:
  assumes "invar s" and "normal_record E r"
  obtains s' where "repo_DeleteRecord R r s = (Inr (), s')" and "invar s'"
    and "content s' = (content s)\<lparr>abs_records := del_record E r (abs_records (content s))\<rparr>"
proof -
  obtain x s' where op: "repo_DeleteRecord R r s = (x, s')" by (cases "repo_DeleteRecord R r s")
  have "plain_record r" using assms(2) by (simp add: normal_record_def)
  note sim = refinesD [OF DeleteRecord [OF this] assms(1) op]
  from sim(2) assms(2) have "x = Inr ()"
    "content s' = (content s)\<lparr>abs_records := del_record E r (abs_records (content s))\<rparr>"
    by (auto simp: spec_DeleteRecord_def normal_recordD(1))
  with sim(1) op show thesis by (intro that) auto
qed

lemma SaveRecord_normal:
  assumes "invar s" and "normal_record E r"
  obtains s' where "repo_SaveRecord R r s = (Inr (), s')" and "invar s'"
    and "content s' = \<lparr>abs_zones = insert (rec_Zone r) (abs_zones (content s)),
                   abs_records = put_record E r (abs_records (content s))\<rparr>"
proof -
  obtain x s' where op: "repo_SaveRecord R r s = (x, s')" by (cases "repo_SaveRecord R r s")
  have "plain_record r" using assms(2) by (simp add: normal_record_def)
  note sim = refinesD [OF SaveRecord [OF this] assms(1) op]
  from sim(2) assms(2) have "x = Inr ()"
    "content s' = \<lparr>abs_zones = insert (rec_Zone r) (abs_zones (content s)),
               abs_records = put_record E r (abs_records (content s))\<rparr>"
    by (auto simp: spec_SaveRecord_def normal_recordD(1))
  with sim(1) op show thesis by (intro that) auto
qed

end

lemma del_record_key_inj:
  assumes "inj_on (Key E) A" and "r \<in> A"
  shows "del_record E r A = A - {r}"
  using assms by (auto simp: del_record_def inj_on_def)

lemma inj_on_put_record: "inj_on (Key E) A \<Longrightarrow> inj_on (Key E) (put_record E r A)"
  by (auto simp: put_record_def inj_on_def)

end
