(* ===== verification/Validation.thy ===== *)
theory Validation
  imports Repository
begin

text \<open>
  The rules a zone has to meet, \<^verbatim>\<open>dnsserver/validation.go\<close>, and a declarative statement of them
  (\<open>zone_valid\<close>) with the proof that the code checks exactly that. Also the list operations of that
  file with which the manager computes the records a change would leave.
\<close>

section \<open>The checks\<close>

record zoneValidationOptions =
  requireApexNS :: bool

definition filterRecords :: "Record list \<Rightarrow> (Record \<Rightarrow> bool) \<Rightarrow> Record list" where
  "filterRecords records predicate = filter predicate records"

definition removeRecords :: "Record list \<Rightarrow> (Record \<Rightarrow> bool) \<Rightarrow> Record list" where
  "removeRecords records predicate = filter (\<lambda>r. \<not> predicate r) records"

fun validateSOAPlacement :: "string \<Rightarrow> Record list \<Rightarrow> error + unit" where
  "validateSOAPlacement zone [] = Inr ()"
| "validateSOAPlacement zone (record # records) =
     (if rec_Type record \<noteq> TypeSOA \<or> rec_Name record = zone
      then validateSOAPlacement zone records
      else Inl (Coded CodeZoneSOANotAtApex ErrSOAMustBeAtZoneApex))"

definition validateSOACount :: "Record list \<Rightarrow> error + unit" where
  "validateSOACount apexSOARecords =
     (if length apexSOARecords \<le> 1 then Inr ()
      else Inl (Coded CodeZoneSOARecordCountInvalid ErrSOARecordCountInvalid))"

definition validateApexNSRequirement ::
  "string \<Rightarrow> Record list \<Rightarrow> Record list \<Rightarrow> zoneValidationOptions \<Rightarrow> error + unit" where
  "validateApexNSRequirement zone records apexSOARecords opts =
     (if \<not> requireApexNS opts \<or> length apexSOARecords = 0 then Inr ()
      else
        let apexNSRecords = filterRecords records (\<lambda>r. rec_Name r = zone \<and> rec_Type r = TypeNS) in
        if length apexNSRecords > 0 then Inr ()
        else Inl (Coded CodeZoneApexNSRequired ErrApexNSRequired))"

definition validateCNAMECount :: "Record list \<Rightarrow> error + unit" where
  "validateCNAMECount cnameRecords =
     (if length cnameRecords \<le> 1 then Inr ()
      else Inl (Coded CodeZoneCNAMERecordCountInvalid ErrCNAMERecordCountInvalid))"

definition validateCNAMECoexistence :: "Record list \<Rightarrow> Record list \<Rightarrow> error + unit" where
  "validateCNAMECoexistence nameRecords cnameRecords =
     (if length cnameRecords = 0 \<or> length nameRecords = length cnameRecords then Inr ()
      else Inl (Coded CodeZoneCNAMEConflict ErrCNAMEConflict))"

text \<open>
  \<^verbatim>\<open>lo.GroupBy(records, Name)\<close> with its groups in one order; Go iterates over the map in an
  unspecified order, which decides which of several violations is reported, not whether one is.
\<close>

definition groupByName :: "Record list \<Rightarrow> (string \<times> Record list) list" where
  "groupByName records =
     map (\<lambda>name. (name, filter (\<lambda>r. rec_Name r = name) records)) (remdups (map rec_Name records))"

fun validateCNAMEGroups :: "(string \<times> Record list) list \<Rightarrow> error + unit" where
  "validateCNAMEGroups [] = Inr ()"
| "validateCNAMEGroups ((name, nameRecords) # groups) =
     (let cnameRecords = filterRecords nameRecords (\<lambda>r. rec_Type r = TypeCNAME) in
      case validateCNAMECount cnameRecords of
        Inl err \<Rightarrow> Inl err
      | Inr _ \<Rightarrow>
         (case validateCNAMECoexistence nameRecords cnameRecords of
            Inl err \<Rightarrow> Inl err
          | Inr _ \<Rightarrow> validateCNAMEGroups groups))"

definition validateCNAMEConflicts :: "Record list \<Rightarrow> error + unit" where
  "validateCNAMEConflicts records = validateCNAMEGroups (groupByName records)"

definition validateZoneRecords ::
  "'x names_pkg_scheme \<Rightarrow> string \<Rightarrow> Record list \<Rightarrow> zoneValidationOptions \<Rightarrow> error + unit" where
  "validateZoneRecords E zone records opts =
     (case NormalizeZoneName E zone of
        Inl err \<Rightarrow> Inl err
      | Inr normalizedZone \<Rightarrow>
         (if length records = 0 then Inr ()
          else
            case validateSOAPlacement normalizedZone records of
              Inl err \<Rightarrow> Inl err
            | Inr _ \<Rightarrow>
               (let apexSOARecords =
                      filterRecords records (\<lambda>r. rec_Name r = normalizedZone \<and> rec_Type r = TypeSOA) in
                case validateSOACount apexSOARecords of
                  Inl err \<Rightarrow> Inl err
                | Inr _ \<Rightarrow>
                   (case validateApexNSRequirement normalizedZone records apexSOARecords opts of
                      Inl err \<Rightarrow> Inl err
                    | Inr _ \<Rightarrow> validateCNAMEConflicts records))))"

fun validateZones ::
  "'x names_pkg_scheme \<Rightarrow> Record list \<Rightarrow> zoneValidationOptions \<Rightarrow> string list \<Rightarrow> error + unit" where
  "validateZones E records opts [] = Inr ()"
| "validateZones E records opts (zone # zones) =
     (let zoneRecords = filter (\<lambda>r. rec_Zone r = zone) records in
      case validateZoneRecords E zone zoneRecords opts of
        Inl err \<Rightarrow> Inl err
      | Inr _ \<Rightarrow> validateZones E records opts zones)"

definition validateRecordsByZone ::
  "'x names_pkg_scheme \<Rightarrow> 'o set_pkg \<Rightarrow> Record list \<Rightarrow> zoneValidationOptions \<Rightarrow> error + unit" where
  "validateRecordsByZone E OS records opts =
     (let zones = fold (\<lambda>record zs. oset_Add OS (rec_Zone record) zs) records (oset_new OS) in
      validateZones E records opts (oset_Values OS zones))"

text \<open>
  \<^verbatim>\<open>upsertRecords\<close>: of the records of both lists, in order, those whose key was not seen before.
\<close>

fun upsertLoop :: "'x names_pkg_scheme \<Rightarrow> 'o set_pkg \<Rightarrow> 'o \<Rightarrow> Record list \<Rightarrow> Record list" where
  "upsertLoop E OS keys [] = []"
| "upsertLoop E OS keys (record # records) =
     (if oset_Contains OS keys (Key E record) then upsertLoop E OS keys records
      else record # upsertLoop E OS (oset_Add OS (Key E record) keys) records)"

definition upsertRecords ::
  "'x names_pkg_scheme \<Rightarrow> 'o set_pkg \<Rightarrow> Record list \<Rightarrow> Record list \<Rightarrow> Record list" where
  "upsertRecords E OS records replacements = upsertLoop E OS (oset_new OS) (records @ replacements)"

section \<open>The rules, declaratively\<close>

text \<open>
  In the zone \<open>zone\<close>, with records \<open>A\<close>: an SOA record stands at the apex, there is at most one, an
  apex NS record exists beside it when that is required, and a CNAME record is the only record
  at its name.
\<close>

definition zone_valid :: "string \<Rightarrow> bool \<Rightarrow> Record set \<Rightarrow> bool" where
  "zone_valid zone needNS A \<longleftrightarrow>
     (\<forall>r \<in> A. rec_Type r = TypeSOA \<longrightarrow> rec_Name r = zone) \<and>
     (\<forall>r \<in> A. \<forall>r' \<in> A. rec_Type r = TypeSOA \<and> rec_Type r' = TypeSOA \<longrightarrow> r = r') \<and>
     (needNS \<and> (\<exists>r \<in> A. rec_Type r = TypeSOA) \<longrightarrow>
        (\<exists>r \<in> A. rec_Type r = TypeNS \<and> rec_Name r = zone)) \<and>
     (\<forall>r \<in> A. rec_Type r = TypeCNAME \<longrightarrow> (\<forall>r' \<in> A. rec_Name r' = rec_Name r \<longrightarrow> r' = r))"

lemma zone_valid_mono: "zone_valid zone False A \<Longrightarrow> B \<subseteq> A \<Longrightarrow> zone_valid zone False B"
  unfolding zone_valid_def by blast

lemma zone_valid_weaken: "zone_valid zone needNS A \<Longrightarrow> zone_valid zone False A"
  by (simp add: zone_valid_def)

section \<open>The code checks the rules\<close>

lemma length_le_1_iff:
  "distinct xs \<Longrightarrow> length xs \<le> 1 \<longleftrightarrow> (\<forall>x \<in> set xs. \<forall>y \<in> set xs. x = y)"
  by (cases xs; cases "tl xs") auto

lemma validateSOAPlacement_ok:
  "validateSOAPlacement zone rs = Inr () \<longleftrightarrow> (\<forall>r \<in> set rs. rec_Type r = TypeSOA \<longrightarrow> rec_Name r = zone)"
  by (induction rs) auto

lemma validateSOAPlacement_err:
  "validateSOAPlacement zone rs = Inl err \<Longrightarrow> err = Coded CodeZoneSOANotAtApex ErrSOAMustBeAtZoneApex"
  by (induction rs) (auto split: if_splits)

lemma validateCNAMEGroups_ok:
  "validateCNAMEGroups groups = Inr () \<longleftrightarrow>
     (\<forall>(name, rs) \<in> set groups.
        length (filter (\<lambda>r. rec_Type r = TypeCNAME) rs) \<le> 1 \<and>
        (filter (\<lambda>r. rec_Type r = TypeCNAME) rs = [] \<or>
         length rs = length (filter (\<lambda>r. rec_Type r = TypeCNAME) rs)))"
  by (induction groups rule: validateCNAMEGroups.induct)
    (auto simp: validateCNAMECount_def validateCNAMECoexistence_def filterRecords_def Let_def)

lemma cname_group_ok:
  assumes "distinct rs"
  shows "(length (filter P rs) \<le> 1 \<and> (filter P rs = [] \<or> length rs = length (filter P rs))) \<longleftrightarrow>
    (\<forall>r \<in> set rs. P r \<longrightarrow> (\<forall>r' \<in> set rs. r' = r))"
proof -
  have all: "length rs = length (filter P rs) \<longleftrightarrow> (\<forall>r \<in> set rs. P r)"
    by (metis filter_True filter_id_conv length_filter_less nat_neq_iff)
  have one: "length (filter P rs) \<le> 1 \<longleftrightarrow> (\<forall>r \<in> set rs. P r \<longrightarrow> (\<forall>r' \<in> set rs. P r' \<longrightarrow> r = r'))"
    using length_le_1_iff [of "filter P rs"] assms by auto
  show ?thesis unfolding all one by (auto simp: filter_empty_conv)
qed

lemma validateCNAMEConflicts_ok:
  assumes "distinct rs"
  shows "validateCNAMEConflicts rs = Inr () \<longleftrightarrow>
    (\<forall>r \<in> set rs. rec_Type r = TypeCNAME \<longrightarrow> (\<forall>r' \<in> set rs. rec_Name r' = rec_Name r \<longrightarrow> r' = r))"
proof -
  have "validateCNAMEConflicts rs = Inr () \<longleftrightarrow>
      (\<forall>name \<in> rec_Name ` set rs. \<forall>r \<in> set (filter (\<lambda>r. rec_Name r = name) rs). rec_Type r = TypeCNAME \<longrightarrow>
         (\<forall>r' \<in> set (filter (\<lambda>r. rec_Name r = name) rs). r' = r))"
    unfolding validateCNAMEConflicts_def validateCNAMEGroups_ok groupByName_def
      cname_group_ok [OF distinct_filter [OF assms], symmetric]
    by (simp del: filter_filter)
  also have "\<dots> \<longleftrightarrow> (\<forall>r \<in> set rs. rec_Type r = TypeCNAME \<longrightarrow> (\<forall>r' \<in> set rs. rec_Name r' = rec_Name r \<longrightarrow> r' = r))"
    by auto
  finally show ?thesis .
qed

lemma validateZoneRecords_zone_valid:
  assumes "distinct rs" and "NormalizeZoneName E z = Inr zone"
  shows "validateZoneRecords E z rs opts = Inr () \<longleftrightarrow> zone_valid zone (requireApexNS opts) (set rs)"
proof (cases "validateSOAPlacement zone rs")
  case (Inl err)
  then have "\<not> (\<forall>r \<in> set rs. rec_Type r = TypeSOA \<longrightarrow> rec_Name r = zone)"
    using validateSOAPlacement_ok [of zone rs] by simp
  moreover from this have "rs \<noteq> []" by auto
  ultimately show ?thesis using Inl assms(2) by (auto simp: validateZoneRecords_def zone_valid_def)
next
  case (Inr u)
  then have place: "\<forall>r \<in> set rs. rec_Type r = TypeSOA \<longrightarrow> rec_Name r = zone"
    using validateSOAPlacement_ok [of zone rs] by simp
  let ?soa = "filter (\<lambda>r. rec_Name r = zone \<and> rec_Type r = TypeSOA) rs"
  have soa1: "length ?soa \<le> 1 \<longleftrightarrow>
      (\<forall>r \<in> set rs. \<forall>r' \<in> set rs. rec_Type r = TypeSOA \<and> rec_Type r' = TypeSOA \<longrightarrow> r = r')"
    using length_le_1_iff [of ?soa] assms(1) place by auto
  have soa0: "?soa = [] \<longleftrightarrow> \<not> (\<exists>r \<in> set rs. rec_Type r = TypeSOA)"
    using place by (auto simp: filter_empty_conv)
  have ns: "filter (\<lambda>r. rec_Name r = zone \<and> rec_Type r = TypeNS) rs \<noteq> [] \<longleftrightarrow>
      (\<exists>r \<in> set rs. rec_Type r = TypeNS \<and> rec_Name r = zone)"
    by (auto simp: filter_empty_conv)
  have code: "validateZoneRecords E z rs opts = Inr () \<longleftrightarrow> rs = [] \<or>
      length ?soa \<le> 1 \<and>
      (\<not> requireApexNS opts \<or> ?soa = [] \<or> filter (\<lambda>r. rec_Name r = zone \<and> rec_Type r = TypeNS) rs \<noteq> []) \<and>
      validateCNAMEConflicts rs = Inr ()"
    using Inr assms(2)
    by (auto simp: validateZoneRecords_def validateSOACount_def validateApexNSRequirement_def
        filterRecords_def Let_def)
  show ?thesis
    unfolding code soa1 soa0 ns validateCNAMEConflicts_ok [OF assms(1)] zone_valid_def
    using place by (cases "rs = []") auto
qed

text \<open>Which rule each error reports.\<close>

lemma validateSOACount_err:
  "validateSOACount rs = Inl err \<Longrightarrow> err = Coded CodeZoneSOARecordCountInvalid ErrSOARecordCountInvalid"
  by (simp add: validateSOACount_def split: if_splits)

lemma validateApexNSRequirement_err:
  "validateApexNSRequirement zone rs soas opts = Inl err \<Longrightarrow>
     err = Coded CodeZoneApexNSRequired ErrApexNSRequired"
  by (simp add: validateApexNSRequirement_def Let_def split: if_splits)

lemma validateCNAMEGroups_err:
  "validateCNAMEGroups groups = Inl err \<Longrightarrow>
     err \<in> {Coded CodeZoneCNAMERecordCountInvalid ErrCNAMERecordCountInvalid,
            Coded CodeZoneCNAMEConflict ErrCNAMEConflict}"
  by (induction groups rule: validateCNAMEGroups.induct)
    (auto simp: validateCNAMECount_def validateCNAMECoexistence_def Let_def split: if_splits)

section \<open>Merging records\<close>

lemma upsertLoop_first_by:
  "set_pkg_ok OS \<Longrightarrow> upsertLoop E OS keys rs = first_by (Key E) (set (oset_Values OS keys)) rs"
  by (induction rs arbitrary: keys) (auto simp: oset_laws insert_absorb)

lemma upsertRecords_first_by:
  "set_pkg_ok OS \<Longrightarrow> upsertRecords E OS rs reps = first_by (Key E) {} (rs @ reps)"
  by (simp add: upsertRecords_def upsertLoop_first_by oset_laws)

text \<open>When the first list has no key twice, all of it is kept: an existing record wins.\<close>

lemma upsertRecords_keeps:
  assumes "set_pkg_ok OS" and "distinct (map (Key E) rs)" and "distinct (map (Key E) reps)"
  shows "upsertRecords E OS rs reps = rs @ filter (\<lambda>r. Key E r \<notin> Key E ` set rs) reps"
  using assms by (simp add: upsertRecords_first_by first_by_append first_by_id first_by_filter)

lemma distinct_upsertRecords:
  "set_pkg_ok OS \<Longrightarrow> distinct (map (Key E) (upsertRecords E OS rs reps))"
  by (simp add: upsertRecords_first_by distinct_first_by)

section \<open>Several zones\<close>

lemma validateZones_ok:
  "validateZones E rs opts zones = Inr () \<longleftrightarrow>
     (\<forall>z \<in> set zones. validateZoneRecords E z (filter (\<lambda>r. rec_Zone r = z) rs) opts = Inr ())"
  by (induction zones) (auto simp: Let_def split: sum.splits)

lemma zones_of_records:
  "set_pkg_ok OS \<Longrightarrow>
     set (oset_Values OS (fold (\<lambda>record. oset_Add OS (rec_Zone record)) rs zs)) =
     set (oset_Values OS zs) \<union> rec_Zone ` set rs"
  by (induction rs arbitrary: zs) (auto simp: oset_laws)

lemma validateRecordsByZone_zone_valid:
  assumes "set_pkg_ok OS" and "distinct rs" and "\<And>r. r \<in> set rs \<Longrightarrow> normal_zone E (rec_Zone r)"
  shows "validateRecordsByZone E OS rs opts = Inr () \<longleftrightarrow>
    (\<forall>z \<in> rec_Zone ` set rs. zone_valid z (requireApexNS opts) {r \<in> set rs. rec_Zone r = z})"
proof -
  have "validateRecordsByZone E OS rs opts = Inr () \<longleftrightarrow>
      (\<forall>z \<in> rec_Zone ` set rs. validateZoneRecords E z (filter (\<lambda>r. rec_Zone r = z) rs) opts = Inr ())"
    using assms(1)
    by (simp add: validateRecordsByZone_def Let_def validateZones_ok zones_of_records oset_laws)
  also have "\<dots> \<longleftrightarrow> (\<forall>z \<in> rec_Zone ` set rs. zone_valid z (requireApexNS opts) {r \<in> set rs. rec_Zone r = z})"
  proof (rule ball_cong [OF refl])
    fix z assume "z \<in> rec_Zone ` set rs"
    then have "NormalizeZoneName E z = Inr z" using assms(3) normal_zoneD by auto
    then show "validateZoneRecords E z (filter (\<lambda>r. rec_Zone r = z) rs) opts = Inr () \<longleftrightarrow>
        zone_valid z (requireApexNS opts) {r \<in> set rs. rec_Zone r = z}"
      using validateZoneRecords_zone_valid [of "filter (\<lambda>r. rec_Zone r = z) rs"] assms(2) by simp
  qed
  finally show ?thesis .
qed

section \<open>Properties\<close>

text \<open>
  C26: \<^verbatim>\<open>validateZoneRecords\<close> accepts the records of a zone exactly when they meet the rules: every
  SOA record at the apex, at most one, an apex NS record beside it where that is required, and
  every CNAME record alone at its name. It rejects the others with one of the codes of these rules.
\<close>

theorem validateZoneRecords_decides:
  assumes "distinct rs" and "NormalizeZoneName E zone = Inr z"
  shows "(validateZoneRecords E zone rs opts = Inr () \<longleftrightarrow> zone_valid z (requireApexNS opts) (set rs)) \<and>
    (case validateZoneRecords E zone rs opts of
       Inr _ \<Rightarrow> True
     | Inl err \<Rightarrow> ErrorCodeOf err \<in> Some ` {CodeZoneSOANotAtApex, CodeZoneSOARecordCountInvalid,
         CodeZoneApexNSRequired, CodeZoneCNAMERecordCountInvalid, CodeZoneCNAMEConflict})"
  using validateZoneRecords_zone_valid [OF assms] assms(2)
  by (auto simp: validateZoneRecords_def validateCNAMEConflicts_def Let_def split: sum.split
      dest!: validateSOAPlacement_err validateSOACount_err validateApexNSRequirement_err validateCNAMEGroups_err)

theorem validateZoneRecords_decides_witness:
  "validateZoneRecords names_ref ''example.org''
     [sample_record, sample_record\<lparr>rec_Type := TypeCNAME, rec_Data := ''example.org.''\<rparr>]
     \<lparr>requireApexNS = False\<rparr> = Inl (Coded CodeZoneCNAMEConflict ErrCNAMEConflict) \<and>
   \<not> zone_valid ''example.org.'' False
      {sample_record, sample_record\<lparr>rec_Type := TypeCNAME, rec_Data := ''example.org.''\<rparr>}"
proof -
  let ?rs = "[sample_record, sample_record\<lparr>rec_Type := TypeCNAME, rec_Data := ''example.org.''\<rparr>]"
  have d: "distinct ?rs" by code_simp
  have z: "NormalizeZoneName names_ref ''example.org'' = Inr ''example.org.''" by code_simp
  have "validateZoneRecords names_ref ''example.org'' ?rs \<lparr>requireApexNS = False\<rparr> =
      Inl (Coded CodeZoneCNAMEConflict ErrCNAMEConflict)" by code_simp
  with validateZoneRecords_decides [OF d z, of "\<lparr>requireApexNS = False\<rparr>"] show ?thesis by simp
qed

end
