(* ===== verification/Snapshot.thy ===== *)
theory Snapshot
  imports Validation
begin

text \<open>
  The read models of a zone: \<^verbatim>\<open>dnsserver/snapshot.go\<close>. A snapshot holds the records of a zone in
  order, and the same records grouped into RRsets.
\<close>

section \<open>Snapshots and RRsets\<close>

record RRSet =
  rrs_Zone :: string
  rrs_Name :: string
  rrs_Class :: uint16
  rrs_Type :: uint16
  rrs_Records :: "Record list"

record ZoneSnapshot =
  snap_Zone :: Zone
  snap_Records :: "Record list"
  snap_RRSets :: "RRSet list"

definition snapshot_Validate :: "'x names_pkg_scheme \<Rightarrow> ZoneSnapshot \<Rightarrow> error + unit" where
  "snapshot_Validate E snapshot =
     validateZoneRecords E (zone_Name (snap_Zone snapshot)) (snap_Records snapshot) \<lparr>requireApexNS = True\<rparr>"

definition rrsetKey :: "Record \<Rightarrow> string" where
  "rrsetKey record =
     rec_Zone record @ ''|'' @ rec_Name record @ ''|'' @
     dec (unat (rec_Class record)) @ ''|'' @ dec (unat (rec_Type record))"

definition compareRRSets :: "RRSet \<Rightarrow> RRSet \<Rightarrow> int" where
  "compareRRSets left right =
     (if rrs_Zone left < rrs_Zone right then -1
      else if rrs_Zone left > rrs_Zone right then 1
      else if rrs_Name left < rrs_Name right then -1
      else if rrs_Name left > rrs_Name right then 1
      else if rrs_Type left < rrs_Type right then -1
      else if rrs_Type left > rrs_Type right then 1
      else if rrs_Class left < rrs_Class right then -1
      else if rrs_Class left > rrs_Class right then 1
      else 0)"

text \<open>
  \<^verbatim>\<open>rrsetsByKey\<close>, a Go map from keys to RRsets, is an association list in one iteration order; a
  step of the first loop appends the record to the RRset of its key, made if it is missing.
\<close>

fun addToRRSet :: "Record \<Rightarrow> (string \<times> RRSet) list \<Rightarrow> (string \<times> RRSet) list" where
  "addToRRSet record [] =
     [(rrsetKey record,
       \<lparr>rrs_Zone = rec_Zone record, rrs_Name = rec_Name record, rrs_Class = rec_Class record,
        rrs_Type = rec_Type record, rrs_Records = [record]\<rparr>)]"
| "addToRRSet record ((key, rrset) # rest) =
     (if key = rrsetKey record
      then (key, rrset\<lparr>rrs_Records := rrs_Records rrset @ [record]\<rparr>) # rest
      else (key, rrset) # addToRRSet record rest)"

definition snapshotRRSet :: "RRSet \<Rightarrow> RRSet" where
  "snapshotRRSet rrset =
     \<lparr>rrs_Zone = rrs_Zone rrset, rrs_Name = rrs_Name rrset, rrs_Class = rrs_Class rrset,
      rrs_Type = rrs_Type rrset,
      rrs_Records = SortFunc CompareRecordsByData (map (\<lambda>record. record) (rrs_Records rrset))\<rparr>"

definition buildRRSets :: "Record list \<Rightarrow> RRSet list" where
  "buildRRSets records =
     (if length records = 0 then []
      else
        let rrsetsByKey = fold addToRRSet records [];
            rrsets = map snapshotRRSet (map snd rrsetsByKey)
        in SortFunc compareRRSets rrsets)"

definition buildZoneSnapshot :: "string \<Rightarrow> Record list \<Rightarrow> ZoneSnapshot" where
  "buildZoneSnapshot zone records =
     (let snapshotRecords = SortFunc CompareRecords records in
      \<lparr>snap_Zone = \<lparr>zone_Name = zone\<rparr>, snap_Records = snapshotRecords,
       snap_RRSets = buildRRSets snapshotRecords\<rparr>)"

section \<open>Ordering of RRsets\<close>

definition rrset_id :: "RRSet \<Rightarrow> string \<times> string \<times> uint16 \<times> uint16" where
  "rrset_id s = (rrs_Zone s, rrs_Name s, rrs_Type s, rrs_Class s)"

definition record_rrset :: "Record \<Rightarrow> string \<times> string \<times> uint16 \<times> uint16" where
  "record_rrset r = (rec_Zone r, rec_Name r, rec_Type r, rec_Class r)"

interpretation by_rrset: keyed_order compareRRSets rrset_id
  by unfold_locales (auto simp: compareRRSets_def three_way_def rrset_id_def)

section \<open>Grouping keeps every record once\<close>

lemma mset_addToRRSet:
  "mset (concat (map (rrs_Records \<circ> snd) (addToRRSet r kvs))) =
     add_mset r (mset (concat (map (rrs_Records \<circ> snd) kvs)))"
  by (induction r kvs rule: addToRRSet.induct) (auto simp: add_ac)

lemma mset_fold_addToRRSet:
  "mset (concat (map (rrs_Records \<circ> snd) (fold addToRRSet rs kvs))) =
     mset rs + mset (concat (map (rrs_Records \<circ> snd) kvs))"
  by (induction rs arbitrary: kvs) (simp_all add: mset_addToRRSet del: mset_concat)

lemma snapshotRRSet_simps [simp]:
  "rrset_id (snapshotRRSet s) = rrset_id s"
  "rrs_Records (snapshotRRSet s) = SortFunc CompareRecordsByData (rrs_Records s)"
  by (simp_all add: snapshotRRSet_def rrset_id_def)

lemma mset_concat_sorted:
  "mset (concat (map rrs_Records (map snapshotRRSet ss))) = mset (concat (map rrs_Records ss))"
  by (induction ss) (auto simp: by_data.mset_SortFunc)

lemma buildRRSets_eq:
  "buildRRSets rs = SortFunc compareRRSets (map snapshotRRSet (map snd (fold addToRRSet rs [])))"
  by (simp add: buildRRSets_def Let_def)

lemma mset_concat_cong: "mset xs = mset ys \<Longrightarrow> mset (concat (map f xs)) = mset (concat (map f ys))"
proof -
  have "mset (concat (map f zs)) = sum_mset (image_mset (\<lambda>x. mset (f x)) (mset zs))" for zs
    by (induction zs) auto
  then show "mset xs = mset ys \<Longrightarrow> mset (concat (map f xs)) = mset (concat (map f ys))" by simp
qed

lemma mset_buildRRSets: "mset (concat (map rrs_Records (buildRRSets rs))) = mset rs"
proof -
  have "mset (concat (map rrs_Records (buildRRSets rs))) =
      mset (concat (map rrs_Records (map snd (fold addToRRSet rs []))))"
    unfolding buildRRSets_eq mset_concat_cong [OF by_rrset.mset_SortFunc] by (rule mset_concat_sorted)
  also have "\<dots> = mset rs" unfolding map_map mset_fold_addToRRSet by simp
  finally show ?thesis .
qed

section \<open>Every RRset is one name, type and class\<close>

definition rrset_ok :: "string \<times> RRSet \<Rightarrow> bool" where
  "rrset_ok kv \<longleftrightarrow> rrs_Records (snd kv) \<noteq> [] \<and>
     (\<forall>r \<in> set (rrs_Records (snd kv)). record_rrset r = rrset_id (snd kv) \<and> fst kv = rrsetKey r)"

lemma rrsetKey_inject:
  assumes "plain_record r" and "plain_record r'"
  shows "rrsetKey r = rrsetKey r' \<longleftrightarrow> record_rrset r = record_rrset r'"
proof -
  have "CHR ''|'' \<notin> set (dec n)" for n
    by (rule digits_no_char [OF dec_digits]) (simp add: isDigit_def)
  then show ?thesis
    using assms by (auto simp: rrsetKey_def record_rrset_def plain_record_def append_sep_eq_iff word_unat_eq_iff)
qed

lemma rrset_ok_addToRRSet:
  assumes "\<forall>kv \<in> set kvs. rrset_ok kv" and "plain_record r"
    and "\<forall>kv \<in> set kvs. \<forall>x \<in> set (rrs_Records (snd kv)). plain_record x"
  shows "\<forall>kv \<in> set (addToRRSet r kvs). rrset_ok kv"
  using assms
proof (induction r kvs rule: addToRRSet.induct)
  case (1 r)
  then show ?case by (simp add: rrset_ok_def record_rrset_def rrset_id_def)
next
  case (2 r key rrset rest)
  show ?case
  proof (cases "key = rrsetKey r")
    case True
    from "2.prems" obtain x where x: "x \<in> set (rrs_Records rrset)" "record_rrset x = rrset_id rrset"
      "rrsetKey x = key" "plain_record x"
      by (cases "rrs_Records rrset") (auto simp: rrset_ok_def)
    then have "record_rrset r = rrset_id rrset" using True rrsetKey_inject [of r x] "2.prems"(2) by simp
    with True "2.prems" show ?thesis by (auto simp: rrset_ok_def rrset_id_def)
  next
    case False
    with 2 show ?thesis by auto
  qed
qed

lemma keys_addToRRSet: "map fst (addToRRSet r kvs) =
    (if rrsetKey r \<in> set (map fst kvs) then map fst kvs else map fst kvs @ [rrsetKey r])"
  by (induction r kvs rule: addToRRSet.induct) auto

lemma records_addToRRSet:
  "(\<Union>kv \<in> set (addToRRSet r kvs). set (rrs_Records (snd kv))) =
     insert r (\<Union>kv \<in> set kvs. set (rrs_Records (snd kv)))"
  by (induction r kvs rule: addToRRSet.induct) auto

definition rrsets_inv :: "(string \<times> RRSet) list \<Rightarrow> bool" where
  "rrsets_inv kvs \<longleftrightarrow> distinct (map fst kvs) \<and> (\<forall>kv \<in> set kvs. rrset_ok kv) \<and>
     (\<forall>r \<in> (\<Union>kv \<in> set kvs. set (rrs_Records (snd kv))). plain_record r)"

lemma rrsets_inv_fold:
  "rrsets_inv kvs \<Longrightarrow> \<forall>r \<in> set rs. plain_record r \<Longrightarrow> rrsets_inv (fold addToRRSet rs kvs)"
proof (induction rs arbitrary: kvs)
  case (Cons r rs)
  have "rrsets_inv (addToRRSet r kvs)"
    using Cons.prems rrset_ok_addToRRSet [of kvs r]
    by (auto simp: rrsets_inv_def keys_addToRRSet records_addToRRSet)
  with Cons show ?case by simp
qed simp

text \<open>
  The RRsets of a list of plain records: each is not empty, holds records of its own zone,
  name, type and class in the order of their data, and no two have the same identity.
\<close>

lemma inj_on_rrset_id:
  assumes "rrsets_inv kvs"
  shows "inj_on (rrset_id \<circ> snd) (set kvs)"
proof (rule inj_onI)
  fix kv kv' assume kvs: "kv \<in> set kvs" "kv' \<in> set kvs"
    and ids: "(rrset_id \<circ> snd) kv = (rrset_id \<circ> snd) kv'"
  have ne: "rrs_Records (snd kv) \<noteq> []" "rrs_Records (snd kv') \<noteq> []"
    using assms kvs by (auto simp: rrsets_inv_def rrset_ok_def)
  obtain r r' where r: "r \<in> set (rrs_Records (snd kv))" "r' \<in> set (rrs_Records (snd kv'))"
    using ne [THEN last_in_set] by blast
  then have "record_rrset r = record_rrset r'" "fst kv = rrsetKey r" "fst kv' = rrsetKey r'"
    using assms kvs ids by (auto simp: rrsets_inv_def rrset_ok_def)
  moreover have "plain_record r" "plain_record r'" using assms kvs r by (auto simp: rrsets_inv_def)
  ultimately have "fst kv = fst kv'" by (simp add: rrsetKey_inject)
  then show "kv = kv'" using assms kvs by (auto simp: rrsets_inv_def distinct_map inj_on_def)
qed

lemma rrsets_inv_build: "\<forall>r \<in> set rs. plain_record r \<Longrightarrow> rrsets_inv (fold addToRRSet rs [])"
  by (rule rrsets_inv_fold) (auto simp: rrsets_inv_def)

lemma set_buildRRSets: "set (buildRRSets rs) = snapshotRRSet ` snd ` set (fold addToRRSet rs [])"
  by (simp add: buildRRSets_eq image_image)

lemma buildRRSets_records:
  assumes "\<forall>r \<in> set rs. plain_record r" and "s \<in> set (buildRRSets rs)"
  shows "rrs_Records s \<noteq> []" and "sorted (map rec_Data (rrs_Records s))"
    and "r \<in> set (rrs_Records s) \<Longrightarrow> record_rrset r = rrset_id s"
proof -
  from assms(2) obtain kv where kv: "kv \<in> set (fold addToRRSet rs [])" "s = snapshotRRSet (snd kv)"
    unfolding set_buildRRSets by blast
  then have ok: "rrset_ok kv" using rrsets_inv_build [OF assms(1)] by (auto simp: rrsets_inv_def)
  have "mset (rrs_Records s) = mset (rrs_Records (snd kv))" by (simp add: kv(2) by_data.mset_SortFunc)
  then show "rrs_Records s \<noteq> []" using ok by (auto simp: rrset_ok_def)
  show "sorted (map rec_Data (rrs_Records s))" by (simp add: kv(2) by_data.sorted_SortFunc)
  show "r \<in> set (rrs_Records s) \<Longrightarrow> record_rrset r = rrset_id s"
    using ok by (simp add: kv(2) rrset_ok_def)
qed

lemma sorted_buildRRSets: "sorted (map rrset_id (buildRRSets rs))"
  by (simp add: buildRRSets_eq by_rrset.sorted_SortFunc)

lemma distinct_buildRRSets:
  assumes "\<forall>r \<in> set rs. plain_record r"
  shows "distinct (map rrset_id (buildRRSets rs))"
proof -
  let ?kvs = "fold addToRRSet rs []"
  have perm: "mset (map rrset_id (SortFunc compareRRSets xs)) = mset (map rrset_id xs)" for xs
    by (simp only: mset_map by_rrset.mset_SortFunc)
  have "distinct (map (rrset_id \<circ> snd) ?kvs)"
    using inj_on_rrset_id [OF rrsets_inv_build [OF assms]] rrsets_inv_build [OF assms]
    by (auto simp: rrsets_inv_def distinct_map)
  then have "distinct (map rrset_id (map snapshotRRSet (map snd ?kvs)))" by (simp add: comp_def)
  then show ?thesis
    unfolding buildRRSets_eq using mset_eq_imp_distinct_iff [OF perm] by blast
qed

section \<open>Properties\<close>

text \<open>
  The RRsets of a zone snapshot partition its records: together they hold every record of the
  snapshot exactly as often as the snapshot does; each is not empty and holds records of its
  own zone, name, type and class only, in the order of their data; no two RRsets have the same
  identity, and they are listed in the order of zone, name, type and class.
\<close>

theorem buildZoneSnapshot_partition:
  assumes "\<forall>r \<in> set records. plain_record r"
  shows "let snapshot = buildZoneSnapshot zone records; rrsets = snap_RRSets snapshot in
    mset (snap_Records snapshot) = mset records \<and>
    mset (concat (map rrs_Records rrsets)) = mset records \<and>
    distinct (map rrset_id rrsets) \<and> sorted (map rrset_id rrsets) \<and>
    (\<forall>s \<in> set rrsets. rrs_Records s \<noteq> [] \<and> sorted (map rec_Data (rrs_Records s)) \<and>
       (\<forall>r \<in> set (rrs_Records s). record_rrset r = rrset_id s))"
proof -
  have "\<forall>r \<in> set (SortFunc CompareRecords records). plain_record r" using assms by simp
  note wf = buildRRSets_records [OF this] distinct_buildRRSets [OF this]
  show ?thesis
    unfolding Let_def buildZoneSnapshot_def ZoneSnapshot.simps mset_buildRRSets
    using wf sorted_buildRRSets by_record.mset_SortFunc by simp
qed

theorem buildZoneSnapshot_partition_witness:
  "\<exists>s \<in> set (snap_RRSets (buildZoneSnapshot ''example.org.''
       [sample_record\<lparr>rec_Data := ''192.0.2.9''\<rparr>, sample_record\<lparr>rec_Type := TypeTXT\<rparr>, sample_record])).
     rrs_Records s = [sample_record, sample_record\<lparr>rec_Data := ''192.0.2.9''\<rparr>] \<and>
     record_rrset sample_record = rrset_id s"
proof -
  let ?rs = "[sample_record\<lparr>rec_Data := ''192.0.2.9''\<rparr>, sample_record\<lparr>rec_Type := TypeTXT\<rparr>, sample_record]"
  have p: "\<forall>r \<in> set ?rs. plain_record r" by code_simp
  have "\<exists>s \<in> set (snap_RRSets (buildZoneSnapshot ''example.org.'' ?rs)).
      rrs_Records s = [sample_record, sample_record\<lparr>rec_Data := ''192.0.2.9''\<rparr>]" by code_simp
  then obtain s where s: "s \<in> set (snap_RRSets (buildZoneSnapshot ''example.org.'' ?rs))"
    "rrs_Records s = [sample_record, sample_record\<lparr>rec_Data := ''192.0.2.9''\<rparr>]" by blast
  with buildZoneSnapshot_partition [OF p, of "''example.org.''"] have "record_rrset sample_record = rrset_id s"
    by (simp add: Let_def)
  with s show ?thesis by blast
qed

end
