(* ===== verification/Memory_Store.thy ===== *)
theory Memory_Store
  imports Repository "HOL-Library.AList"
begin

text \<open>
  The in-memory back end, \<^verbatim>\<open>dnsserver/store_memory.go\<close>: its state, its operations in the order of
  the file, its invariant, and the proof that it meets the contract of \<open>repository\<close>.
\<close>

section \<open>Concurrent collections: github.com/arcgolabs/collectionx/mapping\<close>

text \<open>
  \<open>zmap_*\<close> are the operations of \<^verbatim>\<open>ShardedConcurrentMap[string, Zone]\<close>, \<open>tab_*\<close> those of
  \<^verbatim>\<open>ConcurrentTable[string, string, Record]\<close>, a table of rows and columns. The Go map that \<^verbatim>\<open>Row\<close> returns
  and the cells \<^verbatim>\<open>Range\<close> visits are lists in the order of one iteration, which is not specified.
  \<open>zmap_Get\<close> and \<open>tab_Get\<close> are used to state what the others do.
\<close>

record ('z, 't) mapping_pkg =
  zmap_new :: 'z
  zmap_Get :: "'z \<Rightarrow> string \<Rightarrow> Zone option"
  zmap_Set :: "string \<Rightarrow> Zone \<Rightarrow> 'z \<Rightarrow> 'z"
  zmap_Delete :: "string \<Rightarrow> 'z \<Rightarrow> 'z"
  zmap_Values :: "'z \<Rightarrow> Zone list"
  tab_new :: 't
  tab_Get :: "'t \<Rightarrow> string \<Rightarrow> string \<Rightarrow> Record option"
  tab_Put :: "string \<Rightarrow> string \<Rightarrow> Record \<Rightarrow> 't \<Rightarrow> 't"
  tab_Delete :: "string \<Rightarrow> string \<Rightarrow> 't \<Rightarrow> 't"
  tab_DeleteRow :: "string \<Rightarrow> 't \<Rightarrow> 't"
  tab_Row :: "'t \<Rightarrow> string \<Rightarrow> (string \<times> Record) list"
  tab_RowKeys :: "'t \<Rightarrow> string list"
  tab_Range :: "'t \<Rightarrow> (string \<times> string \<times> Record) list"

definition zmap_ok :: "('z, 't) mapping_pkg \<Rightarrow> bool" where
  "zmap_ok M \<longleftrightarrow>
     zmap_Get M (zmap_new M) = Map.empty \<and>
     (\<forall>m k v. zmap_Get M (zmap_Set M k v m) = (zmap_Get M m)(k \<mapsto> v)) \<and>
     (\<forall>m k. zmap_Get M (zmap_Delete M k m) = (zmap_Get M m)(k := None)) \<and>
     (\<forall>m. \<exists>ks. distinct ks \<and> set ks = dom (zmap_Get M m) \<and>
        zmap_Values M m = map (\<lambda>k. the (zmap_Get M m k)) ks)"

definition tab_ok :: "('z, 't) mapping_pkg \<Rightarrow> bool" where
  "tab_ok M \<longleftrightarrow>
     tab_Get M (tab_new M) = (\<lambda>r. Map.empty) \<and>
     (\<forall>t r c v. tab_Get M (tab_Put M r c v t) = (tab_Get M t)(r := (tab_Get M t r)(c \<mapsto> v))) \<and>
     (\<forall>t r c. tab_Get M (tab_Delete M r c t) = (tab_Get M t)(r := (tab_Get M t r)(c := None))) \<and>
     (\<forall>t r. tab_Get M (tab_DeleteRow M r t) = (tab_Get M t)(r := Map.empty)) \<and>
     (\<forall>t r. distinct (map fst (tab_Row M t r)) \<and> map_of (tab_Row M t r) = tab_Get M t r) \<and>
     (\<forall>t. distinct (tab_RowKeys M t) \<and> {r. tab_Get M t r \<noteq> Map.empty} \<subseteq> set (tab_RowKeys M t)) \<and>
     (\<forall>t. distinct (tab_Range M t) \<and> set (tab_Range M t) = {(r, c, v). tab_Get M t r c = Some v})"

text \<open>The reference instance: association lists, newest entry first.\<close>

definition mapping_ref ::
  "((string \<times> Zone) list, ((string \<times> string) \<times> Record) list) mapping_pkg" where
  "mapping_ref =
     \<lparr>zmap_new = [], zmap_Get = map_of,
      zmap_Set = AList.update, zmap_Delete = AList.delete,
      zmap_Values = (\<lambda>m. map snd (AList.clearjunk m)),
      tab_new = [], tab_Get = (\<lambda>t r c. map_of t (r, c)),
      tab_Put = (\<lambda>r c v. AList.update (r, c) v), tab_Delete = (\<lambda>r c. AList.delete (r, c)),
      tab_DeleteRow = (\<lambda>r. filter (\<lambda>e. fst (fst e) \<noteq> r)),
      tab_Row = (\<lambda>t r. map (\<lambda>e. (snd (fst e), snd e)) (filter (\<lambda>e. fst (fst e) = r) (AList.clearjunk t))),
      tab_RowKeys = (\<lambda>t. remdups (map (\<lambda>e. fst (fst e)) t)),
      tab_Range = (\<lambda>t. map (\<lambda>e. (fst (fst e), snd (fst e), snd e)) (AList.clearjunk t))\<rparr>"

lemma map_of_filter_row: "map_of (filter (\<lambda>e. fst (fst e) \<noteq> r) t) (r', c) = (if r' = r then None else map_of t (r', c))"
  by (induction t) auto

lemma map_of_row:
  "map_of (map (\<lambda>e. (snd (fst e), snd e)) (filter (\<lambda>e. fst (fst e) = r) t)) c = map_of t (r, c)"
  by (induction t) auto

lemma distinct_row:
  "distinct (map fst t) \<Longrightarrow>
     distinct (map fst (map (\<lambda>e. (snd (fst e), snd e)) (filter (\<lambda>e. fst (fst e) = r) t)))"
  by (induction t) (auto simp: image_iff prod_eq_iff)

lemma zmap_ref_ok: "zmap_ok mapping_ref"
proof -
  have "\<exists>ks. distinct ks \<and> set ks = dom (map_of m) \<and>
      map snd (AList.clearjunk m) = map (\<lambda>k. the (map_of m k)) ks" for m :: "(string \<times> Zone) list"
  proof (intro exI conjI)
    show "distinct (map fst (AList.clearjunk m))" by simp
    show "set (map fst (AList.clearjunk m)) = dom (map_of m)"
      by (metis dom_map_of_conv_image_fst map_of_clearjunk set_map)
    have "the (map_of m (fst e)) = snd e" if "e \<in> set (AList.clearjunk m)" for e
      using that by (metis distinct_clearjunk map_of_clearjunk map_of_is_SomeI option.sel prod.collapse)
    then show "map snd (AList.clearjunk m) = map (\<lambda>k. the (map_of m k)) (map fst (AList.clearjunk m))" by simp
  qed
  then show ?thesis by (simp add: zmap_ok_def mapping_ref_def update_conv' delete_conv')
qed

lemma tab_ref_ok: "tab_ok mapping_ref"
proof -
  have range: "distinct (map (\<lambda>e. (fst (fst e), snd (fst e), snd e)) (AList.clearjunk t))"
    "set (map (\<lambda>e. (fst (fst e), snd (fst e), snd e)) (AList.clearjunk t)) = {(r, c, v). map_of t (r, c) = Some v}"
    for t :: "((string \<times> string) \<times> Record) list"
  proof -
    have "distinct (AList.clearjunk t)" by (metis distinct_clearjunk distinct_map)
    then show "distinct (map (\<lambda>e. (fst (fst e), snd (fst e), snd e)) (AList.clearjunk t))"
      by (auto simp: distinct_map inj_on_def prod_eq_iff)
    have "map_of t (r, c) = Some v \<longleftrightarrow> ((r, c), v) \<in> set (AList.clearjunk t)" for r c v
      by (metis distinct_clearjunk map_of_clearjunk map_of_eq_Some_iff)
    then show "set (map (\<lambda>e. (fst (fst e), snd (fst e), snd e)) (AList.clearjunk t)) = {(r, c, v). map_of t (r, c) = Some v}"
      by force
  qed
  have rows: "{r. (\<lambda>c. map_of t (r, c)) \<noteq> Map.empty} \<subseteq> (\<lambda>e. fst (fst e)) ` set t"
    for t :: "((string \<times> string) \<times> Record) list"
    by (auto simp: fun_eq_iff dest!: map_of_SomeD) force
  have row: "distinct (map fst (map (\<lambda>e. (snd (fst e), snd e)) (filter (\<lambda>e. fst (fst e) = r) (AList.clearjunk t))))"
    for t :: "((string \<times> string) \<times> Record) list" and r
    by (rule distinct_row) simp
  show ?thesis
    using range rows row
    by (simp add: tab_ok_def mapping_ref_def update_conv' delete_conv' map_of_filter_row map_of_row
        map_of_clearjunk fun_eq_iff)
qed

section \<open>State and operations\<close>

record ('z, 't) MemoryStore =
  ms_zones :: 'z
  ms_records :: 't
  ms_revision :: uint64

definition NewMemoryStore :: "('z, 't) mapping_pkg \<Rightarrow> ('z, 't) MemoryStore" where
  "NewMemoryStore M = \<lparr>ms_zones = zmap_new M, ms_records = tab_new M, ms_revision = 0\<rparr>"

definition recordNameRowKey :: "string \<Rightarrow> string \<Rightarrow> string" where
  "recordNameRowKey zone name = RecordPrefix zone name TypeANY"

definition ms_Revision :: "('z, 't) MemoryStore option \<Rightarrow> uint64" where
  "ms_Revision s = (case s of None \<Rightarrow> 0 | Some st \<Rightarrow> ms_revision st)"

definition ms_SaveZone ::
  "'x names_pkg_scheme \<Rightarrow> ('z, 't) mapping_pkg \<Rightarrow> Zone \<Rightarrow> (error, unit, ('z, 't) MemoryStore) action" where
  "ms_SaveZone E M zone s =
     (case NormalizeZoneName E (zone_Name zone) of
        Inl err \<Rightarrow> (Inl err, s)
      | Inr normalized \<Rightarrow>
         (Inr (), s\<lparr>ms_zones := zmap_Set M normalized \<lparr>zone_Name = normalized\<rparr> (ms_zones s),
                    ms_revision := ms_revision s + 1\<rparr>))"

definition deleteRecordRowsByZone :: "('z, 't) mapping_pkg \<Rightarrow> string \<Rightarrow> 't \<Rightarrow> 't" where
  "deleteRecordRowsByZone M zone t =
     fold (\<lambda>rowKey t. if prefix (zone @ ''|'') rowKey then tab_DeleteRow M rowKey t else t)
       (tab_RowKeys M t) t"

definition ms_DeleteZone ::
  "'x names_pkg_scheme \<Rightarrow> ('z, 't) mapping_pkg \<Rightarrow> string \<Rightarrow> (error, unit, ('z, 't) MemoryStore) action" where
  "ms_DeleteZone E M zone s =
     (case NormalizeZoneName E zone of
        Inl err \<Rightarrow> (Inl err, s)
      | Inr normalized \<Rightarrow>
         (Inr (), s\<lparr>ms_zones := zmap_Delete M normalized (ms_zones s),
                    ms_records := deleteRecordRowsByZone M normalized (ms_records s),
                    ms_revision := ms_revision s + 1\<rparr>))"

definition ms_ListZones ::
  "('z, 't) mapping_pkg \<Rightarrow> ('z, 't) MemoryStore \<Rightarrow> error + Zone list" where
  "ms_ListZones M s =
     Inr (SortFunc (\<lambda>left right. three_way (zone_Name left) (zone_Name right))
            (zmap_Values M (ms_zones s)))"

definition ms_SaveRecord ::
  "'x names_pkg_scheme \<Rightarrow> ('z, 't) mapping_pkg \<Rightarrow> Record \<Rightarrow> (error, unit, ('z, 't) MemoryStore) action" where
  "ms_SaveRecord E M record s =
     (case NormalizeRecord E record of
        Inl err \<Rightarrow> (Inl err, s)
      | Inr normalized \<Rightarrow>
         (Inr (), s\<lparr>ms_zones := zmap_Set M (rec_Zone normalized) \<lparr>zone_Name = rec_Zone normalized\<rparr> (ms_zones s),
                    ms_records := tab_Put M (recordNameRowKey (rec_Zone normalized) (rec_Name normalized))
                                    (Key E normalized) normalized (ms_records s),
                    ms_revision := ms_revision s + 1\<rparr>))"

definition ms_DeleteRecord ::
  "'x names_pkg_scheme \<Rightarrow> ('z, 't) mapping_pkg \<Rightarrow> Record \<Rightarrow> (error, unit, ('z, 't) MemoryStore) action" where
  "ms_DeleteRecord E M record s =
     (case NormalizeRecord E record of
        Inl err \<Rightarrow> (Inl err, s)
      | Inr normalized \<Rightarrow>
         (Inr (), s\<lparr>ms_records := tab_Delete M (recordNameRowKey (rec_Zone normalized) (rec_Name normalized))
                                    (Key E normalized) (ms_records s),
                    ms_revision := ms_revision s + 1\<rparr>))"

definition recordCandidates ::
  "('z, 't) mapping_pkg \<Rightarrow> RecordFilter \<Rightarrow> ('z, 't) MemoryStore \<Rightarrow> Record list" where
  "recordCandidates M filt s =
     (if flt_Zone filt \<noteq> [] \<and> flt_Name filt \<noteq> []
      then map snd (tab_Row M (ms_records s) (recordNameRowKey (flt_Zone filt) (flt_Name filt)))
      else if flt_Zone filt \<noteq> []
      then concat (map (\<lambda>rowKey. map snd (tab_Row M (ms_records s) rowKey))
             (filter (\<lambda>rowKey. prefix (flt_Zone filt @ ''|'') rowKey) (tab_RowKeys M (ms_records s))))
      else map (\<lambda>(_, _, record). record) (tab_Range M (ms_records s)))"

definition ms_ListRecords ::
  "'x names_pkg_scheme \<Rightarrow> ('z, 't) mapping_pkg \<Rightarrow> RecordFilter \<Rightarrow> ('z, 't) MemoryStore \<Rightarrow> error + Record list" where
  "ms_ListRecords E M filt s =
     (case NormalizeRecordFilter E filt of
        Inl err \<Rightarrow> Inl err
      | Inr normalizedFilter \<Rightarrow>
         Inr (SortFunc CompareRecords
               (filter (\<lambda>record. RecordMatchesFilter record normalizedFilter)
                  (recordCandidates M normalizedFilter s))))"

definition lookupRecords ::
  "('z, 't) mapping_pkg \<Rightarrow> string \<Rightarrow> string \<Rightarrow> uint16 \<Rightarrow> uint16 \<Rightarrow> ('z, 't) MemoryStore \<Rightarrow> Record list" where
  "lookupRecords M zone name qtype qclass s =
     SortFunc CompareRecordsByData
       (filter (\<lambda>record. (qtype = TypeANY \<or> rec_Type record = qtype) \<and>
                         (qclass = ClassANY \<or> rec_Class record = qclass))
          (map snd (tab_Row M (ms_records s) (recordNameRowKey zone name))))"

definition ms_Lookup ::
  "'x names_pkg_scheme \<Rightarrow> ('z, 't) mapping_pkg \<Rightarrow> string \<Rightarrow> string \<Rightarrow> uint16 \<Rightarrow> uint16 \<Rightarrow>
     ('z, 't) MemoryStore \<Rightarrow> error + Record list" where
  "ms_Lookup E M zone name qtype qclass s =
     (case NormalizeLookup E zone name of
        Inl err \<Rightarrow> Inl err
      | Inr (normalizedZone, normalizedName) \<Rightarrow>
         Inr (lookupRecords M normalizedZone normalizedName qtype qclass s))"

definition ms_LookupAll ::
  "'x names_pkg_scheme \<Rightarrow> ('z, 't) mapping_pkg \<Rightarrow> string \<Rightarrow> string \<Rightarrow> uint16 \<Rightarrow>
     ('z, 't) MemoryStore \<Rightarrow> error + Record list" where
  "ms_LookupAll E M zone name qclass s =
     (case NormalizeLookup E zone name of
        Inl err \<Rightarrow> Inl err
      | Inr (normalizedZone, normalizedName) \<Rightarrow>
         Inr (lookupRecords M normalizedZone normalizedName TypeANY qclass s))"

text \<open>The store as a value of the Go interface: \<^verbatim>\<open>var _ Repository = (*MemoryStore)(nil)\<close>.\<close>

definition memory_repo ::
  "'x names_pkg_scheme \<Rightarrow> ('z, 't) mapping_pkg \<Rightarrow> ('z, 't) MemoryStore Repository" where
  "memory_repo E M =
     \<lparr>repo_SaveZone = ms_SaveZone E M, repo_DeleteZone = ms_DeleteZone E M,
      repo_ListZones = ms_ListZones M,
      repo_SaveRecord = ms_SaveRecord E M, repo_DeleteRecord = ms_DeleteRecord E M,
      repo_ListRecords = ms_ListRecords E M, repo_Lookup = ms_Lookup E M,
      repo_LookupAll = ms_LookupAll E M, repo_Revision = Some (\<lambda>s. ms_Revision (Some s))\<rparr>"

section \<open>Invariant and content\<close>

definition mapping_pkg_ok :: "('z, 't) mapping_pkg \<Rightarrow> bool" where
  "mapping_pkg_ok M \<longleftrightarrow> zmap_ok M \<and> tab_ok M"

lemma mapping_ref_ok [simp]: "mapping_pkg_ok mapping_ref"
  by (simp add: mapping_pkg_ok_def zmap_ref_ok tab_ref_ok)

lemma mapping_Get_simps:
  assumes "mapping_pkg_ok M"
  shows "zmap_Get M (zmap_new M) = Map.empty"
    and "zmap_Get M (zmap_Set M k z m) = (zmap_Get M m)(k \<mapsto> z)"
    and "zmap_Get M (zmap_Delete M k m) = (zmap_Get M m)(k := None)"
    and "tab_Get M (tab_new M) = (\<lambda>r. Map.empty)"
    and "tab_Get M (tab_Put M r c v t) = (tab_Get M t)(r := (tab_Get M t r)(c \<mapsto> v))"
    and "tab_Get M (tab_Delete M r c t) = (tab_Get M t)(r := (tab_Get M t r)(c := None))"
    and "tab_Get M (tab_DeleteRow M r t) = (tab_Get M t)(r := Map.empty)"
  using assms unfolding mapping_pkg_ok_def zmap_ok_def tab_ok_def by metis+

lemma zmap_Values_ex:
  assumes "mapping_pkg_ok M"
  obtains ks where "distinct ks" and "set ks = dom (zmap_Get M m)"
    and "zmap_Values M m = map (\<lambda>k. the (zmap_Get M m k)) ks"
  using assms unfolding mapping_pkg_ok_def zmap_ok_def by metis

lemma tab_Row_laws:
  assumes "mapping_pkg_ok M"
  shows "distinct (map fst (tab_Row M t r))" and "map_of (tab_Row M t r) = tab_Get M t r"
    and "set (tab_Row M t r) = {(c, v). tab_Get M t r c = Some v}"
proof -
  show d: "distinct (map fst (tab_Row M t r))" and m: "map_of (tab_Row M t r) = tab_Get M t r"
    using assms unfolding mapping_pkg_ok_def tab_ok_def by blast+
  show "set (tab_Row M t r) = {(c, v). tab_Get M t r c = Some v}"
    using d by (auto simp: m [symmetric])
qed

lemma tab_RowKeys_laws:
  assumes "mapping_pkg_ok M"
  shows "distinct (tab_RowKeys M t)" and "tab_Get M t r c = Some v \<Longrightarrow> r \<in> set (tab_RowKeys M t)"
proof -
  have *: "distinct (tab_RowKeys M t) \<and> {r. tab_Get M t r \<noteq> Map.empty} \<subseteq> set (tab_RowKeys M t)"
    using assms unfolding mapping_pkg_ok_def tab_ok_def by blast
  then show "distinct (tab_RowKeys M t)" by blast
  show "r \<in> set (tab_RowKeys M t)" if "tab_Get M t r c = Some v"
  proof -
    from that have "tab_Get M t r \<noteq> Map.empty" by auto
    with * show ?thesis by blast
  qed
qed

lemma tab_Range_laws:
  assumes "mapping_pkg_ok M"
  shows "distinct (tab_Range M t)" and "set (tab_Range M t) = {(r, c, v). tab_Get M t r c = Some v}"
  using assms unfolding mapping_pkg_ok_def tab_ok_def by blast+

text \<open>
  Every zone is stored under its own normalised name; every record is normalised, stored in
  the row of its zone and name and the column of its key, and its zone is stored too.
\<close>

definition mem_inv :: "'x names_pkg_scheme \<Rightarrow> ('z, 't) mapping_pkg \<Rightarrow> ('z, 't) MemoryStore \<Rightarrow> bool" where
  "mem_inv E M s \<longleftrightarrow> names_pkg_ok E \<and> mapping_pkg_ok M \<and>
     (\<forall>k z. zmap_Get M (ms_zones s) k = Some z \<longrightarrow> zone_Name z = k \<and> normal_zone E k) \<and>
     (\<forall>rk k r. tab_Get M (ms_records s) rk k = Some r \<longrightarrow>
        rk = row_key (rec_Zone r) (rec_Name r) \<and> k = Key E r \<and> normal_record E r \<and>
        rec_Zone r \<in> dom (zmap_Get M (ms_zones s)))"

definition mem_content :: "('z, 't) mapping_pkg \<Rightarrow> ('z, 't) MemoryStore \<Rightarrow> abs_store" where
  "mem_content M s =
     \<lparr>abs_zones = dom (zmap_Get M (ms_zones s)),
      abs_records = {r. \<exists>rk k. tab_Get M (ms_records s) rk k = Some r}\<rparr>"

lemma mem_invD:
  assumes "mem_inv E M s"
  shows "names_pkg_ok E" and "mapping_pkg_ok M"
    and "zmap_Get M (ms_zones s) k = Some z \<Longrightarrow> zone_Name z = k \<and> normal_zone E k"
    and "tab_Get M (ms_records s) rk c = Some r \<Longrightarrow>
        rk = row_key (rec_Zone r) (rec_Name r) \<and> c = Key E r \<and> normal_record E r \<and>
        rec_Zone r \<in> dom (zmap_Get M (ms_zones s))"
  using assms by (simp_all add: mem_inv_def)

lemma mem_records_iff:
  assumes "mem_inv E M s"
  shows "r \<in> abs_records (mem_content M s) \<longleftrightarrow>
    tab_Get M (ms_records s) (row_key (rec_Zone r) (rec_Name r)) (Key E r) = Some r"
  using mem_invD(4) [OF assms] by (fastforce simp: mem_content_def)

lemma mem_column: "mem_inv E M s \<Longrightarrow> tab_Get M (ms_records s) rk c = Some r \<Longrightarrow> c = Key E r"
  using mem_invD(4) by blast

lemma mem_row: "mem_inv E M s \<Longrightarrow> tab_Get M (ms_records s) rk c = Some r \<Longrightarrow>
    rk = row_key (rec_Zone r) (rec_Name r)"
  using mem_invD(4) by blast

lemma mem_inv_New: "names_pkg_ok E \<Longrightarrow> mapping_pkg_ok M \<Longrightarrow> mem_inv E M (NewMemoryStore M)"
  by (simp add: mem_inv_def NewMemoryStore_def mapping_Get_simps)

lemma mem_content_New: "mapping_pkg_ok M \<Longrightarrow> mem_content M (NewMemoryStore M) = \<lparr>abs_zones = {}, abs_records = {}\<rparr>"
  by (simp add: mem_content_def NewMemoryStore_def mapping_Get_simps)

lemma mem_abs_wf:
  assumes "mem_inv E M s"
  shows "abs_wf E (mem_content M s)"
proof -
  note M = mem_invD(2) [OF assms]
  have "finite (dom (zmap_Get M (ms_zones s)))"
    using zmap_Values_ex [OF M, of "ms_zones s"] by (metis finite_set)
  moreover have "abs_records (mem_content M s) = (\<lambda>(_, _, v). v) ` set (tab_Range M (ms_records s))"
    by (force simp: mem_content_def tab_Range_laws [OF M])
  then have "finite (abs_records (mem_content M s))" by simp
  moreover have "inj_on (Key E) (abs_records (mem_content M s))"
  proof (rule inj_onI)
    fix r r'
    assume in_s: "r \<in> abs_records (mem_content M s)" "r' \<in> abs_records (mem_content M s)"
      and eq: "Key E r = Key E r'"
    have "normal_record E r" "normal_record E r'"
      using in_s mem_invD(4) [OF assms] by (auto simp: mem_content_def)
    then have "row_key (rec_Zone r) (rec_Name r) = row_key (rec_Zone r') (rec_Name r')"
      using eq Key_eq_iff [of r r' E] by (simp add: normal_record_def)
    with in_s eq show "r = r'" by (simp add: mem_records_iff [OF assms])
  qed
  ultimately show ?thesis
    using mem_invD(3,4) [OF assms] by (fastforce simp: abs_wf_def mem_content_def)
qed

section \<open>Simulation\<close>

lemma mem_SaveZone_refines:
  assumes "plain (zone_Name z)"
  shows "refines (mem_inv E M) (mem_content M) (ms_SaveZone E M z) (spec_SaveZone E z)"
proof (rule refinesI)
  fix s assume inv: "mem_inv E M s"
  note M = mapping_Get_simps [OF mem_invD(2) [OF inv]]
  show "mem_inv E M (snd (ms_SaveZone E M z s))"
    using inv normal_zone_NormalizeZoneName [OF mem_invD(1) [OF inv] assms]
    by (auto simp: ms_SaveZone_def mem_inv_def M split: sum.split)
  show "spec_SaveZone E z (mem_content M s) =
      (fst (ms_SaveZone E M z s), mem_content M (snd (ms_SaveZone E M z s)))"
    by (simp add: ms_SaveZone_def spec_SaveZone_def mem_content_def M split: sum.split)
qed

lemma tab_Get_deleteRecordRowsByZone:
  assumes "mapping_pkg_ok M"
  shows "tab_Get M (deleteRecordRowsByZone M z t) =
    (\<lambda>rk. if prefix (z @ ''|'') rk then Map.empty else tab_Get M t rk)"
proof -
  let ?f = "\<lambda>rk t. if prefix (z @ ''|'') rk then tab_DeleteRow M rk t else t"
  have *: "tab_Get M (fold ?f ks t') =
      (\<lambda>rk. if rk \<in> set ks \<and> prefix (z @ ''|'') rk then Map.empty else tab_Get M t' rk)" for ks t'
    by (induction ks arbitrary: t') (auto simp: mapping_Get_simps [OF assms] fun_eq_iff)
  have "tab_Get M t rk = Map.empty" if "rk \<notin> set (tab_RowKeys M t)" for rk
  proof
    show "tab_Get M t rk c = None" for c
      using that tab_RowKeys_laws(2) [OF assms, of t rk c] by (cases "tab_Get M t rk c") auto
  qed
  then show ?thesis by (auto simp: deleteRecordRowsByZone_def * fun_eq_iff)
qed

lemma mem_DeleteZone_refines:
  assumes "plain zn"
  shows "refines (mem_inv E M) (mem_content M) (ms_DeleteZone E M zn) (spec_DeleteZone E zn)"
proof (rule refinesI)
  fix s assume inv: "mem_inv E M s"
  note M = mapping_Get_simps [OF mem_invD(2) [OF inv]]
  note D = tab_Get_deleteRecordRowsByZone [OF mem_invD(2) [OF inv]]
  have pre: "prefix (n @ ''|'') rk \<longleftrightarrow> rec_Zone r = n"
    if "NormalizeZoneName E zn = Inr n" and "tab_Get M (ms_records s) rk c = Some r" for n rk c r
  proof -
    have "plain n" using that(1) normal_zone_NormalizeZoneName [OF mem_invD(1) [OF inv] assms]
      by (simp add: normal_zone_def)
    moreover have "plain (rec_Zone r)" "rk = row_key (rec_Zone r) (rec_Name r)"
      using mem_invD(4) [OF inv that(2)] normal_recordD(2) by auto
    ultimately show ?thesis by (auto simp: prefix_zone_row_key)
  qed
  show "mem_inv E M (snd (ms_DeleteZone E M zn s))"
    using inv pre by (auto simp: ms_DeleteZone_def mem_inv_def M D split: sum.split if_splits)
  show "spec_DeleteZone E zn (mem_content M s) =
      (fst (ms_DeleteZone E M zn s), mem_content M (snd (ms_DeleteZone E M zn s)))"
    using pre by (fastforce simp: ms_DeleteZone_def spec_DeleteZone_def mem_content_def M D split: sum.split if_splits)
qed

lemma recordNameRowKey_row_key: "recordNameRowKey z n = row_key z n"
  by (simp add: recordNameRowKey_def RecordPrefix_ANY)

text \<open>In a table that meets the invariant, the cell of a record is the cell of its key.\<close>

lemma mem_same_cell:
  assumes "mem_inv E M s" and "tab_Get M (ms_records s) rk k = Some v" and "normal_record E n"
  shows "rk = row_key (rec_Zone n) (rec_Name n) \<and> k = Key E n \<longleftrightarrow> Key E v = Key E n"
  using mem_invD(4) [OF assms(1,2)] assms(3) Key_eq_iff [of v n E] by (auto simp: normal_record_def)

lemma mem_put_content:
  assumes "mem_inv E M s" and "normal_record E n"
  shows "{v. \<exists>rk k. ((tab_Get M (ms_records s))(row_key (rec_Zone n) (rec_Name n) :=
        (tab_Get M (ms_records s) (row_key (rec_Zone n) (rec_Name n)))(Key E n := x))) rk k = Some v}
      = set_option x \<union> del_record E n (abs_records (mem_content M s))"
    (is "{v. \<exists>rk k. ?G rk k = Some v} = ?rhs")
proof -
  let ?cell = "\<lambda>rk k. rk = row_key (rec_Zone n) (rec_Name n) \<and> k = Key E n"
  have G: "?G rk k = (if ?cell rk k then x else tab_Get M (ms_records s) rk k)" for rk k
    by simp
  have stored: "tab_Get M (ms_records s) rk k = Some v \<Longrightarrow> v \<in> abs_records (mem_content M s)" for rk k v
    by (auto simp: mem_content_def)
  have "v \<in> ?rhs" if "?G rk k = Some v" for rk k v
  proof (cases "?cell rk k")
    case True
    with that show ?thesis by simp
  next
    case False
    with that have "tab_Get M (ms_records s) rk k = Some v" by (simp only: G if_False)
    with False show ?thesis
      using mem_same_cell [OF assms(1) _ assms(2), of rk k v] stored by (auto simp: del_record_def)
  qed
  moreover have "\<exists>rk k. ?G rk k = Some v" if "v \<in> ?rhs" for v
  proof (cases "x = Some v")
    case True
    then show ?thesis using G by (intro exI [of _ "row_key (rec_Zone n) (rec_Name n)"] exI [of _ "Key E n"]) simp
  next
    case False
    with that obtain rk k where "tab_Get M (ms_records s) rk k = Some v" "Key E v \<noteq> Key E n"
      by (auto simp: del_record_def mem_content_def)
    then have "?G rk k = Some v" using mem_same_cell [OF assms(1) _ assms(2), of rk k v] by (subst G) auto
    then show ?thesis by blast
  qed
  ultimately show ?thesis by (intro set_eqI) (simp only: mem_Collect_eq, blast)
qed

lemma mem_SaveRecord_refines:
  assumes "plain_record r"
  shows "refines (mem_inv E M) (mem_content M) (ms_SaveRecord E M r) (spec_SaveRecord E r)"
proof (rule refinesI)
  fix s assume inv: "mem_inv E M s"
  note M = mapping_Get_simps [OF mem_invD(2) [OF inv]]
  have nr: "normal_record E n" if "NormalizeRecord E r = Inr n" for n
    using normal_record_NormalizeRecord [OF mem_invD(1) [OF inv] assms that] .
  show "mem_inv E M (snd (ms_SaveRecord E M r s))"
    using inv nr normal_record_zone
    by (auto simp: ms_SaveRecord_def mem_inv_def M recordNameRowKey_row_key split: sum.split if_splits)
  show "spec_SaveRecord E r (mem_content M s) =
      (fst (ms_SaveRecord E M r s), mem_content M (snd (ms_SaveRecord E M r s)))"
  proof (cases "NormalizeRecord E r")
    case (Inr n)
    then show ?thesis
      using mem_put_content [OF inv nr [OF Inr], of "Some n"]
      by (simp add: ms_SaveRecord_def spec_SaveRecord_def mem_content_def M
          recordNameRowKey_row_key put_record_def del_record_def)
  qed (simp add: ms_SaveRecord_def spec_SaveRecord_def)
qed

lemma mem_DeleteRecord_refines:
  assumes "plain_record r"
  shows "refines (mem_inv E M) (mem_content M) (ms_DeleteRecord E M r) (spec_DeleteRecord E r)"
proof (rule refinesI)
  fix s assume inv: "mem_inv E M s"
  note M = mapping_Get_simps [OF mem_invD(2) [OF inv]]
  have nr: "normal_record E n" if "NormalizeRecord E r = Inr n" for n
    using normal_record_NormalizeRecord [OF mem_invD(1) [OF inv] assms that] .
  show "mem_inv E M (snd (ms_DeleteRecord E M r s))"
    using inv by (auto simp: ms_DeleteRecord_def mem_inv_def M split: sum.split if_splits)
  show "spec_DeleteRecord E r (mem_content M s) =
      (fst (ms_DeleteRecord E M r s), mem_content M (snd (ms_DeleteRecord E M r s)))"
  proof (cases "NormalizeRecord E r")
    case (Inr n)
    then show ?thesis
      using mem_put_content [OF inv nr [OF Inr], of None]
      by (simp add: ms_DeleteRecord_def spec_DeleteRecord_def mem_content_def M
          recordNameRowKey_row_key del_record_def)
  qed (simp add: ms_DeleteRecord_def spec_DeleteRecord_def)
qed

section \<open>Reads\<close>

lemma mem_Row_content:
  assumes "mem_inv E M s"
  shows "set (map snd (tab_Row M (ms_records s) (row_key z n))) =
      {r \<in> abs_records (mem_content M s). row_key (rec_Zone r) (rec_Name r) = row_key z n}"
    and "distinct (map snd (tab_Row M (ms_records s) rk))"
proof -
  note row = tab_Row_laws [OF mem_invD(2) [OF assms]]
  show "set (map snd (tab_Row M (ms_records s) (row_key z n))) =
      {r \<in> abs_records (mem_content M s). row_key (rec_Zone r) (rec_Name r) = row_key z n}"
    using mem_invD(4) [OF assms] by (fastforce simp: row(3) mem_content_def image_iff)
  have "inj_on snd (set (tab_Row M (ms_records s) rk))"
  proof (rule inj_onI)
    fix x y
    assume "x \<in> set (tab_Row M (ms_records s) rk)" "y \<in> set (tab_Row M (ms_records s) rk)" "snd x = snd y"
    then show "x = y"
      using mem_column [OF assms, of rk "fst x" "snd x"] mem_column [OF assms, of rk "fst y" "snd y"]
      by (simp add: row(3) case_prod_beta prod_eq_iff)
  qed
  then show "distinct (map snd (tab_Row M (ms_records s) rk))"
    using row(1) [of "ms_records s" rk] by (simp add: distinct_map)
qed

interpretation by_zone: keyed_order "\<lambda>left right. three_way (zone_Name left) (zone_Name right)" zone_Name
  by unfold_locales simp

lemma mem_ListZones:
  assumes "mem_inv E M s"
  shows "\<exists>zs. ms_ListZones M s = Inr zs \<and>
    map zone_Name zs = sorted_list_of_set (abs_zones (mem_content M s))"
proof -
  let ?vs = "zmap_Values M (ms_zones s)"
  obtain ks where ks: "distinct ks" "set ks = dom (zmap_Get M (ms_zones s))"
    "?vs = map (\<lambda>k. the (zmap_Get M (ms_zones s) k)) ks"
    using zmap_Values_ex [OF mem_invD(2) [OF assms]] by metis
  have names: "map zone_Name ?vs = ks"
    using mem_invD(3) [OF assms] ks(2) by (fastforce simp: ks(3) intro!: map_idI)
  let ?zs = "SortFunc (\<lambda>left right. three_way (zone_Name left) (zone_Name right)) ?vs"
  have "mset (map zone_Name ?zs) = mset ks"
    using names by (metis by_zone.mset_SortFunc mset_map)
  then have "map zone_Name ?zs = sorted_list_of_set (set ks)"
    using ks(1) by_zone.sorted_SortFunc [of ?vs]
    by (metis mset_eq_imp_distinct_iff mset_eq_setD sorted_list_of_set.idem_if_sorted_distinct)
  then show ?thesis by (simp add: ms_ListZones_def mem_content_def ks(2))
qed

lemma mem_lookupRecords:
  assumes "mem_inv E M s"
  shows "sorted (map rec_Data (lookupRecords M z n qt qc s))"
    and "enumerates (lookupRecords M z n qt qc s) (lookup_set z n qt qc (mem_content M s))"
proof -
  show "sorted (map rec_Data (lookupRecords M z n qt qc s))"
    by (simp add: lookupRecords_def by_data.sorted_SortFunc)
  have "row_key (rec_Zone r) (rec_Name r) = row_key z n \<longleftrightarrow> rec_Zone r = z \<and> rec_Name r = n"
    if "r \<in> abs_records (mem_content M s)" for r
    using that mem_invD(4) [OF assms] normal_recordD(2,3) row_key_inject [of "rec_Zone r" "rec_Name r" z n]
    by (fastforce simp: mem_content_def)
  then show "enumerates (lookupRecords M z n qt qc s) (lookup_set z n qt qc (mem_content M s))"
    using mem_Row_content [OF assms]
    by (fastforce simp: enumerates_def lookupRecords_def lookup_set_def recordNameRowKey_row_key
        by_data.distinct_SortFunc)
qed

lemma mem_concat_rows:
  assumes "mem_inv E M s" and "distinct rks"
  shows "distinct (concat (map (\<lambda>rk. map snd (tab_Row M (ms_records s) rk)) rks))"
proof -
  note row = tab_Row_laws [OF mem_invD(2) [OF assms(1)]]
  have disj: "set (map snd (tab_Row M (ms_records s) rk)) \<inter> set (map snd (tab_Row M (ms_records s) rk')) = {}"
    if "rk \<noteq> rk'" for rk rk'
  proof (rule ccontr)
    assume "\<not> ?thesis"
    then obtain r c c' where "tab_Get M (ms_records s) rk c = Some r" "tab_Get M (ms_records s) rk' c' = Some r"
      by (auto simp: row(3))
    then show False using that mem_row [OF assms(1), of rk] mem_row [OF assms(1), of rk'] by metis
  qed
  show ?thesis
    by (rule distinct_concat_map [OF assms(2) mem_Row_content(2) [OF assms(1)] disj])
qed

lemma mem_candidates:
  assumes "mem_inv E M s"
  shows "distinct (recordCandidates M f s)" and "set (recordCandidates M f s) \<subseteq> abs_records (mem_content M s)"
    and "{r \<in> abs_records (mem_content M s). RecordMatchesFilter r f} \<subseteq> set (recordCandidates M f s)"
proof -
  note M = mem_invD(2) [OF assms]
  note row = tab_Row_laws [OF M]
  have "inj_on (\<lambda>(_, _, record). record) (set (tab_Range M (ms_records s)))"
    by (auto simp: inj_on_def tab_Range_laws [OF M] dest: mem_row [OF assms] mem_column [OF assms])
  then show "distinct (recordCandidates M f s)"
    using tab_Range_laws(1) [OF M, of "ms_records s"] mem_Row_content(2) [OF assms]
      mem_concat_rows [OF assms] tab_RowKeys_laws(1) [OF M]
    by (simp add: recordCandidates_def distinct_map)
  show "set (recordCandidates M f s) \<subseteq> abs_records (mem_content M s)"
    by (auto simp: recordCandidates_def mem_content_def row(3) tab_Range_laws [OF M]; blast)
  show "{r \<in> abs_records (mem_content M s). RecordMatchesFilter r f} \<subseteq> set (recordCandidates M f s)"
  proof
    fix r assume r: "r \<in> {r \<in> abs_records (mem_content M s). RecordMatchesFilter r f}"
    let ?rk = "row_key (rec_Zone r) (rec_Name r)"
    from r have cell: "tab_Get M (ms_records s) ?rk (Key E r) = Some r" by (simp add: mem_records_iff [OF assms])
    have in_row: "r \<in> snd ` set (tab_Row M (ms_records s) ?rk)" using cell by (force simp: row(3))
    have "?rk \<in> set (tab_RowKeys M (ms_records s))" using tab_RowKeys_laws(2) [OF M cell] .
    moreover have "(?rk, Key E r, r) \<in> set (tab_Range M (ms_records s))" using cell by (simp add: tab_Range_laws [OF M])
    moreover have "prefix (rec_Zone r @ ''|'') ?rk" by (simp add: row_key_def)
    ultimately show "r \<in> set (recordCandidates M f s)"
      using r in_row by (force simp: recordCandidates_def RecordMatchesFilter_iff recordNameRowKey_row_key)
  qed
qed

lemma mem_ListRecords:
  assumes "mem_inv E M s" and "NormalizeRecordFilter E f = Inr g"
  shows "\<exists>xs. ms_ListRecords E M f s = Inr xs \<and> sorted (map record_key xs) \<and>
    enumerates xs {r \<in> abs_records (mem_content M s). RecordMatchesFilter r g}"
  using mem_candidates [OF assms(1), of g] assms(2)
  by (auto simp: ms_ListRecords_def enumerates_def by_record.sorted_SortFunc by_record.distinct_SortFunc)

lemma mem_read_errors:
  "NormalizeRecordFilter E f = Inl err \<Longrightarrow> ms_ListRecords E M f s = Inl err"
  "NormalizeLookup E zn n = Inl err \<Longrightarrow> ms_Lookup E M zn n qt qc s = Inl err"
  "NormalizeLookup E zn n = Inl err \<Longrightarrow> ms_LookupAll E M zn n qc s = Inl err"
  by (simp_all add: ms_ListRecords_def ms_Lookup_def ms_LookupAll_def)

section \<open>The memory store meets the contract\<close>

interpretation mem: repository E "memory_repo E M" "mem_inv E M" "mem_content M" for E M
  by unfold_locales
    (simp_all add: memory_repo_def mem_invD(1) mem_abs_wf mem_SaveZone_refines mem_DeleteZone_refines
      mem_SaveRecord_refines mem_DeleteRecord_refines mem_ListZones mem_ListRecords mem_read_errors
      mem_lookupRecords ms_Lookup_def ms_LookupAll_def)

section \<open>Properties\<close>

lemma mem_history:
  assumes "names_pkg_ok E" and "mapping_pkg_ok M" and "list_all plain_write ws"
  shows "mem_inv E M (run_writes (repo_write (memory_repo E M)) ws (NewMemoryStore M))"
    and "mem_content M (run_writes (repo_write (memory_repo E M)) ws (NewMemoryStore M)) =
      run_writes (spec_write E) ws \<lparr>abs_zones = {}, abs_records = {}\<rparr>"
  using mem.history_refines [OF mem_inv_New [OF assms(1,2)] assms(3)] mem_content_New [OF assms(2)] by simp_all

text \<open>
  C7: After any history of writes on a new memory store, \<^verbatim>\<open>Lookup\<close> with a name in the zone returns
  exactly the records of that zone, name, type and class that the writes have left, each once,
  in the order of their data, whatever the order in which the collections are iterated.
\<close>

theorem MemoryStore_Lookup_after_writes:
  assumes "names_pkg_ok E" and "mapping_pkg_ok M" and "list_all plain_write ws"
    and "NormalizeLookup E zone name = Inr (z, n)"
  shows "\<exists>rs. ms_Lookup E M zone name qtype qclass
        (run_writes (repo_write (memory_repo E M)) ws (NewMemoryStore M)) = Inr rs \<and>
      distinct rs \<and> sorted (map rec_Data rs) \<and>
      set rs = lookup_set z n qtype qclass (run_writes (spec_write E) ws \<lparr>abs_zones = {}, abs_records = {}\<rparr>)"
  using mem_lookupRecords [OF mem_history(1) [OF assms(1-3)], of z n qtype qclass] assms(4)
  by (simp add: ms_Lookup_def enumerates_def mem_history(2) [OF assms(1-3)])

definition sample_writes :: "store_write list" where
  "sample_writes =
     [WriteSaveRecord sample_raw, WriteSaveRecord (sample_raw\<lparr>rec_TTL := 60\<rparr>),
      WriteSaveRecord (sample_raw\<lparr>rec_Data := ''192.0.2.7''\<rparr>),
      WriteDeleteRecord (sample_raw\<lparr>rec_Data := ''192.0.2.7''\<rparr>)]"

definition sample_store where
  "sample_store = run_writes (repo_write (memory_repo names_ref mapping_ref)) sample_writes (NewMemoryStore mapping_ref)"

lemma sample_writes_plain: "list_all plain_write sample_writes"
  by code_simp

lemma sample_lookup: "NormalizeLookup names_ref ''example.org'' ''WWW.Example.Org.'' = Inr (''example.org.'', ''www.example.org.'')"
  by code_simp

theorem MemoryStore_Lookup_after_writes_witness:
  "ms_Lookup names_ref mapping_ref ''example.org'' ''WWW.Example.Org.'' TypeA ClassANY sample_store =
     Inr [sample_record\<lparr>rec_TTL := 60\<rparr>] \<and>
   lookup_set ''example.org.'' ''www.example.org.'' TypeA ClassANY
     (run_writes (spec_write names_ref) sample_writes \<lparr>abs_zones = {}, abs_records = {}\<rparr>) =
     {sample_record\<lparr>rec_TTL := 60\<rparr>}"
proof -
  have "ms_Lookup names_ref mapping_ref ''example.org'' ''WWW.Example.Org.'' TypeA ClassANY sample_store =
     Inr [sample_record\<lparr>rec_TTL := 60\<rparr>]" by code_simp
  with MemoryStore_Lookup_after_writes [OF names_ref_ok mapping_ref_ok sample_writes_plain sample_lookup,
      of TypeA ClassANY]
  show ?thesis by (auto simp: sample_store_def)
qed

text \<open>
  A write that fails leaves the store as it was; one that succeeds changes the revision by one,
  modulo \<open>2\<^sup>64\<close>. So a reader that sees the same revision twice, with fewer than \<open>2\<^sup>64\<close> writes in
  between, has seen the same content.
\<close>

theorem MemoryStore_write_revision:
  "case repo_write (memory_repo E M) w s of
     (Inl err, s') \<Rightarrow> s' = s
   | (Inr _, s') \<Rightarrow> unat (ms_Revision (Some s')) = (unat (ms_Revision (Some s)) + 1) mod 2 ^ 64"
  by (cases w)
    (auto simp: memory_repo_def ms_SaveZone_def ms_DeleteZone_def ms_SaveRecord_def ms_DeleteRecord_def
      ms_Revision_def unat_word_ariths split: sum.split)

text \<open>
  \<^verbatim>\<open>DeleteZone\<close> removes the zone and every record of it, and nothing of any other zone: a read
  of another zone gives what it gave before.
\<close>

theorem MemoryStore_DeleteZone_exact:
  assumes "mem_inv E M s" and "plain zone" and "NormalizeZoneName E zone = Inr z"
    and "ms_DeleteZone E M zone s = (res, s')"
  shows "res = Inr () \<and> mem_inv E M s' \<and>
    abs_zones (mem_content M s') = abs_zones (mem_content M s) - {z} \<and>
    abs_records (mem_content M s') = {r \<in> abs_records (mem_content M s). rec_Zone r \<noteq> z}"
proof -
  note sim = refinesD [OF mem_DeleteZone_refines [OF assms(2)] assms(1,4)]
  from sim(2) assms(3) have "res = Inr ()" and content: "mem_content M s' =
      \<lparr>abs_zones = abs_zones (mem_content M s) - {z},
       abs_records = {r \<in> abs_records (mem_content M s). rec_Zone r \<noteq> z}\<rparr>"
    by (simp_all add: spec_DeleteZone_def)
  with sim(1) show ?thesis by simp
qed

theorem MemoryStore_DeleteZone_exact_witness:
  "abs_records (mem_content mapping_ref (snd (ms_DeleteZone names_ref mapping_ref ''Example.org'' sample_store))) = {}"
proof -
  have inv: "mem_inv names_ref mapping_ref sample_store"
    using mem_history(1) [OF names_ref_ok mapping_ref_ok sample_writes_plain] by (simp add: sample_store_def)
  have z: "NormalizeZoneName names_ref ''Example.org'' = Inr ''example.org.''" by code_simp
  have p: "plain ''Example.org''" by code_simp
  note del = MemoryStore_DeleteZone_exact [OF inv p z prod.collapse [symmetric]]
  have "abs_records (run_writes (spec_write names_ref) sample_writes \<lparr>abs_zones = {}, abs_records = {}\<rparr>) =
      {sample_record\<lparr>rec_TTL := 60\<rparr>}"
    by code_simp
  then have "abs_records (mem_content mapping_ref sample_store) = {sample_record\<lparr>rec_TTL := 60\<rparr>}"
    using mem_history(2) [OF names_ref_ok mapping_ref_ok sample_writes_plain] by (simp add: sample_store_def)
  with del show ?thesis by (simp add: sample_record_def)
qed

text \<open>
  The prefix scan of \<^verbatim>\<open>DeleteZone\<close> is exact only on names without a bar: deleting the zone
  \<open>a.\<close> also deletes the records of the zone \<open>a.|b.\<close>, and leaves that zone listed without them.
\<close>

definition bar_record :: Record where
  "bar_record = \<lparr>rec_Zone = ''a.|b.'', rec_Name = ''www.a.|b.'', rec_TTL = 300, rec_Class = ClassINET,
     rec_Type = TypeA, rec_Data = ''192.0.2.1''\<rparr>"

definition bar_store where
  "bar_store = snd (ms_SaveRecord names_ref mapping_ref bar_record (NewMemoryStore mapping_ref))"

theorem MemoryStore_DeleteZone_bar:
  "ms_Lookup names_ref mapping_ref ''a.|b.'' ''www.a.|b.'' TypeA ClassINET bar_store = Inr [bar_record] \<and>
   (let s' = snd (ms_DeleteZone names_ref mapping_ref ''a.'' bar_store) in
    ms_Lookup names_ref mapping_ref ''a.|b.'' ''www.a.|b.'' TypeA ClassINET s' = Inr [] \<and>
    ms_ListZones mapping_ref s' = Inr [\<lparr>zone_Name = ''a.|b.''\<rparr>])"
  by code_simp

end
