(* ===== verification/Manager.thy ===== *)
theory Manager
  imports Snapshot Memory_Store
begin

text \<open>
  The manager, through which zones, records and RRsets are changed and read:
  \<^verbatim>\<open>dnsserver/manager.go\<close>, \<^verbatim>\<open>manager_rrset.go\<close>, \<^verbatim>\<open>manager_snapshot.go\<close> and the first part of
  \<^verbatim>\<open>manager_validation.go\<close>. Its lemmas are proved inside the contract \<open>repository\<close>, for every
  back end that meets it; the properties state them for the memory store.
\<close>

section \<open>The manager\<close>

record 's Manager =
  mgr_repo :: "'s Repository option"

definition NewManager :: "'s Repository option \<Rightarrow> 's Manager" where
  "NewManager repo = \<lparr>mgr_repo = repo\<rparr>"

text \<open>
  A manager is a pointer, \<open>None\<close> when it is nil. \<^verbatim>\<open>requireRepository\<close> returns the repository that the
  callers read from the manager once it has succeeded.
\<close>

definition requireRepository :: "'s Manager option \<Rightarrow> error + 's Repository" where
  "requireRepository m =
     (case m of
        None \<Rightarrow> Inl (Coded CodeRepositoryNotConfigured ErrRepositoryNotConfigured)
      | Some mgr \<Rightarrow>
         (case mgr_repo mgr of
            None \<Rightarrow> Inl (Coded CodeRepositoryNotConfigured ErrRepositoryNotConfigured)
          | Some repo \<Rightarrow> Inr repo))"

section \<open>Zones and records\<close>

definition mgr_UpsertZone ::
  "'x names_pkg_scheme \<Rightarrow> 's Manager option \<Rightarrow> Zone \<Rightarrow> (error, Zone, 's) action" where
  "mgr_UpsertZone E m zone s =
     (case requireRepository m of
        Inl err \<Rightarrow> (Inl err, s)
      | Inr repo \<Rightarrow>
         (case NormalizeZoneName E (zone_Name zone) of
            Inl err \<Rightarrow> (Inl err, s)
          | Inr normalizedName \<Rightarrow>
             (case repo_SaveZone repo \<lparr>zone_Name = normalizedName\<rparr> s of
                (Inl err, s') \<Rightarrow> (Inl err, s')
              | (Inr _, s') \<Rightarrow> (Inr \<lparr>zone_Name = normalizedName\<rparr>, s'))))"

definition mgr_DeleteZone ::
  "'x names_pkg_scheme \<Rightarrow> 's Manager option \<Rightarrow> string \<Rightarrow> (error, unit, 's) action" where
  "mgr_DeleteZone E m zone s =
     (case requireRepository m of
        Inl err \<Rightarrow> (Inl err, s)
      | Inr repo \<Rightarrow>
         (case NormalizeZoneName E zone of
            Inl err \<Rightarrow> (Inl err, s)
          | Inr normalizedZone \<Rightarrow>
             (case repo_DeleteZone repo normalizedZone s of
                (Inl err, s') \<Rightarrow> (Inl err, s')
              | (Inr _, s') \<Rightarrow> (Inr (), s'))))"

definition mgr_ListZones :: "'s Manager option \<Rightarrow> 's \<Rightarrow> error + Zone list" where
  "mgr_ListZones m s =
     (case requireRepository m of
        Inl err \<Rightarrow> Inl err
      | Inr repo \<Rightarrow>
         (case repo_ListZones repo s of
            Inl err \<Rightarrow> Inl err
          | Inr zones \<Rightarrow> Inr (map (\<lambda>zone. \<lparr>zone_Name = zone_Name zone\<rparr>) zones)))"

definition mgr_ListRecords ::
  "'x names_pkg_scheme \<Rightarrow> 's Manager option \<Rightarrow> RecordFilter \<Rightarrow> 's \<Rightarrow> error + Record list" where
  "mgr_ListRecords E m filt s =
     (case requireRepository m of
        Inl err \<Rightarrow> Inl err
      | Inr repo \<Rightarrow>
         (case NormalizeRecordFilter E filt of
            Inl err \<Rightarrow> Inl err
          | Inr normalizedFilter \<Rightarrow>
             (case repo_ListRecords repo normalizedFilter s of
                Inl err \<Rightarrow> Inl err
              | Inr records \<Rightarrow> Inr (map (\<lambda>record. record) records))))"

definition zone_filter :: "string \<Rightarrow> RecordFilter" where
  "zone_filter zone = \<lparr>flt_Zone = zone, flt_Name = [], flt_Type = 0, flt_Class = 0\<rparr>"

definition previewZoneRecords ::
  "'x names_pkg_scheme \<Rightarrow> 's Manager option \<Rightarrow> string \<Rightarrow> (Record list \<Rightarrow> Record list) \<Rightarrow> 's \<Rightarrow>
     error + Record list" where
  "previewZoneRecords E m zone mutate s =
     (case mgr_ListRecords E m (zone_filter zone) s of
        Inl err \<Rightarrow> Inl err
      | Inr records \<Rightarrow> Inr (mutate records))"

definition validateRecordUpsert ::
  "'x names_pkg_scheme \<Rightarrow> 'o set_pkg \<Rightarrow> 's Manager option \<Rightarrow> Record \<Rightarrow> 's \<Rightarrow> error + unit" where
  "validateRecordUpsert E OS m record s =
     (case previewZoneRecords E m (rec_Zone record) (\<lambda>current. upsertRecords E OS current [record]) s of
        Inl err \<Rightarrow> Inl err
      | Inr records \<Rightarrow> validateZoneRecords E (rec_Zone record) records \<lparr>requireApexNS = False\<rparr>)"

definition mgr_UpsertRecord ::
  "'x names_pkg_scheme \<Rightarrow> 'o set_pkg \<Rightarrow> 's Manager option \<Rightarrow> Record \<Rightarrow> (error, Record, 's) action" where
  "mgr_UpsertRecord E OS m record s =
     (case requireRepository m of
        Inl err \<Rightarrow> (Inl err, s)
      | Inr repo \<Rightarrow>
         (case NormalizeRecord E record of
            Inl err \<Rightarrow> (Inl err, s)
          | Inr normalizedRecord \<Rightarrow>
             (case validateRecordUpsert E OS m normalizedRecord s of
                Inl err \<Rightarrow> (Inl err, s)
              | Inr _ \<Rightarrow>
                 (case repo_SaveRecord repo normalizedRecord s of
                    (Inl err, s') \<Rightarrow> (Inl err, s')
                  | (Inr _, s') \<Rightarrow> (Inr normalizedRecord, s')))))"

definition mgr_DeleteRecord ::
  "'x names_pkg_scheme \<Rightarrow> 's Manager option \<Rightarrow> Record \<Rightarrow> (error, unit, 's) action" where
  "mgr_DeleteRecord E m record s =
     (case requireRepository m of
        Inl err \<Rightarrow> (Inl err, s)
      | Inr repo \<Rightarrow>
         (case NormalizeRecord E record of
            Inl err \<Rightarrow> (Inl err, s)
          | Inr normalizedRecord \<Rightarrow>
             (case repo_DeleteRecord repo normalizedRecord s of
                (Inl err, s') \<Rightarrow> (Inl err, s')
              | (Inr _, s') \<Rightarrow> (Inr (), s'))))"

section \<open>Zone lookups\<close>

definition mgr_GetZone ::
  "'x names_pkg_scheme \<Rightarrow> 's Manager option \<Rightarrow> string \<Rightarrow> 's \<Rightarrow> error + Zone option" where
  "mgr_GetZone E m name s =
     (case requireRepository m of
        Inl err \<Rightarrow> Inl err
      | Inr repo \<Rightarrow>
         (case NormalizeZoneName E name of
            Inl err \<Rightarrow> Inl err
          | Inr normalizedName \<Rightarrow>
             (case mgr_ListZones m s of
                Inl err \<Rightarrow> Inl err
              | Inr zones \<Rightarrow> Inr (List.find (\<lambda>zone. zone_Name zone = normalizedName) zones))))"

definition mgr_HasZone ::
  "'x names_pkg_scheme \<Rightarrow> 's Manager option \<Rightarrow> string \<Rightarrow> 's \<Rightarrow> error + bool" where
  "mgr_HasZone E m name s =
     (case mgr_GetZone E m name s of
        Inl err \<Rightarrow> Inl err
      | Inr zone \<Rightarrow> Inr (zone \<noteq> None))"

definition mgr_GetRecords ::
  "'x names_pkg_scheme \<Rightarrow> 's Manager option \<Rightarrow> RecordFilter \<Rightarrow> 's \<Rightarrow> error + Record list" where
  "mgr_GetRecords E m filt s = mgr_ListRecords E m filt s"

section \<open>RRsets\<close>

definition normalizeRRSetLookup ::
  "'x names_pkg_scheme \<Rightarrow> string \<Rightarrow> string \<Rightarrow> error + (string \<times> string)" where
  "normalizeRRSetLookup E zone name =
     (case NormalizeZoneName E zone of
        Inl err \<Rightarrow> Inl err
      | Inr normalizedZone \<Rightarrow>
         (let normalizedName = fqdnName E name in
          if normalizedName = ''.'' then Inl (Coded CodeRRSetNameRequired ErrRRSetNameRequired)
          else if \<not> IsSubDomain E normalizedZone normalizedName
          then Inl (Coded CodeRecordOutOfZone ErrRecordOutOfZone)
          else Inr (normalizedZone, normalizedName)))"

definition normalizeRRSetRecord ::
  "'x names_pkg_scheme \<Rightarrow> Record \<Rightarrow> string \<Rightarrow> string \<Rightarrow> uint16 \<Rightarrow> error + Record" where
  "normalizeRRSetRecord E record zone name rrtype =
     (let candidate = record\<lparr>
            rec_Zone := (if rec_Zone record = [] then zone else rec_Zone record),
            rec_Name := (if rec_Name record = [] then name else rec_Name record),
            rec_Type := (if rec_Type record = 0 then rrtype else rec_Type record)\<rparr> in
      case NormalizeRecord E candidate of
        Inl err \<Rightarrow> Inl err
      | Inr normalizedRecord \<Rightarrow>
         (if rec_Zone normalizedRecord \<noteq> zone \<or> rec_Name normalizedRecord \<noteq> name \<or>
             rec_Type normalizedRecord \<noteq> rrtype
          then Inl (Coded CodeRRSetMismatch ErrRRSetMismatch)
          else Inr normalizedRecord))"

fun normalizeRRSetLoop ::
  "'x names_pkg_scheme \<Rightarrow> 'o set_pkg \<Rightarrow> string \<Rightarrow> string \<Rightarrow> uint16 \<Rightarrow> 'o \<Rightarrow> Record list \<Rightarrow>
     error + Record list" where
  "normalizeRRSetLoop E OS zone name rrtype recordKeys [] = Inr []"
| "normalizeRRSetLoop E OS zone name rrtype recordKeys (record # records) =
     (case normalizeRRSetRecord E record zone name rrtype of
        Inl err \<Rightarrow> Inl err
      | Inr normalizedRecord \<Rightarrow>
         (if oset_Contains OS recordKeys (Key E normalizedRecord)
          then normalizeRRSetLoop E OS zone name rrtype recordKeys records
          else
            case normalizeRRSetLoop E OS zone name rrtype
                   (oset_Add OS (Key E normalizedRecord) recordKeys) records of
              Inl err \<Rightarrow> Inl err
            | Inr rest \<Rightarrow> Inr (normalizedRecord # rest)))"

definition normalizeRRSetRecords ::
  "'x names_pkg_scheme \<Rightarrow> 'o set_pkg \<Rightarrow> string \<Rightarrow> string \<Rightarrow> uint16 \<Rightarrow> Record list \<Rightarrow>
     error + Record list" where
  "normalizeRRSetRecords E OS zone name rrtype records =
     (if length records = 0 then Inl (Coded CodeRRSetRecordsRequired ErrRRSetRecordsRequired)
      else
        case normalizeRRSetLookup E zone name of
          Inl err \<Rightarrow> Inl err
        | Inr (normalizedZone, normalizedName) \<Rightarrow>
           (if rrtype = 0 then Inl (Coded CodeRRSetTypeRequired ErrRRSetTypeRequired)
            else normalizeRRSetLoop E OS normalizedZone normalizedName rrtype (oset_new OS) records))"

text \<open>The records an RRset upsert leaves in the zone, according to the validation.\<close>

definition replaceRRSet ::
  "'x names_pkg_scheme \<Rightarrow> 'o set_pkg \<Rightarrow> Record \<Rightarrow> Record list \<Rightarrow> Record list \<Rightarrow> Record list" where
  "replaceRRSet E OS target records current =
     (let filtered = removeRecords current (\<lambda>record. rec_Name record = rec_Name target \<and>
            rec_Type record = rec_Type target \<and> rec_Class record = rec_Class target)
      in upsertRecords E OS filtered records)"

definition validateRRSetUpsert ::
  "'x names_pkg_scheme \<Rightarrow> 'o set_pkg \<Rightarrow> 's Manager option \<Rightarrow> Record list \<Rightarrow> 's \<Rightarrow> error + unit" where
  "validateRRSetUpsert E OS m records s =
     (case records of
        [] \<Rightarrow> Inr ()
      | target # _ \<Rightarrow>
         (case previewZoneRecords E m (rec_Zone target) (replaceRRSet E OS target records) s of
            Inl err \<Rightarrow> Inl err
          | Inr previewRecords \<Rightarrow>
              validateZoneRecords E (rec_Zone target) previewRecords \<lparr>requireApexNS = False\<rparr>))"

fun deleteRecords ::
  "'x names_pkg_scheme \<Rightarrow> 's Manager option \<Rightarrow> nat \<Rightarrow> Record list \<Rightarrow> (error, nat, 's) action" where
  "deleteRecords E m deleted [] s = (Inr deleted, s)"
| "deleteRecords E m deleted (record # records) s =
     (case mgr_DeleteRecord E m record s of
        (Inl err, s') \<Rightarrow> (Inl err, s')
      | (Inr _, s') \<Rightarrow> deleteRecords E m (deleted + 1) records s')"

definition mgr_DeleteRRSet ::
  "'x names_pkg_scheme \<Rightarrow> 's Manager option \<Rightarrow> string \<Rightarrow> string \<Rightarrow> uint16 \<Rightarrow> (error, nat, 's) action" where
  "mgr_DeleteRRSet E m zone name rrtype s =
     (case requireRepository m of
        Inl err \<Rightarrow> (Inl err, s)
      | Inr repo \<Rightarrow>
         (case normalizeRRSetLookup E zone name of
            Inl err \<Rightarrow> (Inl err, s)
          | Inr (normalizedZone, normalizedName) \<Rightarrow>
             (case repo_Lookup repo normalizedZone normalizedName rrtype ClassANY s of
                Inl err \<Rightarrow> (Inl err, s)
              | Inr records \<Rightarrow> deleteRecords E m 0 records s)))"

definition mgr_DeleteName ::
  "'x names_pkg_scheme \<Rightarrow> 's Manager option \<Rightarrow> string \<Rightarrow> string \<Rightarrow> (error, nat, 's) action" where
  "mgr_DeleteName E m zone name s =
     (case requireRepository m of
        Inl err \<Rightarrow> (Inl err, s)
      | Inr repo \<Rightarrow>
         (case normalizeRRSetLookup E zone name of
            Inl err \<Rightarrow> (Inl err, s)
          | Inr (normalizedZone, normalizedName) \<Rightarrow>
             (case repo_LookupAll repo normalizedZone normalizedName ClassANY s of
                Inl err \<Rightarrow> (Inl err, s)
              | Inr records \<Rightarrow> deleteRecords E m 0 records s)))"

fun upsertRRSetLoop ::
  "'x names_pkg_scheme \<Rightarrow> 'o set_pkg \<Rightarrow> 's Manager option \<Rightarrow> Record list \<Rightarrow> (error, Record list, 's) action" where
  "upsertRRSetLoop E OS m [] s = (Inr [], s)"
| "upsertRRSetLoop E OS m (record # records) s =
     (case mgr_UpsertRecord E OS m record s of
        (Inl err, s') \<Rightarrow> (Inl err, s')
      | (Inr savedRecord, s') \<Rightarrow>
         (case upsertRRSetLoop E OS m records s' of
            (Inl err, s'') \<Rightarrow> (Inl err, s'')
          | (Inr savedRecords, s'') \<Rightarrow> (Inr (savedRecord # savedRecords), s'')))"

definition mgr_UpsertRRSet ::
  "'x names_pkg_scheme \<Rightarrow> 'o set_pkg \<Rightarrow> 's Manager option \<Rightarrow> string \<Rightarrow> string \<Rightarrow> uint16 \<Rightarrow> Record list \<Rightarrow>
     (error, Record list, 's) action" where
  "mgr_UpsertRRSet E OS m zone name rrtype records s =
     (case requireRepository m of
        Inl err \<Rightarrow> (Inl err, s)
      | Inr repo \<Rightarrow>
         (case normalizeRRSetRecords E OS zone name rrtype records of
            Inl err \<Rightarrow> (Inl err, s)
          | Inr normalizedRecords \<Rightarrow>
             (case validateRRSetUpsert E OS m normalizedRecords s of
                Inl err \<Rightarrow> (Inl err, s)
              | Inr _ \<Rightarrow>
                 (case normalizedRecords of
                    [] \<Rightarrow> (Inl (Panic ''index out of range''), s)
                  | target # _ \<Rightarrow>
                     (case mgr_DeleteRRSet E m (rec_Zone target) (rec_Name target) rrtype s of
                        (Inl err, s') \<Rightarrow> (Inl err, s')
                      | (Inr _, s') \<Rightarrow> upsertRRSetLoop E OS m normalizedRecords s')))))"

section \<open>Snapshots\<close>

definition mgr_GetZoneSnapshot ::
  "'x names_pkg_scheme \<Rightarrow> 's Manager option \<Rightarrow> string \<Rightarrow> 's \<Rightarrow> error + ZoneSnapshot option" where
  "mgr_GetZoneSnapshot E m name s =
     (case requireRepository m of
        Inl err \<Rightarrow> Inl err
      | Inr _ \<Rightarrow>
         (case mgr_GetZone E m name s of
            Inl err \<Rightarrow> Inl err
          | Inr None \<Rightarrow> Inr None
          | Inr (Some zoneValue) \<Rightarrow>
             (case mgr_ListRecords E m (zone_filter (zone_Name zoneValue)) s of
                Inl err \<Rightarrow> Inl err
              | Inr records \<Rightarrow> Inr (Some (buildZoneSnapshot (zone_Name zoneValue) records)))))"

definition normalizeRRSetRecordFilter ::
  "'x names_pkg_scheme \<Rightarrow> string \<Rightarrow> string \<Rightarrow> error + RecordFilter" where
  "normalizeRRSetRecordFilter E zone name =
     (if TrimSpace name = [] then Inr (zone_filter zone)
      else
        let normalizedName = fqdnName E name in
        if \<not> IsSubDomain E zone normalizedName then Inl (Coded CodeRecordOutOfZone ErrRecordOutOfZone)
        else Inr ((zone_filter zone)\<lparr>flt_Name := normalizedName\<rparr>))"

definition mgr_ListRRSets ::
  "'x names_pkg_scheme \<Rightarrow> 's Manager option \<Rightarrow> string \<Rightarrow> string \<Rightarrow> 's \<Rightarrow> error + RRSet list" where
  "mgr_ListRRSets E m zone name s =
     (case requireRepository m of
        Inl err \<Rightarrow> Inl err
      | Inr _ \<Rightarrow>
         (case NormalizeZoneName E zone of
            Inl err \<Rightarrow> Inl err
          | Inr normalizedZone \<Rightarrow>
             (case normalizeRRSetRecordFilter E normalizedZone name of
                Inl err \<Rightarrow> Inl err
              | Inr filt \<Rightarrow>
                 (case mgr_ListRecords E m filt s of
                    Inl err \<Rightarrow> Inl err
                  | Inr records \<Rightarrow> Inr (buildRRSets records)))))"

section \<open>Facts on the arguments\<close>

abbreviation mgr_of :: "'s Repository \<Rightarrow> 's Manager option" where
  "mgr_of R \<equiv> Some (NewManager (Some R))"

lemma requireRepository_simps [simp]:
  "requireRepository (mgr_of R) = Inr R"
  "requireRepository None = Inl (Coded CodeRepositoryNotConfigured ErrRepositoryNotConfigured)"
  "requireRepository (Some (NewManager None)) = Inl (Coded CodeRepositoryNotConfigured ErrRepositoryNotConfigured)"
  by (simp_all add: requireRepository_def NewManager_def)

lemma normal_zone_not_Nil: "names_pkg_ok E \<Longrightarrow> normal_zone E z \<Longrightarrow> z \<noteq> []"
  using fqdnName_not_Nil by (fastforce simp: normal_zone_def NormalizeZoneName_Inr)

lemma zone_filter_normal:
  "names_pkg_ok E \<Longrightarrow> normal_zone E z \<Longrightarrow> NormalizeRecordFilter E (zone_filter z) = Inr (zone_filter z)"
  using normal_zone_not_Nil by (simp add: NormalizeRecordFilter_def zone_filter_def normal_zoneD)

lemma normalizeRRSetLookup_Inr:
  "normalizeRRSetLookup E zone name = Inr (z, n) \<longleftrightarrow>
     NormalizeZoneName E zone = Inr z \<and> n = fqdnName E name \<and> n \<noteq> ''.'' \<and> IsSubDomain E z n"
  by (auto simp: normalizeRRSetLookup_def Let_def split: sum.split)

lemma normalizeRRSetLookup_normal:
  assumes "names_pkg_ok E" and "plain zone" and "plain name" and "normalizeRRSetLookup E zone name = Inr (z, n)"
  shows "normal_zone E z" and "plain n" and "NormalizeLookup E z n = Inr (z, n)"
    and "normalizeRRSetLookup E z n = Inr (z, n)"
proof -
  have z: "NormalizeZoneName E zone = Inr z" and n: "n = fqdnName E name" "n \<noteq> ''.''" "IsSubDomain E z n"
    using assms(4) unfolding normalizeRRSetLookup_Inr by blast+
  show nz: "normal_zone E z" by (rule normal_zone_NormalizeZoneName [OF assms(1,2) z])
  show "plain n" using assms n by (simp add: fqdnName_plain)
  have fn: "fqdnName E n = n" using assms n by (simp add: fqdnName_idem)
  show "NormalizeLookup E z n = Inr (z, n)"
    using n(3) by (simp add: NormalizeLookup_def normal_zoneD [OF nz] fn)
  show "normalizeRRSetLookup E z n = Inr (z, n)"
    using n(2,3) by (simp add: normalizeRRSetLookup_Inr normal_zoneD [OF nz] fn)
qed

lemma normal_record_lookup:
  assumes "normal_record E r"
  shows "normalizeRRSetLookup E (rec_Zone r) (rec_Name r) = Inr (rec_Zone r, rec_Name r)"
  using normal_recordD [OF assms] by (simp add: normalizeRRSetLookup_Inr NormalizeZoneName_Inr)

text \<open>What the loop over the records of an RRset returns.\<close>

lemma normalizeRRSetRecord_normal:
  assumes "names_pkg_ok E" and "plain z" and "plain n" and "plain_record r"
    and "normalizeRRSetRecord E r z n t = Inr r'"
  shows "normal_record E r'" and "rec_Zone r' = z" and "rec_Name r' = n" and "rec_Type r' = t"
proof -
  let ?c = "r\<lparr>rec_Zone := (if rec_Zone r = [] then z else rec_Zone r),
      rec_Name := (if rec_Name r = [] then n else rec_Name r), rec_Type := (if rec_Type r = 0 then t else rec_Type r)\<rparr>"
  have c: "NormalizeRecord E ?c = Inr r'" and "rec_Zone r' = z \<and> rec_Name r' = n \<and> rec_Type r' = t"
    using assms(5) unfolding normalizeRRSetRecord_def Let_def by (auto split: sum.splits if_split_asm)
  then show "rec_Zone r' = z" "rec_Name r' = n" "rec_Type r' = t" by simp_all
  have "plain_record ?c" using assms(2-4) by (simp add: plain_record_def)
  then show "normal_record E r'" using c by (rule normal_record_NormalizeRecord [OF assms(1)])
qed

lemma normalizeRRSetLoop_normal:
  assumes "names_pkg_ok E" and "set_pkg_ok OS" and "plain z" and "plain n" and "list_all plain_record records"
    and "normalizeRRSetLoop E OS z n t keys records = Inr rs"
  shows "(\<forall>r \<in> set rs. normal_record E r \<and> rec_Zone r = z \<and> rec_Name r = n \<and> rec_Type r = t) \<and>
    distinct (map (Key E) rs) \<and> Key E ` set rs \<inter> set (oset_Values OS keys) = {} \<and>
    (records \<noteq> [] \<and> oset_Values OS keys = [] \<longrightarrow> rs \<noteq> [])"
  using assms(5,6)
proof (induction records arbitrary: keys rs)
  case (Cons r records)
  note norm = normalizeRRSetRecord_normal [OF assms(1,3,4)]
  from Cons.prems obtain r' where r': "normalizeRRSetRecord E r z n t = Inr r'"
    by (auto split: sum.splits)
  have pr: "plain_record r" and prs: "list_all plain_record records" using Cons.prems(1) by simp_all
  show ?case
  proof (cases "oset_Contains OS keys (Key E r')")
    case True
    with Cons.prems r' have "normalizeRRSetLoop E OS z n t keys records = Inr rs" by simp
    with True show ?thesis using Cons.IH [OF prs] assms(2) by (auto simp: oset_laws)
  next
    case False
    with Cons.prems r' obtain rest where rest: "rs = r' # rest"
      "normalizeRRSetLoop E OS z n t (oset_Add OS (Key E r') keys) records = Inr rest"
      by (auto split: sum.splits)
    with False Cons.IH [OF prs rest(2)] norm [OF pr r'] assms(2) show ?thesis
      by (auto simp: oset_laws)
  qed
qed simp

lemma normalizeRRSetRecords_normal:
  assumes "names_pkg_ok E" and "set_pkg_ok OS" and "plain zone" and "plain name"
    and "list_all plain_record records" and "normalizeRRSetRecords E OS zone name t records = Inr rs"
  obtains z n where "normalizeRRSetLookup E zone name = Inr (z, n)" and "rs \<noteq> []"
    and "\<And>r. r \<in> set rs \<Longrightarrow> normal_record E r \<and> rec_Zone r = z \<and> rec_Name r = n \<and> rec_Type r = t"
    and "distinct (map (Key E) rs)"
proof -
  from assms(6) obtain z n where zn: "normalizeRRSetLookup E zone name = Inr (z, n)" and ne: "records \<noteq> []"
    and loop: "normalizeRRSetLoop E OS z n t (oset_new OS) records = Inr rs"
    by (auto simp: normalizeRRSetRecords_def split: if_splits sum.splits)
  have "plain z" "plain n"
    using normalizeRRSetLookup_normal(1,2) [OF assms(1,3,4) zn] by (simp_all add: normal_zone_def)
  from normalizeRRSetLoop_normal [OF assms(1,2) this assms(5) loop] that [OF zn] ne assms(2)
  show thesis by (simp add: oset_laws)
qed

section \<open>Validity depends on keys only\<close>

text \<open>
  Records with the same key have the same name and type, so the rules hold of a set of records
  when they hold of one with at least its keys.
\<close>

lemma zone_valid_keys:
  assumes "zone_valid z False A" and "Key E ` B \<subseteq> Key E ` A" and "inj_on (Key E) B"
    and "\<And>r. r \<in> A \<union> B \<Longrightarrow> plain_record r"
  shows "zone_valid z False B"
proof -
  have ex: "\<exists>a \<in> A. Key E a = Key E b \<and> rec_Name a = rec_Name b \<and> rec_Type a = rec_Type b" if "b \<in> B" for b
  proof -
    from that assms(2) obtain a where a: "a \<in> A" "Key E a = Key E b" by (metis imageE image_subset_iff)
    then show ?thesis using Key_eq_iff [of a b E] assms(4) that by blast
  qed
  have same: "b = b'" if "b \<in> B" "b' \<in> B" "Key E b = Key E b'" for b b'
    using that assms(3) by (auto dest: inj_onD)
  show ?thesis
    unfolding zone_valid_def
  proof (intro conjI ballI impI)
    fix b assume "b \<in> B" "rec_Type b = TypeSOA"
    then show "rec_Name b = z" using ex assms(1) unfolding zone_valid_def by metis
  next
    fix b b' assume "b \<in> B" "b' \<in> B" "rec_Type b = TypeSOA \<and> rec_Type b' = TypeSOA"
    then show "b = b'" using ex same assms(1) unfolding zone_valid_def by metis
  next
    fix b b' assume "b \<in> B" "rec_Type b = TypeCNAME" "b' \<in> B" "rec_Name b' = rec_Name b"
    then show "b' = b" using ex same assms(1) unfolding zone_valid_def by metis
  qed auto
qed

definition zone_records :: "string \<Rightarrow> abs_store \<Rightarrow> Record set" where
  "zone_records z a = {r \<in> abs_records a. rec_Zone r = z}"

text \<open>Every zone of the content meets the rules that are checked on every record upsert.\<close>

definition all_valid :: "abs_store \<Rightarrow> bool" where
  "all_valid a \<longleftrightarrow> (\<forall>z. zone_valid z False (zone_records z a))"

lemma all_valid_subset:
  "all_valid a \<Longrightarrow> abs_records b \<subseteq> abs_records a \<Longrightarrow> all_valid b"
  unfolding all_valid_def zone_records_def by (blast intro: zone_valid_mono)

text \<open>The content a record upsert leaves, when it is accepted.\<close>

definition put_content :: "'x names_pkg_scheme \<Rightarrow> Record \<Rightarrow> abs_store \<Rightarrow> abs_store" where
  "put_content E r a = \<lparr>abs_zones = insert (rec_Zone r) (abs_zones a), abs_records = put_record E r (abs_records a)\<rparr>"

lemma zone_records_put_other:
  "plain_record r \<Longrightarrow> (\<And>v. v \<in> abs_records a \<Longrightarrow> plain_record v) \<Longrightarrow> z \<noteq> rec_Zone r \<Longrightarrow>
     zone_records z (put_content E r a) = zone_records z a"
  using Key_eq_iff by (fastforce simp: zone_records_def put_content_def put_record_def)

lemma zone_records_put:
  "plain_record r \<Longrightarrow> zone_records (rec_Zone r) (put_content E r a) = put_record E r (zone_records (rec_Zone r) a)"
  by (auto simp: zone_records_def put_content_def put_record_def)

context repository
begin

lemma ListRecords_zone:
  assumes "invar s" and "normal_zone E z"
  shows "\<exists>xs. mgr_ListRecords E (mgr_of R) (zone_filter z) s = Inr xs \<and> distinct xs \<and>
    set xs = zone_records z (content s)"
proof -
  note flt = zone_filter_normal [OF names_ok [OF assms(1)] assms(2)]
  have "z \<noteq> []" using normal_zone_not_Nil [OF names_ok [OF assms(1)] assms(2)] .
  then have "{r \<in> abs_records (content s). RecordMatchesFilter r (zone_filter z)} = zone_records z (content s)"
    by (auto simp: RecordMatchesFilter_iff zone_filter_def zone_records_def)
  then show ?thesis
    using ListRecords [OF assms(1) flt] by (auto simp: mgr_ListRecords_def flt enumerates_def)
qed

lemma plain_stored: "invar s \<Longrightarrow> r \<in> abs_records (content s) \<Longrightarrow> plain_record r"
  using normal_stored by (simp add: normal_record_def)

lemma inj_Key_zone: "invar s \<Longrightarrow> inj_on (Key E) (zone_records z (content s))"
  using inj_Key_stored by (rule inj_on_subset) (auto simp: zone_records_def)

text \<open>A record upsert is accepted exactly when the zone it would leave meets the rules.\<close>

lemma validateRecordUpsert_iff:
  assumes "invar s" and "set_pkg_ok OS" and "normal_record E r"
  shows "validateRecordUpsert E OS (mgr_of R) r s = Inr () \<longleftrightarrow>
    zone_valid (rec_Zone r) False (zone_records (rec_Zone r) (put_content E r (content s)))"
proof -
  let ?z = "rec_Zone r" and ?a = "content s"
  have nz: "normal_zone E ?z" and pr: "plain_record r"
    using assms(3) normal_record_zone by (auto simp: normal_record_def)
  obtain xs where xs: "mgr_ListRecords E (mgr_of R) (zone_filter ?z) s = Inr xs" "distinct xs"
    "set xs = zone_records ?z ?a"
    using ListRecords_zone [OF assms(1) nz] by blast
  let ?p = "upsertRecords E OS xs [r]"
  have keys: "distinct (map (Key E) ?p)" "Key E ` set ?p = insert (Key E r) (Key E ` set xs)"
    "set ?p \<subseteq> insert r (set xs)"
    using set_first_by [of "Key E" "{}" "xs @ [r]"]
    by (auto simp: upsertRecords_first_by [OF assms(2)] distinct_first_by keys_first_by)
  let ?B = "put_record E r (set xs)"
  have B: "zone_records ?z (put_content E r ?a) = ?B" by (simp add: zone_records_put [OF pr] xs(3))
  have injs: "inj_on (Key E) (set ?p)" "inj_on (Key E) ?B"
    using keys(1) inj_on_put_record [OF inj_Key_zone [OF assms(1), of ?z], of r]
    by (simp_all add: distinct_map xs(3))
  have kB: "Key E ` ?B = Key E ` set ?p" unfolding keys(2) by (auto simp: put_record_def)
  have plain: "plain_record v" if "v \<in> set ?p \<union> ?B" for v
    using that keys(3) pr plain_stored [OF assms(1)] xs(3) by (auto simp: put_record_def zone_records_def)
  have "validateRecordUpsert E OS (mgr_of R) r s = Inr () \<longleftrightarrow> zone_valid ?z False (set ?p)"
    using validateZoneRecords_zone_valid [OF _ normal_zoneD [OF nz], of ?p] keys(1)
    by (simp add: validateRecordUpsert_def previewZoneRecords_def xs(1) distinct_map)
  also have "\<dots> \<longleftrightarrow> zone_valid ?z False ?B"
    using zone_valid_keys [of ?z "set ?p" E ?B] zone_valid_keys [of ?z ?B E "set ?p"] injs kB plain by auto
  finally show ?thesis unfolding B .
qed

lemma SaveRecord_put:
  assumes "invar s" and "normal_record E r"
  obtains s' where "repo_SaveRecord R r s = (Inr (), s')" and "invar s'" and "content s' = put_content E r (content s)"
  using SaveRecord_normal [OF assms] by (metis put_content_def)

lemma UpsertRecord_accepts:
  assumes "invar s" and "set_pkg_ok OS" and "plain_record r" and "NormalizeRecord E r = Inr n"
    and "zone_valid (rec_Zone n) False (zone_records (rec_Zone n) (put_content E n (content s)))"
  obtains s' where "mgr_UpsertRecord E OS (mgr_of R) r s = (Inr n, s')" and "invar s'"
    and "content s' = put_content E n (content s)"
proof -
  have n: "normal_record E n" by (rule normal_record_NormalizeRecord [OF names_ok [OF assms(1)] assms(3,4)])
  obtain s' where s': "repo_SaveRecord R n s = (Inr (), s')" "invar s'" "content s' = put_content E n (content s)"
    using SaveRecord_put [OF assms(1) n] by blast
  have "validateRecordUpsert E OS (mgr_of R) n s = Inr ()"
    using validateRecordUpsert_iff [OF assms(1,2) n] assms(5) by simp
  with s' show thesis by (intro that) (auto simp: mgr_UpsertRecord_def assms(4))
qed

lemma UpsertRecord_rejects:
  assumes "invar s" and "set_pkg_ok OS" and "plain_record r" and "NormalizeRecord E r = Inr n"
    and "\<not> zone_valid (rec_Zone n) False (zone_records (rec_Zone n) (put_content E n (content s)))"
  shows "\<exists>err. mgr_UpsertRecord E OS (mgr_of R) r s = (Inl err, s)"
proof -
  have n: "normal_record E n" by (rule normal_record_NormalizeRecord [OF names_ok [OF assms(1)] assms(3,4)])
  then obtain err where "validateRecordUpsert E OS (mgr_of R) n s = Inl err"
    using validateRecordUpsert_iff [OF assms(1,2) n] assms(5)
    by (cases "validateRecordUpsert E OS (mgr_of R) n s") auto
  then show ?thesis by (simp add: mgr_UpsertRecord_def assms(4))
qed

lemma UpsertRecord_invar:
  assumes "invar s" and "set_pkg_ok OS" and "plain_record r" and "mgr_UpsertRecord E OS (mgr_of R) r s = (res, s')"
  shows "invar s' \<and> (all_valid (content s) \<longrightarrow> all_valid (content s'))"
proof (cases "NormalizeRecord E r")
  case (Inl err)
  then show ?thesis using assms by (auto simp: mgr_UpsertRecord_def)
next
  case (Inr n)
  have n: "normal_record E n" by (rule normal_record_NormalizeRecord [OF names_ok [OF assms(1)] assms(3) Inr])
  then have pn: "plain_record n" by (simp add: normal_record_def)
  show ?thesis
  proof (cases "zone_valid (rec_Zone n) False (zone_records (rec_Zone n) (put_content E n (content s)))")
    case True
    with UpsertRecord_accepts [OF assms(1-3) Inr] assms(4)
    have s': "invar s'" "content s' = put_content E n (content s)" by (metis prod.inject)+
    have "zone_valid z False (zone_records z (content s'))" if "all_valid (content s)" for z
      using that True zone_records_put_other [OF pn plain_stored [OF assms(1)], where z = z and E = E] s'(2)
      by (cases "z = rec_Zone n") (auto simp: all_valid_def)
    with s'(1) show ?thesis by (simp add: all_valid_def)
  next
    case False
    with UpsertRecord_rejects [OF assms(1-3) Inr] assms show ?thesis by auto
  qed
qed


subsection \<open>Deletions\<close>

lemma DeleteRecord_spec:
  assumes "invar s" and "plain_record r" and "NormalizeRecord E r = Inr n"
  obtains s' where "mgr_DeleteRecord E (mgr_of R) r s = (Inr (), s')" and "invar s'"
    and "content s' = (content s)\<lparr>abs_records := del_record E n (abs_records (content s))\<rparr>"
proof -
  have n: "normal_record E n" by (rule normal_record_NormalizeRecord [OF names_ok [OF assms(1)] assms(2,3)])
  obtain s' where "repo_DeleteRecord R n s = (Inr (), s')" "invar s'"
    "content s' = (content s)\<lparr>abs_records := del_record E n (abs_records (content s))\<rparr>"
    using DeleteRecord_stored [OF assms(1) n] by blast
  then show thesis by (intro that) (auto simp: mgr_DeleteRecord_def assms(3))
qed

lemma deleteRecords_exact:
  assumes "invar s" and "distinct rs" and "set rs \<subseteq> abs_records (content s)"
  shows "\<exists>s'. deleteRecords E (mgr_of R) k rs s = (Inr (k + length rs), s') \<and> invar s' \<and>
    content s' = (content s)\<lparr>abs_records := abs_records (content s) - set rs\<rparr>"
  using assms
proof (induction rs arbitrary: k s)
  case (Cons r rs)
  have r: "normal_record E r" "r \<in> abs_records (content s)" using Cons.prems normal_stored by auto
  obtain s1 where s1: "mgr_DeleteRecord E (mgr_of R) r s = (Inr (), s1)" "invar s1"
    "content s1 = (content s)\<lparr>abs_records := abs_records (content s) - {r}\<rparr>"
    using DeleteRecord_spec [OF Cons.prems(1), of r r] r
      del_record_key_inj [OF inj_Key_stored [OF Cons.prems(1)] r(2)]
    by (metis normal_recordD(1) normal_record_def)
  have "set rs \<subseteq> abs_records (content s1)" using Cons.prems s1(3) by auto
  then show ?case
    using Cons.IH [OF s1(2), of "k + 1"] Cons.prems(2) s1 by (auto simp: Diff_insert2 [symmetric] insert_commute)
qed simp

lemma delete_lookup:
  assumes "invar s" and "enumerates rs (lookup_set z n t c (content s))"
  shows "\<exists>s'. deleteRecords E (mgr_of R) 0 rs s = (Inr (card (lookup_set z n t c (content s))), s') \<and> invar s' \<and>
    content s' = (content s)\<lparr>abs_records := abs_records (content s) - lookup_set z n t c (content s)\<rparr>"
  using deleteRecords_exact [OF assms(1), of rs 0] assms(2) distinct_card [of rs]
  by (auto simp: enumerates_def lookup_set_def)

lemma DeleteRRSet_exact:
  assumes "invar s" and "plain zone" and "plain name" and "normalizeRRSetLookup E zone name = Inr (z, n)"
  shows "\<exists>s'. mgr_DeleteRRSet E (mgr_of R) zone name t s =
      (Inr (card (lookup_set z n t ClassANY (content s))), s') \<and> invar s' \<and>
    content s' = (content s)\<lparr>abs_records := abs_records (content s) - lookup_set z n t ClassANY (content s)\<rparr>"
proof -
  note nl = normalizeRRSetLookup_normal(3) [OF names_ok [OF assms(1)] assms(2-4)]
  obtain rs where "repo_Lookup R z n t ClassANY s = Inr rs" "enumerates rs (lookup_set z n t ClassANY (content s))"
    using Lookup [OF assms(1) nl] by blast
  then show ?thesis using delete_lookup [OF assms(1)] by (simp add: mgr_DeleteRRSet_def assms(4))
qed

lemma DeleteName_exact:
  assumes "invar s" and "plain zone" and "plain name" and "normalizeRRSetLookup E zone name = Inr (z, n)"
  shows "\<exists>s'. mgr_DeleteName E (mgr_of R) zone name s =
      (Inr (card (lookup_set z n TypeANY ClassANY (content s))), s') \<and> invar s' \<and>
    content s' = (content s)\<lparr>abs_records := abs_records (content s) - lookup_set z n TypeANY ClassANY (content s)\<rparr>"
proof -
  note nl = normalizeRRSetLookup_normal(3) [OF names_ok [OF assms(1)] assms(2-4)]
  obtain rs where "repo_LookupAll R z n ClassANY s = Inr rs" "enumerates rs (lookup_set z n TypeANY ClassANY (content s))"
    using LookupAll [OF assms(1) nl] by blast
  then show ?thesis using delete_lookup [OF assms(1)] by (simp add: mgr_DeleteName_def assms(4))
qed

subsection \<open>Replacing an RRset\<close>

lemma upsertRRSetLoop_exact:
  assumes "invar s" and "set_pkg_ok OS"
    and "\<And>r. r \<in> set rs \<Longrightarrow> normal_record E r \<and> rec_Zone r = z" and "distinct (map (Key E) rs)"
    and "Key E ` set rs \<inter> Key E ` abs_records (content s) = {}"
    and "zone_valid z False (zone_records z (content s) \<union> set rs)"
  shows "\<exists>s'. upsertRRSetLoop E OS (mgr_of R) rs s = (Inr rs, s') \<and> invar s' \<and>
    abs_zones (content s') = abs_zones (content s) \<union> rec_Zone ` set rs \<and>
    abs_records (content s') = abs_records (content s) \<union> set rs"
  using assms(1,3-)
proof (induction rs arbitrary: s)
  case (Cons r rs)
  have r: "normal_record E r" "rec_Zone r = z" "plain_record r" using Cons.prems(2) by (auto simp: normal_record_def)
  have put: "put_content E r (content s) =
      \<lparr>abs_zones = insert z (abs_zones (content s)), abs_records = insert r (abs_records (content s))\<rparr>"
    using Cons.prems(4) r(2) by (auto simp: put_content_def put_record_def image_iff)
  have zr: "zone_records z (put_content E r (content s)) = insert r (zone_records z (content s))"
    using r(2) by (auto simp: put zone_records_def)
  have "zone_valid z False (zone_records z (put_content E r (content s)))"
    unfolding zr by (rule zone_valid_mono [OF Cons.prems(5)]) auto
  then obtain s1 where s1: "mgr_UpsertRecord E OS (mgr_of R) r s = (Inr r, s1)" "invar s1"
    "content s1 = put_content E r (content s)"
    using UpsertRecord_accepts [OF Cons.prems(1) assms(2) r(3) normal_recordD(1) [OF r(1)]] r(2) by metis
  have "Key E ` set rs \<inter> Key E ` abs_records (content s1) = {}"
    using Cons.prems(3,4) by (auto simp: s1(3) put image_iff)
  moreover have "zone_valid z False (zone_records z (content s1) \<union> set rs)"
    using Cons.prems(5) by (simp add: s1(3) zr)
  ultimately obtain s' where "upsertRRSetLoop E OS (mgr_of R) rs s1 = (Inr rs, s')" "invar s'"
    "abs_zones (content s') = abs_zones (content s1) \<union> rec_Zone ` set rs"
    "abs_records (content s') = abs_records (content s1) \<union> set rs"
    using Cons.IH [OF s1(2)] Cons.prems(2,3) by auto
  then show ?case using s1(1) r(2) by (auto simp: s1(3) put)
qed simp

lemma validateRRSetUpsert_valid:
  assumes "invar s" and "set_pkg_ok OS" and "rs \<noteq> []"
    and rs: "\<And>r. r \<in> set rs \<Longrightarrow> normal_record E r \<and> rec_Zone r = z \<and> rec_Name r = n \<and> rec_Type r = t"
    and "distinct (map (Key E) rs)" and "validateRRSetUpsert E OS (mgr_of R) rs s = Inr ()"
  shows "zone_valid z False (zone_records z (content s) - lookup_set z n t ClassANY (content s) \<union> set rs)"
proof -
  obtain r0 rest where r0: "rs = r0 # rest" using assms(3) by (cases rs) auto
  have nr0: "normal_record E r0" "rec_Zone r0 = z" using rs r0 by auto
  have nz: "normal_zone E z" using normal_record_zone [OF nr0(1)] nr0(2) by simp
  obtain xs where xs: "mgr_ListRecords E (mgr_of R) (zone_filter z) s = Inr xs" "distinct xs"
    "set xs = zone_records z (content s)"
    using ListRecords_zone [OF assms(1) nz] by blast
  let ?keep = "removeRecords xs (\<lambda>record. rec_Name record = rec_Name r0 \<and>
            rec_Type record = rec_Type r0 \<and> rec_Class record = rec_Class r0)"
  let ?p = "upsertRecords E OS ?keep rs"
  let ?B = "zone_records z (content s) - lookup_set z n t ClassANY (content s) \<union> set rs"
  have p: "distinct (map (Key E) ?p)" "Key E ` set ?p = Key E ` set ?keep \<union> Key E ` set rs" "set ?p \<subseteq> set ?keep \<union> set rs"
    using set_first_by [of "Key E" "{}" "?keep @ rs"]
    by (auto simp: upsertRecords_first_by [OF assms(2)] distinct_first_by keys_first_by image_Un)
  have "zone_valid z False (set ?p)"
    using assms(6) validateZoneRecords_zone_valid [OF _ normal_zoneD [OF nz], of ?p] p(1) nr0(2) r0
    by (simp add: validateRRSetUpsert_def previewZoneRecords_def xs(1) replaceRRSet_def distinct_map)
  moreover have "zone_records z (content s) - lookup_set z n t ClassANY (content s) \<subseteq> set ?keep"
    using rs [of r0] r0 by (auto simp: removeRecords_def xs(3) lookup_set_def zone_records_def)
  then have "Key E ` ?B \<subseteq> Key E ` set ?p" unfolding p(2) by auto
  moreover have "inj_on (Key E) ?B"
  proof (rule inj_onI)
    fix v w assume v: "v \<in> ?B" and w: "w \<in> ?B" and eq: "Key E v = Key E w"
    have outside: "x \<in> set rs \<or> x \<in> zone_records z (content s) \<and> \<not> (rec_Name x = n \<and> rec_Type x = t)"
      if "x \<in> ?B" for x using that by (auto simp: zone_records_def lookup_set_def)
    have "plain_record x" if "x \<in> ?B" for x
      using that rs plain_stored [OF assms(1)] by (auto simp: zone_records_def normal_record_def)
    with v w have "rec_Name v = rec_Name w \<and> rec_Type v = rec_Type w" using eq Key_eq_iff [of v w E] by blast
    then have "v \<in> set rs \<longleftrightarrow> w \<in> set rs" using outside [OF v] outside [OF w] rs by metis
    then show "v = w"
      using v w eq assms(5) inj_Key_zone [OF assms(1), of z] by (auto simp: distinct_map dest: inj_onD)
  qed
  moreover have "plain_record v" if "v \<in> set ?p \<union> ?B" for v
    using that p(3) rs plain_stored [OF assms(1)] xs(3)
    by (auto simp: removeRecords_def zone_records_def normal_record_def)
  ultimately show ?thesis using zone_valid_keys [of z "set ?p" E ?B] by blast
qed

text \<open>
  An RRset upsert that passes its validation cannot fail half way: the old RRset is deleted, then
  each record is saved, and each of these steps leaves a zone that the next accepts.
\<close>

lemma UpsertRRSet_exact:
  assumes "invar s" and "set_pkg_ok OS" and "plain zone" and "plain name" and "list_all plain_record records"
    and norm: "normalizeRRSetRecords E OS zone name t records = Inr rs"
    and val: "validateRRSetUpsert E OS (mgr_of R) rs s = Inr ()"
  obtains z n s' where "normalizeRRSetLookup E zone name = Inr (z, n)"
    and "mgr_UpsertRRSet E OS (mgr_of R) zone name t records s = (Inr rs, s')" and "invar s'"
    and "abs_zones (content s') = insert z (abs_zones (content s))"
    and "abs_records (content s') = abs_records (content s) - lookup_set z n t ClassANY (content s) \<union> set rs"
proof -
  from normalizeRRSetRecords_normal [OF names_ok [OF assms(1)] assms(2-5) norm]
  obtain z n where zn: "normalizeRRSetLookup E zone name = Inr (z, n)" and ne: "rs \<noteq> []"
    and rs: "\<And>r. r \<in> set rs \<Longrightarrow> normal_record E r \<and> rec_Zone r = z \<and> rec_Name r = n \<and> rec_Type r = t"
    and keys: "distinct (map (Key E) rs)" by metis
  note norm_zn = normalizeRRSetLookup_normal [OF names_ok [OF assms(1)] assms(3,4) zn]
  obtain r0 rest where r0: "rs = r0 # rest" "rec_Zone r0 = z" "rec_Name r0 = n" using ne rs by (cases rs) auto
  obtain k s1 where s1: "mgr_DeleteRRSet E (mgr_of R) z n t s = (Inr k, s1)" "invar s1"
    "content s1 = (content s)\<lparr>abs_records := abs_records (content s) - lookup_set z n t ClassANY (content s)\<rparr>"
  proof -
    have "plain z" using norm_zn(1) by (simp add: normal_zone_def)
    from DeleteRRSet_exact [OF assms(1) this norm_zn(2,4), of t] show thesis by (elim exE conjE) (rule that)
  qed
  have zr: "zone_records z (content s1) = zone_records z (content s) - lookup_set z n t ClassANY (content s)"
    by (auto simp: s1(3) zone_records_def)
  have valid: "zone_valid z False (zone_records z (content s1) \<union> set rs)"
    unfolding zr by (rule validateRRSetUpsert_valid [OF assms(1,2) ne rs keys val])
  have "Key E r \<noteq> Key E v" if "r \<in> set rs" "v \<in> abs_records (content s1)" for r v
  proof
    assume "Key E r = Key E v"
    moreover have "plain_record r" "plain_record v"
      using rs that plain_stored [OF s1(2)] by (auto simp: normal_record_def)
    ultimately have "v \<in> lookup_set z n t ClassANY (content s)"
      using rs [OF that(1)] that(2) by (auto simp: Key_eq_iff lookup_set_def s1(3))
    then show False using that(2) by (simp add: s1(3))
  qed
  then have "Key E ` set rs \<inter> Key E ` abs_records (content s1) = {}" by auto
  from upsertRRSetLoop_exact [OF s1(2) assms(2) _ keys this valid] rs
  obtain s' where s': "upsertRRSetLoop E OS (mgr_of R) rs s1 = (Inr rs, s')" "invar s'"
    "abs_zones (content s') = abs_zones (content s1) \<union> rec_Zone ` set rs"
    "abs_records (content s') = abs_records (content s1) \<union> set rs" by blast
  have "rec_Zone ` set rs = {z}"
  proof
    show "{z} \<subseteq> rec_Zone ` set rs" using r0 by simp
  qed (use rs in blast)
  moreover have "mgr_UpsertRRSet E OS (mgr_of R) zone name t records s = (Inr rs, s')"
    using s'(1) s1(1) val r0 by (simp add: mgr_UpsertRRSet_def norm del: upsertRRSetLoop.simps)
  ultimately show thesis using that [OF zn] s' s1(3) by auto
qed

lemma UpsertRRSet_failure:
  assumes "normalizeRRSetRecords E OS zone name t records = Inl err \<or>
    (\<exists>rs. normalizeRRSetRecords E OS zone name t records = Inr rs \<and>
       validateRRSetUpsert E OS (mgr_of R) rs s = Inl err)"
  shows "mgr_UpsertRRSet E OS (mgr_of R) zone name t records s = (Inl err, s)"
  using assms by (auto simp: mgr_UpsertRRSet_def)

text \<open>So an RRset upsert is atomic: it fails and changes nothing, or replaces the RRset.\<close>

lemma UpsertRRSet_cases:
  assumes "invar s" and "set_pkg_ok OS" and "plain zone" and "plain name" and "list_all plain_record records"
    and "mgr_UpsertRRSet E OS (mgr_of R) zone name t records s = (res, s')"
  obtains (failed) err where "res = Inl err" and "s' = s"
  | (replaced) z n rs where "res = Inr rs" and "normalizeRRSetRecords E OS zone name t records = Inr rs"
      and "normalizeRRSetLookup E zone name = Inr (z, n)" and "invar s'"
      and "abs_zones (content s') = insert z (abs_zones (content s))"
      and "abs_records (content s') = abs_records (content s) - lookup_set z n t ClassANY (content s) \<union> set rs"
      and "zone_valid z False (zone_records z (content s'))"
proof (cases "normalizeRRSetRecords E OS zone name t records")
  case (Inl err)
  then show thesis using failed assms(6) UpsertRRSet_failure by (metis prod.inject)
next
  case norm: (Inr rs)
  show thesis
  proof (cases "validateRRSetUpsert E OS (mgr_of R) rs s")
    case (Inl err)
    then show thesis using failed assms(6) norm UpsertRRSet_failure by (metis prod.inject)
  next
    case (Inr u)
    then have val: "validateRRSetUpsert E OS (mgr_of R) rs s = Inr ()" by simp
    from UpsertRRSet_exact [OF assms(1-5) norm val] assms(6)
    obtain z n where zn: "normalizeRRSetLookup E zone name = Inr (z, n)" "res = Inr rs" "invar s'"
      "abs_zones (content s') = insert z (abs_zones (content s))"
      "abs_records (content s') = abs_records (content s) - lookup_set z n t ClassANY (content s) \<union> set rs"
      by (metis prod.inject)
    from normalizeRRSetRecords_normal [OF names_ok [OF assms(1)] assms(2-5) norm] zn(1)
    have ne: "rs \<noteq> []" and keys: "distinct (map (Key E) rs)"
      and rs: "\<And>r. r \<in> set rs \<Longrightarrow> normal_record E r \<and> rec_Zone r = z \<and> rec_Name r = n \<and> rec_Type r = t"
      by (metis Inr_inject prod.inject)+
    have "zone_records z (content s') = zone_records z (content s) - lookup_set z n t ClassANY (content s) \<union> set rs"
      using rs by (auto simp: zone_records_def zn(5))
    then have "zone_valid z False (zone_records z (content s'))"
      using validateRRSetUpsert_valid [OF assms(1,2) ne rs keys val] by simp
    with replaced [OF zn(2) norm zn(1,3-5)] show thesis by blast
  qed
qed

subsection \<open>Zones and reads\<close>

lemma UpsertZone_spec:
  assumes "invar s" and "plain (zone_Name zone)" and "NormalizeZoneName E (zone_Name zone) = Inr z"
  obtains s' where "mgr_UpsertZone E (mgr_of R) zone s = (Inr \<lparr>zone_Name = z\<rparr>, s')" and "invar s'"
    and "content s' = (content s)\<lparr>abs_zones := insert z (abs_zones (content s))\<rparr>"
proof -
  have nz: "normal_zone E z" by (rule normal_zone_NormalizeZoneName [OF names_ok [OF assms(1)] assms(2,3)])
  then have pz: "plain (zone_Name \<lparr>zone_Name = z\<rparr>)" by (simp add: normal_zone_def)
  obtain x s' where op: "repo_SaveZone R \<lparr>zone_Name = z\<rparr> s = (x, s')" by (cases "repo_SaveZone R \<lparr>zone_Name = z\<rparr> s")
  note sim = refinesD [OF SaveZone [OF pz] assms(1) op]
  have "x = Inr ()" "content s' = (content s)\<lparr>abs_zones := insert z (abs_zones (content s))\<rparr>"
    using sim(2) by (simp_all add: spec_SaveZone_def normal_zoneD [OF nz])
  with op sim(1) show thesis by (intro that) (auto simp: mgr_UpsertZone_def assms(3))
qed

lemma DeleteZone_spec:
  assumes "invar s" and "plain zone" and "NormalizeZoneName E zone = Inr z"
  obtains s' where "mgr_DeleteZone E (mgr_of R) zone s = (Inr (), s')" and "invar s'"
    and "content s' = \<lparr>abs_zones = abs_zones (content s) - {z},
                       abs_records = {r \<in> abs_records (content s). rec_Zone r \<noteq> z}\<rparr>"
proof -
  have nz: "normal_zone E z" by (rule normal_zone_NormalizeZoneName [OF names_ok [OF assms(1)] assms(2,3)])
  then have pz: "plain z" by (simp add: normal_zone_def)
  obtain x s' where op: "repo_DeleteZone R z s = (x, s')" by (cases "repo_DeleteZone R z s")
  note sim = refinesD [OF DeleteZone [OF pz] assms(1) op]
  have "x = Inr ()" "content s' = \<lparr>abs_zones = abs_zones (content s) - {z},
                       abs_records = {r \<in> abs_records (content s). rec_Zone r \<noteq> z}\<rparr>"
    using sim(2) by (simp_all add: spec_DeleteZone_def normal_zoneD [OF nz])
  with op sim(1) show thesis by (intro that) (auto simp: mgr_DeleteZone_def assms(3))
qed

lemma ListZones_names:
  assumes "invar s"
  shows "\<exists>zs. mgr_ListZones (mgr_of R) s = Inr zs \<and> map zone_Name zs = sorted_list_of_set (abs_zones (content s))"
  using ListZones [OF assms] by (auto simp: mgr_ListZones_def comp_def)

lemma GetZone_spec:
  assumes "invar s" and "NormalizeZoneName E name = Inr z"
  shows "mgr_GetZone E (mgr_of R) name s = Inr (if z \<in> abs_zones (content s) then Some \<lparr>zone_Name = z\<rparr> else None)"
proof -
  obtain zs where zs: "mgr_ListZones (mgr_of R) s = Inr zs" "map zone_Name zs = sorted_list_of_set (abs_zones (content s))"
    using ListZones_names [OF assms(1)] by blast
  have names: "zone_Name ` set zs = abs_zones (content s)"
    using zs(2) finite_zones [OF assms(1)] by (metis list.set_map set_sorted_list_of_set)
  have "List.find (\<lambda>zone. zone_Name zone = z) zs =
      (if z \<in> zone_Name ` set zs then Some \<lparr>zone_Name = z\<rparr> else None)"
    by (induction zs) auto
  then show ?thesis by (simp add: mgr_GetZone_def assms(2) zs(1) names)
qed

lemma GetZoneSnapshot_spec:
  assumes "invar s" and "plain name" and "NormalizeZoneName E name = Inr z"
  shows "if z \<in> abs_zones (content s)
    then \<exists>rs. mgr_GetZoneSnapshot E (mgr_of R) name s = Inr (Some (buildZoneSnapshot z rs)) \<and>
      enumerates rs (zone_records z (content s))
    else mgr_GetZoneSnapshot E (mgr_of R) name s = Inr None"
proof -
  have "normal_zone E z" by (rule normal_zone_NormalizeZoneName [OF names_ok [OF assms(1)] assms(2,3)])
  from ListRecords_zone [OF assms(1) this] show ?thesis
    by (auto simp: mgr_GetZoneSnapshot_def GetZone_spec [OF assms(1,3)] enumerates_def)
qed

end

section \<open>Histories of manager calls\<close>

text \<open>What every deletion does: the invariant holds after it and no record is new.\<close>

definition shrinks :: "('s \<Rightarrow> bool) \<Rightarrow> ('s \<Rightarrow> abs_store) \<Rightarrow> 's \<Rightarrow> 's \<Rightarrow> bool" where
  "shrinks invar content s s' \<longleftrightarrow> invar s' \<and> abs_records (content s') \<subseteq> abs_records (content s)"

lemma shrinks_valid: "shrinks invar content s s' \<Longrightarrow> all_valid (content s) \<Longrightarrow> invar s' \<and> all_valid (content s')"
  by (auto simp: shrinks_def intro: all_valid_subset)

text \<open>
  The states a manager can bring its store into from \<open>s0\<close> by calls with plain names, whether they
  succeed or fail.
\<close>

inductive mgr_reach ::
  "'x names_pkg_scheme \<Rightarrow> 'o set_pkg \<Rightarrow> 's Manager option \<Rightarrow> 's \<Rightarrow> 's \<Rightarrow> bool"
  for E :: "'x names_pkg_scheme" and OS :: "'o set_pkg" and m :: "'s Manager option" and s0 :: 's
where
  start: "mgr_reach E OS m s0 s0"
| upsert_zone: "mgr_reach E OS m s0 s \<Longrightarrow> plain (zone_Name zone) \<Longrightarrow> mgr_reach E OS m s0 (snd (mgr_UpsertZone E m zone s))"
| delete_zone: "mgr_reach E OS m s0 s \<Longrightarrow> plain zn \<Longrightarrow> mgr_reach E OS m s0 (snd (mgr_DeleteZone E m zn s))"
| upsert_record: "mgr_reach E OS m s0 s \<Longrightarrow> plain_record r \<Longrightarrow> mgr_reach E OS m s0 (snd (mgr_UpsertRecord E OS m r s))"
| delete_record: "mgr_reach E OS m s0 s \<Longrightarrow> plain_record r \<Longrightarrow> mgr_reach E OS m s0 (snd (mgr_DeleteRecord E m r s))"
| upsert_rrset: "mgr_reach E OS m s0 s \<Longrightarrow> plain zn \<Longrightarrow> plain name \<Longrightarrow> list_all plain_record rs \<Longrightarrow>
    mgr_reach E OS m s0 (snd (mgr_UpsertRRSet E OS m zn name rrtype rs s))"
| delete_rrset: "mgr_reach E OS m s0 s \<Longrightarrow> plain zn \<Longrightarrow> plain name \<Longrightarrow>
    mgr_reach E OS m s0 (snd (mgr_DeleteRRSet E m zn name rrtype s))"
| delete_name: "mgr_reach E OS m s0 s \<Longrightarrow> plain zn \<Longrightarrow> plain name \<Longrightarrow>
    mgr_reach E OS m s0 (snd (mgr_DeleteName E m zn name s))"

context repository
begin

lemma mgr_errors:
  "NormalizeZoneName E (zone_Name zone) = Inl err \<Longrightarrow> mgr_UpsertZone E (mgr_of R) zone s = (Inl err, s)"
  "NormalizeZoneName E zn = Inl err \<Longrightarrow> mgr_DeleteZone E (mgr_of R) zn s = (Inl err, s)"
  "NormalizeRecord E r = Inl err \<Longrightarrow> mgr_DeleteRecord E (mgr_of R) r s = (Inl err, s)"
  "normalizeRRSetLookup E zn name = Inl err \<Longrightarrow> mgr_DeleteRRSet E (mgr_of R) zn name t s = (Inl err, s)"
  "normalizeRRSetLookup E zn name = Inl err \<Longrightarrow> mgr_DeleteName E (mgr_of R) zn name s = (Inl err, s)"
  by (simp_all add: mgr_UpsertZone_def mgr_DeleteZone_def mgr_DeleteRecord_def mgr_DeleteRRSet_def mgr_DeleteName_def)

lemma deletions_shrink:
  assumes "invar s"
  shows "plain (zone_Name zone) \<Longrightarrow> shrinks invar content s (snd (mgr_UpsertZone E (mgr_of R) zone s))"
    and "plain zn \<Longrightarrow> shrinks invar content s (snd (mgr_DeleteZone E (mgr_of R) zn s))"
    and "plain_record r \<Longrightarrow> shrinks invar content s (snd (mgr_DeleteRecord E (mgr_of R) r s))"
    and "plain zn \<Longrightarrow> plain name \<Longrightarrow> shrinks invar content s (snd (mgr_DeleteRRSet E (mgr_of R) zn name t s))"
    and "plain zn \<Longrightarrow> plain name \<Longrightarrow> shrinks invar content s (snd (mgr_DeleteName E (mgr_of R) zn name s))"
proof -
  have refl: "shrinks invar content s s" using assms by (simp add: shrinks_def)
  show "shrinks invar content s (snd (mgr_UpsertZone E (mgr_of R) zone s))" if "plain (zone_Name zone)"
  proof (cases "NormalizeZoneName E (zone_Name zone)")
    case (Inr z)
    show ?thesis by (rule UpsertZone_spec [OF assms that Inr]) (simp add: shrinks_def)
  qed (simp add: mgr_errors refl)
  show "shrinks invar content s (snd (mgr_DeleteZone E (mgr_of R) zn s))" if "plain zn"
  proof (cases "NormalizeZoneName E zn")
    case (Inr z)
    show ?thesis by (rule DeleteZone_spec [OF assms that Inr]) (simp add: shrinks_def)
  qed (simp add: mgr_errors refl)
  show "shrinks invar content s (snd (mgr_DeleteRecord E (mgr_of R) r s))" if "plain_record r"
  proof (cases "NormalizeRecord E r")
    case (Inr n)
    show ?thesis by (rule DeleteRecord_spec [OF assms that Inr]) (simp add: shrinks_def del_record_def)
  qed (simp add: mgr_errors refl)
  show "shrinks invar content s (snd (mgr_DeleteRRSet E (mgr_of R) zn name t s))" if "plain zn" "plain name"
  proof (cases "normalizeRRSetLookup E zn name")
    case (Inr p)
    then have "normalizeRRSetLookup E zn name = Inr (fst p, snd p)" by simp
    from DeleteRRSet_exact [OF assms that this, of t] show ?thesis by (elim exE conjE) (auto simp: shrinks_def)
  qed (simp add: mgr_errors refl)
  show "shrinks invar content s (snd (mgr_DeleteName E (mgr_of R) zn name s))" if "plain zn" "plain name"
  proof (cases "normalizeRRSetLookup E zn name")
    case (Inr p)
    then have "normalizeRRSetLookup E zn name = Inr (fst p, snd p)" by simp
    from DeleteName_exact [OF assms that this] show ?thesis by (elim exE conjE) (auto simp: shrinks_def)
  qed (simp add: mgr_errors refl)
qed

lemma UpsertRRSet_invar:
  assumes "invar s" and "set_pkg_ok OS" and "plain zn" and "plain name" and "list_all plain_record rs"
    and "all_valid (content s)"
  shows "invar (snd (mgr_UpsertRRSet E OS (mgr_of R) zn name t rs s)) \<and>
    all_valid (content (snd (mgr_UpsertRRSet E OS (mgr_of R) zn name t rs s)))"
proof -
  obtain res s' where op: "mgr_UpsertRRSet E OS (mgr_of R) zn name t rs s = (res, s')"
    by (cases "mgr_UpsertRRSet E OS (mgr_of R) zn name t rs s")
  from assms(1-5) op have "invar s' \<and> all_valid (content s')"
  proof (cases rule: UpsertRRSet_cases)
    case (replaced z n rs')
    have "zone_valid y False (zone_records y (content s'))" for y
    proof (cases "y = z")
      case False
      from normalizeRRSetRecords_normal [OF names_ok [OF assms(1)] assms(2-5) replaced(2)] replaced(3)
      have "\<And>r. r \<in> set rs' \<Longrightarrow> rec_Zone r = z" by (metis Inr_inject prod.inject)
      with False have "zone_records y (content s') \<subseteq> zone_records y (content s)"
        by (auto simp: zone_records_def replaced(6))
      then show ?thesis using assms(6) by (auto simp: all_valid_def intro: zone_valid_mono)
    qed (use replaced(7) in simp)
    then show ?thesis using replaced(4) by (simp add: all_valid_def)
  qed (use assms in auto)
  with op show ?thesis by simp
qed

lemma mgr_reach_valid:
  assumes "invar s0" and "set_pkg_ok OS" and "all_valid (content s0)" and "mgr_reach E OS (mgr_of R) s0 s"
  shows "invar s \<and> all_valid (content s)"
  using assms(4)
proof (induction rule: mgr_reach.induct)
  case (upsert_record s r)
  then show ?case using UpsertRecord_invar [OF _ assms(2), of s r] by (metis prod.collapse)
next
  case (upsert_rrset s zn name rs rrtype)
  then show ?case using UpsertRRSet_invar [OF _ assms(2)] by simp
qed (simp_all add: assms deletions_shrink [THEN shrinks_valid])

end

section \<open>Properties\<close>

text \<open>
  The properties are stated for a manager on the memory store, in the content of the store; the
  lemmas they apply hold for every back end that meets the contract.
\<close>

abbreviation mem_mgr ::
  "'x names_pkg_scheme \<Rightarrow> ('z, 't) mapping_pkg \<Rightarrow> ('z, 't) MemoryStore Manager option" where
  "mem_mgr E M \<equiv> mgr_of (memory_repo E M)"

abbreviation sample_mgr where
  "sample_mgr \<equiv> mem_mgr names_ref mapping_ref"




definition sample_state where
  "sample_state = snd (mgr_UpsertRecord names_ref set_ref sample_mgr sample_raw (NewMemoryStore mapping_ref))"

lemma sample_state_inv: "mem_inv names_ref mapping_ref sample_state"
  using mem.UpsertRecord_invar [OF mem_inv_New [OF names_ref_ok mapping_ref_ok] set_ref_ok sample_plain prod.collapse [symmetric]]
  by (simp add: sample_state_def)

definition new_rrset :: "Record list" where
  "new_rrset = [sample_record\<lparr>rec_Zone := [], rec_Name := [], rec_Data := ''192.0.2.20''\<rparr>,
     sample_record\<lparr>rec_Data := ''192.0.2.10''\<rparr>]"


text \<open>
  C35: \<^verbatim>\<open>UpsertRecord\<close> of a record that can be normalised is accepted exactly when the zone it would
  leave meets the rules; it then replaces the record of the same key, or adds it, and nothing
  else. Otherwise the store is as it was.
\<close>

theorem UpsertRecord_accepts_valid_zones:
  assumes "mem_inv E M s" and "set_pkg_ok OS" and "plain_record r" and "NormalizeRecord E r = Inr n"
    and "mgr_UpsertRecord E OS (mem_mgr E M) r s = (res, s')"
  shows "if zone_valid (rec_Zone n) False
        {v \<in> put_record E n (abs_records (mem_content M s)). rec_Zone v = rec_Zone n}
    then res = Inr n \<and> mem_inv E M s' \<and>
      abs_zones (mem_content M s') = insert (rec_Zone n) (abs_zones (mem_content M s)) \<and>
      abs_records (mem_content M s') = put_record E n (abs_records (mem_content M s))
    else (\<exists>err. res = Inl err) \<and> s' = s"
proof -
  let ?valid = "zone_valid (rec_Zone n) False (zone_records (rec_Zone n) (put_content E n (mem_content M s)))"
  show ?thesis
  proof (cases ?valid)
    case True
    from mem.UpsertRecord_accepts [OF assms(1-4) True] assms(5)
    have "res = Inr n" "mem_inv E M s'" "mem_content M s' = put_content E n (mem_content M s)" by (metis prod.inject)+
    with True show ?thesis by (simp add: zone_records_def put_content_def)
  next
    case False
    with mem.UpsertRecord_rejects [OF assms(1-4) False] assms(5) show ?thesis
      by (auto simp: zone_records_def put_content_def)
  qed
qed

theorem UpsertRecord_accepts_valid_zones_witness:
  "snd (mgr_UpsertRecord names_ref set_ref sample_mgr
      (sample_raw\<lparr>rec_Type := TypeCNAME, rec_Data := ''example.org''\<rparr>) sample_state) = sample_state"
proof -
  let ?r = "sample_raw\<lparr>rec_Type := TypeCNAME, rec_Data := ''example.org''\<rparr>"
  let ?n = "sample_record\<lparr>rec_Type := TypeCNAME, rec_Data := ''example.org''\<rparr>"
  have p: "plain_record ?r" by code_simp
  have n: "NormalizeRecord names_ref ?r = Inr ?n" by code_simp
  have "fst (mgr_UpsertRecord names_ref set_ref sample_mgr ?r sample_state) =
      Inl (Coded CodeZoneCNAMEConflict ErrCNAMEConflict)" by code_simp
  with UpsertRecord_accepts_valid_zones [OF sample_state_inv set_ref_ok p n prod.collapse [symmetric]]
  show ?thesis by (auto split: if_splits)
qed

text \<open>
  \<^verbatim>\<open>DeleteRRSet\<close> and \<^verbatim>\<open>DeleteName\<close> delete exactly the records of the name (and type), of every
  class, return how many there were, and never stop half way.
\<close>

theorem DeleteRRSet_DeleteName_exact:
  assumes "mem_inv E M s" and "plain zone" and "plain name" and "normalizeRRSetLookup E zone name = Inr (z, n)"
  shows "let a = mem_content M s; hit = lookup_set z n rrtype ClassANY a; all = lookup_set z n TypeANY ClassANY a in
    (\<exists>s'. mgr_DeleteRRSet E (mem_mgr E M) zone name rrtype s = (Inr (card hit), s') \<and> mem_inv E M s' \<and>
       mem_content M s' = a\<lparr>abs_records := abs_records a - hit\<rparr>) \<and>
    (\<exists>s'. mgr_DeleteName E (mem_mgr E M) zone name s = (Inr (card all), s') \<and> mem_inv E M s' \<and>
       mem_content M s' = a\<lparr>abs_records := abs_records a - all\<rparr>)"
  unfolding Let_def
  by (intro conjI mem.DeleteRRSet_exact [OF assms] mem.DeleteName_exact [OF assms])

theorem DeleteRRSet_DeleteName_exact_witness:
  "fst (mgr_DeleteRRSet names_ref sample_mgr ''example.org'' ''WWW.example.org'' TypeAAAA sample_state) = Inr 0 \<and>
   fst (mgr_DeleteName names_ref sample_mgr ''example.org'' ''WWW.example.org'' sample_state) = Inr 1 \<and>
   card (lookup_set ''example.org.'' ''www.example.org.'' TypeANY ClassANY (mem_content mapping_ref sample_state)) = 1"
proof -
  have p: "plain ''example.org''" "plain ''WWW.example.org''" by code_simp+
  have l: "normalizeRRSetLookup names_ref ''example.org'' ''WWW.example.org'' = Inr (''example.org.'', ''www.example.org.'')"
    by code_simp
  note exact = DeleteRRSet_DeleteName_exact [OF sample_state_inv p l, of TypeAAAA, unfolded Let_def]
  have "fst (mgr_DeleteRRSet names_ref sample_mgr ''example.org'' ''WWW.example.org'' TypeAAAA sample_state) = Inr 0"
    "fst (mgr_DeleteName names_ref sample_mgr ''example.org'' ''WWW.example.org'' sample_state) = Inr 1" by code_simp+
  with exact show ?thesis by (metis One_nat_def fst_conv sum.inject(2))
qed

text \<open>
  \<^verbatim>\<open>GetZoneSnapshot\<close> of a known zone is the snapshot of exactly the stored records of that zone,
  each once; of an unknown zone it is none.
\<close>

theorem GetZoneSnapshot_complete:
  assumes "mem_inv E M s" and "plain name" and "NormalizeZoneName E name = Inr z"
  shows "if z \<in> abs_zones (mem_content M s)
    then \<exists>snapshot. mgr_GetZoneSnapshot E (mem_mgr E M) name s = Inr (Some snapshot) \<and>
      zone_Name (snap_Zone snapshot) = z \<and> distinct (snap_Records snapshot) \<and>
      set (snap_Records snapshot) = {r \<in> abs_records (mem_content M s). rec_Zone r = z} \<and>
      mset (concat (map rrs_Records (snap_RRSets snapshot))) = mset (snap_Records snapshot)
    else mgr_GetZoneSnapshot E (mem_mgr E M) name s = Inr None"
proof (cases "z \<in> abs_zones (mem_content M s)")
  case True
  with mem.GetZoneSnapshot_spec [OF assms] obtain rs where
    "mgr_GetZoneSnapshot E (mem_mgr E M) name s = Inr (Some (buildZoneSnapshot z rs))"
    "enumerates rs (zone_records z (mem_content M s))" by auto
  with True show ?thesis
    by (simp add: buildZoneSnapshot_def Let_def enumerates_def zone_records_def by_record.distinct_SortFunc mset_buildRRSets
        del: mset_concat)
qed (use mem.GetZoneSnapshot_spec [OF assms] in simp)

theorem GetZoneSnapshot_complete_witness:
  "\<exists>snapshot. mgr_GetZoneSnapshot names_ref sample_mgr '' EXAMPLE.org'' sample_state = Inr (Some snapshot) \<and>
     snap_Records snapshot = [sample_record] \<and>
     {r \<in> abs_records (mem_content mapping_ref sample_state). rec_Zone r = ''example.org.''} = {sample_record}"
proof -
  have p: "plain '' EXAMPLE.org''" by code_simp
  have z: "NormalizeZoneName names_ref '' EXAMPLE.org'' = Inr ''example.org.''" by code_simp
  let ?g = "mgr_GetZoneSnapshot names_ref sample_mgr '' EXAMPLE.org'' sample_state"
  have "(case ?g of Inr (Some snapshot) \<Rightarrow> snap_Records snapshot | _ \<Rightarrow> []) = [sample_record]" by code_simp
  then obtain snapshot where "?g = Inr (Some snapshot)" "snap_Records snapshot = [sample_record]"
    by (auto split: sum.splits option.splits)
  with GetZoneSnapshot_complete [OF sample_state_inv p z] show ?thesis
    by (auto split: if_splits)
qed

text \<open>
  A manager without a repository, or no manager, refuses every call with the code
  \<^verbatim>\<open>repository_not_configured\<close> and changes nothing.
\<close>

theorem Manager_requires_repository:
  assumes "m = None \<or> m = Some (NewManager None)"
  shows "let unset = Coded CodeRepositoryNotConfigured ErrRepositoryNotConfigured in
     mgr_UpsertZone E m zone s = (Inl unset, s) \<and> mgr_DeleteZone E m zn s = (Inl unset, s) \<and>
     mgr_UpsertRecord E OS m r s = (Inl unset, s) \<and> mgr_DeleteRecord E m r s = (Inl unset, s) \<and>
     mgr_UpsertRRSet E OS m zn name t rs s = (Inl unset, s) \<and> mgr_DeleteRRSet E m zn name t s = (Inl unset, s) \<and>
     mgr_DeleteName E m zn name s = (Inl unset, s) \<and> mgr_ListZones m s = Inl unset \<and>
     mgr_ListRecords E m flt s = Inl unset \<and> mgr_GetZoneSnapshot E m name s = Inl unset \<and>
     mgr_ListRRSets E m zn name s = Inl unset"
  using assms
  by (auto simp: Let_def mgr_UpsertZone_def mgr_DeleteZone_def mgr_UpsertRecord_def mgr_DeleteRecord_def
      mgr_UpsertRRSet_def mgr_DeleteRRSet_def mgr_DeleteName_def mgr_ListZones_def mgr_ListRecords_def
      mgr_GetZoneSnapshot_def mgr_ListRRSets_def)

theorem Manager_requires_repository_witness:
  "mgr_ListZones (Some (NewManager None)) sample_state =
     Inl (Coded CodeRepositoryNotConfigured ErrRepositoryNotConfigured)"
  using Manager_requires_repository [where m = "Some (NewManager None)" and s = sample_state and E = names_ref and OS = set_ref]
  by (simp only: Let_def simp_thms)

end
