(* ===== verification/Manager_Change.thy ===== *)
theory Manager_Change
  imports Manager
begin

text \<open>
  Batches of changes: \<^verbatim>\<open>dnsserver/manager_change.go\<close> and the previews of \<^verbatim>\<open>manager_validation.go\<close>. A
  batch is first run on copies of the records of the zones it touches (the preview), the zones
  it leaves there are validated, and then it is applied change by change.
\<close>

section \<open>Changes\<close>

datatype ChangeKind =
    ChangeUpsertZone | ChangeDeleteZone | ChangeUpsertRecord | ChangeDeleteRecord
  | ChangeUpsertRRSet | ChangeDeleteRRSet | ChangeDeleteName | ChangeOther string

record Change =
  chg_Kind :: ChangeKind
  chg_Zone :: Zone
  chg_ZoneName :: string
  chg_Record :: Record
  chg_Records :: "Record list"
  chg_Name :: string
  chg_Type :: uint16

record ChangeResult =
  res_Applied :: nat
  res_ZonesUpserted :: nat
  res_ZonesDeleted :: nat
  res_RecordsUpserted :: nat
  res_RecordsDeleted :: nat

record ChangePreview =
  prv_Changes :: nat
  prv_Zones :: "ZoneSnapshot list"
  prv_DeletedZones :: "string list"

definition zoneName :: "Change \<Rightarrow> string" where
  "zoneName change = (if zone_Name (chg_Zone change) \<noteq> [] then zone_Name (chg_Zone change) else chg_ZoneName change)"

definition normalizeChangeZone :: "'x names_pkg_scheme \<Rightarrow> Change \<Rightarrow> error + string" where
  "normalizeChangeZone E change =
     (if zone_Name (chg_Zone change) \<noteq> [] then NormalizeZoneName E (zone_Name (chg_Zone change))
      else if chg_ZoneName change \<noteq> [] then NormalizeZoneName E (chg_ZoneName change)
      else if rec_Zone (chg_Record change) \<noteq> [] then NormalizeZoneName E (rec_Zone (chg_Record change))
      else
        case chg_Records change of
          [] \<Rightarrow> Inl (Coded CodeZoneNameRequired ErrZoneNameRequired)
        | record # _ \<Rightarrow>
           (if rec_Zone record \<noteq> [] then NormalizeZoneName E (rec_Zone record)
            else Inl (Coded CodeZoneNameRequired ErrZoneNameRequired)))"

section \<open>Preview\<close>

record previewZoneState =
  pz_exists :: bool
  pz_records :: "Record list"

definition applyUpsertRecordPreview ::
  "'x names_pkg_scheme \<Rightarrow> 'o set_pkg \<Rightarrow> previewZoneState \<Rightarrow> Change \<Rightarrow> error + previewZoneState" where
  "applyUpsertRecordPreview E OS state change =
     (case NormalizeRecord E (chg_Record change) of
        Inl err \<Rightarrow> Inl err
      | Inr record \<Rightarrow>
          Inr (state\<lparr>pz_exists := True, pz_records := upsertRecords E OS (pz_records state) [record]\<rparr>))"

definition applyDeleteRecordPreview ::
  "'x names_pkg_scheme \<Rightarrow> previewZoneState \<Rightarrow> Change \<Rightarrow> error + previewZoneState" where
  "applyDeleteRecordPreview E state change =
     (case NormalizeRecord E (chg_Record change) of
        Inl err \<Rightarrow> Inl err
      | Inr record \<Rightarrow>
          Inr (state\<lparr>pz_records := removeRecords (pz_records state) (\<lambda>candidate. Key E candidate = Key E record)\<rparr>))"

definition applyUpsertRRSetPreview ::
  "'x names_pkg_scheme \<Rightarrow> 'o set_pkg \<Rightarrow> previewZoneState \<Rightarrow> string \<Rightarrow> Change \<Rightarrow> error + previewZoneState" where
  "applyUpsertRRSetPreview E OS state zone change =
     (case normalizeRRSetRecords E OS zone (chg_Name change) (chg_Type change) (chg_Records change) of
        Inl err \<Rightarrow> Inl err
      | Inr [] \<Rightarrow> Inl (Panic ''index out of range'')
      | Inr (target # rest) \<Rightarrow>
          Inr (state\<lparr>pz_exists := True,
                pz_records := replaceRRSet E OS target (target # rest) (pz_records state)\<rparr>))"

definition applyDeleteRRSetPreview ::
  "'x names_pkg_scheme \<Rightarrow> previewZoneState \<Rightarrow> string \<Rightarrow> Change \<Rightarrow> error + previewZoneState" where
  "applyDeleteRRSetPreview E state zone change =
     (case normalizeRRSetLookup E zone (chg_Name change) of
        Inl err \<Rightarrow> Inl err
      | Inr (normalizedZone, normalizedName) \<Rightarrow>
          Inr (state\<lparr>pz_records := removeRecords (pz_records state) (\<lambda>record.
                rec_Zone record = normalizedZone \<and> rec_Name record = normalizedName \<and>
                rec_Type record = chg_Type change)\<rparr>))"

definition applyDeleteNamePreview ::
  "'x names_pkg_scheme \<Rightarrow> previewZoneState \<Rightarrow> string \<Rightarrow> Change \<Rightarrow> error + previewZoneState" where
  "applyDeleteNamePreview E state zone change =
     (case normalizeRRSetLookup E zone (chg_Name change) of
        Inl err \<Rightarrow> Inl err
      | Inr (normalizedZone, normalizedName) \<Rightarrow>
          Inr (state\<lparr>pz_records := removeRecords (pz_records state) (\<lambda>record.
                rec_Zone record = normalizedZone \<and> rec_Name record = normalizedName)\<rparr>))"

definition applyChangePreview ::
  "'x names_pkg_scheme \<Rightarrow> 'o set_pkg \<Rightarrow> previewZoneState \<Rightarrow> string \<Rightarrow> Change \<Rightarrow> error + previewZoneState" where
  "applyChangePreview E OS state zone change =
     (case chg_Kind change of
        ChangeUpsertZone \<Rightarrow> Inr (state\<lparr>pz_exists := True\<rparr>)
      | ChangeDeleteZone \<Rightarrow> Inr (state\<lparr>pz_exists := False, pz_records := []\<rparr>)
      | ChangeUpsertRecord \<Rightarrow> applyUpsertRecordPreview E OS state change
      | ChangeDeleteRecord \<Rightarrow> applyDeleteRecordPreview E state change
      | ChangeUpsertRRSet \<Rightarrow> applyUpsertRRSetPreview E OS state zone change
      | ChangeDeleteRRSet \<Rightarrow> applyDeleteRRSetPreview E state zone change
      | ChangeDeleteName \<Rightarrow> applyDeleteNamePreview E state zone change
      | ChangeOther kind \<Rightarrow> Inl (Uncoded ''unsupported change kind''))"

text \<open>
  The Go map of pointers to preview states is a map from zones to states; a step updates the
  state of its zone in it.
\<close>

definition loadPreviewZoneState ::
  "'x names_pkg_scheme \<Rightarrow> 's Manager option \<Rightarrow> (string \<rightharpoonup> previewZoneState) \<Rightarrow> string \<Rightarrow> 's \<Rightarrow>
     error + previewZoneState" where
  "loadPreviewZoneState E m states zone s =
     (case states zone of
        Some state \<Rightarrow> Inr state
      | None \<Rightarrow>
         (case mgr_HasZone E m zone s of
            Inl err \<Rightarrow> Inl err
          | Inr exists \<Rightarrow>
             (case mgr_ListRecords E m (zone_filter zone) s of
                Inl err \<Rightarrow> Inl err
              | Inr records \<Rightarrow> Inr \<lparr>pz_exists = exists, pz_records = records\<rparr>)))"

definition previewSingleChange ::
  "'x names_pkg_scheme \<Rightarrow> 'o set_pkg \<Rightarrow> 's Manager option \<Rightarrow> Change \<Rightarrow> 's \<Rightarrow>
     (string \<rightharpoonup> previewZoneState) \<times> 'o \<Rightarrow> error + ((string \<rightharpoonup> previewZoneState) \<times> 'o)" where
  "previewSingleChange E OS m change s = (\<lambda>(states, touchedZones).
     (case normalizeChangeZone E change of
        Inl err \<Rightarrow> Inl err
      | Inr normalizedZone \<Rightarrow>
         (case loadPreviewZoneState E m states normalizedZone s of
            Inl err \<Rightarrow> Inl err
          | Inr state \<Rightarrow>
             (case applyChangePreview E OS state normalizedZone change of
                Inl err \<Rightarrow> Inl err
              | Inr state' \<Rightarrow>
                  Inr (states(normalizedZone \<mapsto> state'), oset_Add OS normalizedZone touchedZones)))))"

fun previewChanges ::
  "'x names_pkg_scheme \<Rightarrow> 'o set_pkg \<Rightarrow> 's Manager option \<Rightarrow> Change list \<Rightarrow> 's \<Rightarrow>
     (string \<rightharpoonup> previewZoneState) \<times> 'o \<Rightarrow> error + ((string \<rightharpoonup> previewZoneState) \<times> 'o)" where
  "previewChanges E OS m [] s st = Inr st"
| "previewChanges E OS m (change # changes) s st =
     (case previewSingleChange E OS m change s st of
        Inl err \<Rightarrow> Inl err
      | Inr st' \<Rightarrow> previewChanges E OS m changes s st')"

fun validatePreviewZones ::
  "'x names_pkg_scheme \<Rightarrow> (string \<rightharpoonup> previewZoneState) \<Rightarrow> string list \<Rightarrow> error + unit" where
  "validatePreviewZones E states [] = Inr ()"
| "validatePreviewZones E states (zone # zones) =
     (case states zone of
        None \<Rightarrow> validatePreviewZones E states zones
      | Some state \<Rightarrow>
         (if \<not> pz_exists state \<or> length (pz_records state) = 0 then validatePreviewZones E states zones
          else
            case snapshot_Validate E (buildZoneSnapshot zone (pz_records state)) of
              Inl err \<Rightarrow> Inl err
            | Inr _ \<Rightarrow> validatePreviewZones E states zones))"

definition validatePreviewZoneStates ::
  "'x names_pkg_scheme \<Rightarrow> 'o set_pkg \<Rightarrow> (string \<rightharpoonup> previewZoneState) \<times> 'o \<Rightarrow> error + unit" where
  "validatePreviewZoneStates E OS = (\<lambda>(states, touchedZones).
     validatePreviewZones E states (oset_Values OS touchedZones))"

fun addPreviewZones ::
  "(string \<rightharpoonup> previewZoneState) \<Rightarrow> string list \<Rightarrow> ChangePreview \<Rightarrow> ChangePreview" where
  "addPreviewZones states [] preview = preview"
| "addPreviewZones states (zone # zones) preview =
     addPreviewZones states zones
       (case states zone of
          None \<Rightarrow> preview
        | Some state \<Rightarrow>
           (if \<not> pz_exists state then preview\<lparr>prv_DeletedZones := prv_DeletedZones preview @ [zone]\<rparr>
            else preview\<lparr>prv_Zones := prv_Zones preview @ [buildZoneSnapshot zone (pz_records state)]\<rparr>))"

definition buildChangePreview ::
  "'o set_pkg \<Rightarrow> Change list \<Rightarrow> (string \<rightharpoonup> previewZoneState) \<times> 'o \<Rightarrow> ChangePreview" where
  "buildChangePreview OS changes = (\<lambda>(states, touchedZones).
     addPreviewZones states (oset_Values OS touchedZones)
       \<lparr>prv_Changes = length changes, prv_Zones = [], prv_DeletedZones = []\<rparr>)"

definition previewValidatedChanges ::
  "'x names_pkg_scheme \<Rightarrow> 'o set_pkg \<Rightarrow> 's Manager option \<Rightarrow> Change list \<Rightarrow> 's \<Rightarrow> error + ChangePreview" where
  "previewValidatedChanges E OS m changes s =
     (case previewChanges E OS m changes s (Map.empty, oset_new OS) of
        Inl err \<Rightarrow> Inl err
      | Inr st \<Rightarrow>
         (case validatePreviewZoneStates E OS st of
            Inl err \<Rightarrow> Inl err
          | Inr _ \<Rightarrow> Inr (buildChangePreview OS changes st)))"

definition ValidateChanges ::
  "'x names_pkg_scheme \<Rightarrow> 'o set_pkg \<Rightarrow> 's Manager option \<Rightarrow> Change list \<Rightarrow> 's \<Rightarrow> error + unit" where
  "ValidateChanges E OS m changes s =
     (case requireRepository m of
        Inl err \<Rightarrow> Inl err
      | Inr _ \<Rightarrow>
         (case previewValidatedChanges E OS m changes s of
            Inl err \<Rightarrow> Inl err
          | Inr _ \<Rightarrow> Inr ()))"

definition PreviewChanges ::
  "'x names_pkg_scheme \<Rightarrow> 'o set_pkg \<Rightarrow> 's Manager option \<Rightarrow> Change list \<Rightarrow> 's \<Rightarrow> error + ChangePreview" where
  "PreviewChanges E OS m changes s =
     (case requireRepository m of
        Inl err \<Rightarrow> Inl err
      | Inr _ \<Rightarrow> previewValidatedChanges E OS m changes s)"

section \<open>Application\<close>

definition applyUpsertZoneChange ::
  "'x names_pkg_scheme \<Rightarrow> 's Manager option \<Rightarrow> Change \<Rightarrow> ChangeResult \<Rightarrow> (error, ChangeResult, 's) action" where
  "applyUpsertZoneChange E m change result s =
     (case mgr_UpsertZone E m \<lparr>zone_Name = zoneName change\<rparr> s of
        (Inl err, s') \<Rightarrow> (Inl err, s')
      | (Inr _, s') \<Rightarrow>
          (Inr (result\<lparr>res_Applied := res_Applied result + 1,
                 res_ZonesUpserted := res_ZonesUpserted result + 1\<rparr>), s'))"

definition applyDeleteZoneChange ::
  "'x names_pkg_scheme \<Rightarrow> 's Manager option \<Rightarrow> Change \<Rightarrow> ChangeResult \<Rightarrow> (error, ChangeResult, 's) action" where
  "applyDeleteZoneChange E m change result s =
     (case mgr_DeleteZone E m (zoneName change) s of
        (Inl err, s') \<Rightarrow> (Inl err, s')
      | (Inr _, s') \<Rightarrow>
          (Inr (result\<lparr>res_Applied := res_Applied result + 1,
                 res_ZonesDeleted := res_ZonesDeleted result + 1\<rparr>), s'))"

definition applyUpsertRecordChange ::
  "'x names_pkg_scheme \<Rightarrow> 'o set_pkg \<Rightarrow> 's Manager option \<Rightarrow> Change \<Rightarrow> ChangeResult \<Rightarrow> (error, ChangeResult, 's) action" where
  "applyUpsertRecordChange E OS m change result s =
     (case mgr_UpsertRecord E OS m (chg_Record change) s of
        (Inl err, s') \<Rightarrow> (Inl err, s')
      | (Inr _, s') \<Rightarrow>
          (Inr (result\<lparr>res_Applied := res_Applied result + 1,
                 res_RecordsUpserted := res_RecordsUpserted result + 1\<rparr>), s'))"

definition applyDeleteRecordChange ::
  "'x names_pkg_scheme \<Rightarrow> 's Manager option \<Rightarrow> Change \<Rightarrow> ChangeResult \<Rightarrow> (error, ChangeResult, 's) action" where
  "applyDeleteRecordChange E m change result s =
     (case mgr_DeleteRecord E m (chg_Record change) s of
        (Inl err, s') \<Rightarrow> (Inl err, s')
      | (Inr _, s') \<Rightarrow>
          (Inr (result\<lparr>res_Applied := res_Applied result + 1,
                 res_RecordsDeleted := res_RecordsDeleted result + 1\<rparr>), s'))"

definition applyUpsertRRSetChange ::
  "'x names_pkg_scheme \<Rightarrow> 'o set_pkg \<Rightarrow> 's Manager option \<Rightarrow> Change \<Rightarrow> ChangeResult \<Rightarrow> (error, ChangeResult, 's) action" where
  "applyUpsertRRSetChange E OS m change result s =
     (case mgr_UpsertRRSet E OS m (zoneName change) (chg_Name change) (chg_Type change) (chg_Records change) s of
        (Inl err, s') \<Rightarrow> (Inl err, s')
      | (Inr records, s') \<Rightarrow>
          (Inr (result\<lparr>res_Applied := res_Applied result + 1,
                 res_RecordsUpserted := res_RecordsUpserted result + length records\<rparr>), s'))"

definition applyDeleteRRSetChange ::
  "'x names_pkg_scheme \<Rightarrow> 's Manager option \<Rightarrow> Change \<Rightarrow> ChangeResult \<Rightarrow> (error, ChangeResult, 's) action" where
  "applyDeleteRRSetChange E m change result s =
     (case mgr_DeleteRRSet E m (zoneName change) (chg_Name change) (chg_Type change) s of
        (Inl err, s') \<Rightarrow> (Inl err, s')
      | (Inr deleted, s') \<Rightarrow>
          (Inr (result\<lparr>res_Applied := res_Applied result + 1,
                 res_RecordsDeleted := res_RecordsDeleted result + deleted\<rparr>), s'))"

definition applyDeleteNameChange ::
  "'x names_pkg_scheme \<Rightarrow> 's Manager option \<Rightarrow> Change \<Rightarrow> ChangeResult \<Rightarrow> (error, ChangeResult, 's) action" where
  "applyDeleteNameChange E m change result s =
     (case mgr_DeleteName E m (zoneName change) (chg_Name change) s of
        (Inl err, s') \<Rightarrow> (Inl err, s')
      | (Inr deleted, s') \<Rightarrow>
          (Inr (result\<lparr>res_Applied := res_Applied result + 1,
                 res_RecordsDeleted := res_RecordsDeleted result + deleted\<rparr>), s'))"

definition applyChange ::
  "'x names_pkg_scheme \<Rightarrow> 'o set_pkg \<Rightarrow> 's Manager option \<Rightarrow> Change \<Rightarrow> ChangeResult \<Rightarrow> (error, ChangeResult, 's) action" where
  "applyChange E OS m change result s =
     (case chg_Kind change of
        ChangeUpsertZone \<Rightarrow> applyUpsertZoneChange E m change result s
      | ChangeDeleteZone \<Rightarrow> applyDeleteZoneChange E m change result s
      | ChangeUpsertRecord \<Rightarrow> applyUpsertRecordChange E OS m change result s
      | ChangeDeleteRecord \<Rightarrow> applyDeleteRecordChange E m change result s
      | ChangeUpsertRRSet \<Rightarrow> applyUpsertRRSetChange E OS m change result s
      | ChangeDeleteRRSet \<Rightarrow> applyDeleteRRSetChange E m change result s
      | ChangeDeleteName \<Rightarrow> applyDeleteNameChange E m change result s
      | ChangeOther kind \<Rightarrow> (Inl (Uncoded ''unsupported change kind''), s))"

fun applyAll ::
  "'x names_pkg_scheme \<Rightarrow> 'o set_pkg \<Rightarrow> 's Manager option \<Rightarrow> Change list \<Rightarrow> ChangeResult \<Rightarrow> (error, ChangeResult, 's) action" where
  "applyAll E OS m [] result s = (Inr result, s)"
| "applyAll E OS m (change # changes) result s =
     (case applyChange E OS m change result s of
        (Inl err, s') \<Rightarrow> (Inl err, s')
      | (Inr result', s') \<Rightarrow> applyAll E OS m changes result' s')"

definition no_result :: ChangeResult where
  "no_result = \<lparr>res_Applied = 0, res_ZonesUpserted = 0, res_ZonesDeleted = 0,
     res_RecordsUpserted = 0, res_RecordsDeleted = 0\<rparr>"

definition ApplyChanges ::
  "'x names_pkg_scheme \<Rightarrow> 'o set_pkg \<Rightarrow> 's Manager option \<Rightarrow> Change list \<Rightarrow> (error, ChangeResult, 's) action" where
  "ApplyChanges E OS m changes s =
     (case requireRepository m of
        Inl err \<Rightarrow> (Inl err, s)
      | Inr _ \<Rightarrow>
         (case ValidateChanges E OS m changes s of
            Inl err \<Rightarrow> (Inl err, s)
          | Inr _ \<Rightarrow> applyAll E OS m changes no_result s))"

section \<open>The preview follows the store\<close>

text \<open>
  A change is coherent when the zone it is previewed in is the zone it is applied to, and it
  neither uses the type ANY for an RRset nor a class other than INET; the preview and the
  application of other changes may differ.
\<close>

definition inet_class :: "Record \<Rightarrow> bool" where
  "inet_class r \<longleftrightarrow> rec_Class r = 0 \<or> rec_Class r = ClassINET"

definition coherent :: "'x names_pkg_scheme \<Rightarrow> Change \<Rightarrow> bool" where
  "coherent E c \<longleftrightarrow>
     plain (zoneName c) \<and> plain (chg_Name c) \<and> plain_record (chg_Record c) \<and> list_all plain_record (chg_Records c) \<and>
     inet_class (chg_Record c) \<and> list_all inet_class (chg_Records c) \<and> chg_Type c \<noteq> TypeANY \<and>
     (if chg_Kind c = ChangeUpsertRecord \<or> chg_Kind c = ChangeDeleteRecord
      then NormalizeZoneName E (rec_Zone (chg_Record c)) = normalizeChangeZone E c
      else zoneName c \<noteq> [])"

lemma normalizeChangeZone_zoneName:
  "zoneName c \<noteq> [] \<Longrightarrow> normalizeChangeZone E c = NormalizeZoneName E (zoneName c)"
  by (auto simp: zoneName_def normalizeChangeZone_def)

definition inet_content :: "abs_store \<Rightarrow> bool" where
  "inet_content a \<longleftrightarrow> (\<forall>r \<in> abs_records a. rec_Class r = ClassINET)"

text \<open>A preview state stands for a zone of the content, up to what the keys do not tell.\<close>

definition rep :: "'x names_pkg_scheme \<Rightarrow> abs_store \<Rightarrow> string \<Rightarrow> previewZoneState \<Rightarrow> bool" where
  "rep E a z st \<longleftrightarrow> pz_exists st = (z \<in> abs_zones a) \<and>
     Key E ` set (pz_records st) = Key E ` zone_records z a \<and> distinct (map (Key E) (pz_records st)) \<and>
     (\<forall>r \<in> set (pz_records st). plain_record r \<and> rec_Zone r = z \<and> rec_Class r = ClassINET)"

text \<open>What a change to a zone leaves of the others.\<close>

definition same_elsewhere :: "string \<Rightarrow> abs_store \<Rightarrow> abs_store \<Rightarrow> bool" where
  "same_elsewhere z a b \<longleftrightarrow> (\<forall>y. y \<noteq> z \<longrightarrow> zone_records y b = zone_records y a \<and> (y \<in> abs_zones b) = (y \<in> abs_zones a))"

lemma key_filter:
  assumes "Key E ` A = Key E ` B" and "\<And>r. r \<in> A \<union> B \<Longrightarrow> plain_record r"
    and "\<And>r r'. plain_record r \<Longrightarrow> plain_record r' \<Longrightarrow> Key E r = Key E r' \<Longrightarrow> P r = P r'"
  shows "Key E ` {r \<in> A. P r} = Key E ` {r \<in> B. P r}"
proof -
  have "Key E ` {r \<in> X. P r} \<subseteq> Key E ` {r \<in> Y. P r}" if "Key E ` X = Key E ` Y" "\<And>r. r \<in> X \<union> Y \<Longrightarrow> plain_record r" for X Y
  proof
    fix k assume "k \<in> Key E ` {r \<in> X. P r}"
    then obtain r where r: "r \<in> X" "P r" "k = Key E r" by blast
    then have "Key E r \<in> Key E ` Y" unfolding that(1) [symmetric] by (intro imageI)
    then obtain r' where r': "Key E r = Key E r'" "r' \<in> Y" by (rule imageE)
    have "P r'" using assms(3) [OF that(2) that(2) r'(1)] r r'(2) by simp
    with r' r(3) show "k \<in> Key E ` {r \<in> Y. P r}" by simp
  qed
  from this [of A B] this [of B A] assms(1,2) show ?thesis by (simp add: Un_commute subset_antisym)
qed

lemma Key_name_type:
  "plain_record r \<Longrightarrow> plain_record r' \<Longrightarrow> Key E r = Key E r' \<Longrightarrow>
     rec_Zone r = rec_Zone r' \<and> rec_Name r = rec_Name r' \<and> rec_Type r = rec_Type r'"
  by (simp add: Key_eq_iff)

lemma upsertRecords_keys:
  assumes "set_pkg_ok OS"
  shows "Key E ` set (upsertRecords E OS xs rs) = Key E ` set xs \<union> Key E ` set rs"
    and "set (upsertRecords E OS xs rs) \<subseteq> set xs \<union> set rs"
    and "distinct (map (Key E) (upsertRecords E OS xs rs))"
  using set_first_by [of "Key E" "{}" "xs @ rs"]
  by (auto simp: upsertRecords_first_by [OF assms] keys_first_by distinct_first_by image_Un)

lemma distinct_map_filter: "distinct (map f xs) \<Longrightarrow> distinct (map f (filter P xs))"
  by (simp add: distinct_map inj_on_def)

text \<open>One lemma per kind of step, on the content alone.\<close>

lemma rep_put:
  assumes "rep E a z st" and "set_pkg_ok OS" and "plain_record n" and "rec_Zone n = z" and "rec_Class n = ClassINET"
  shows "rep E (put_content E n a) z
    (st\<lparr>pz_exists := True, pz_records := upsertRecords E OS (pz_records st) [n]\<rparr>)"
proof -
  have "Key E ` zone_records z (put_content E n a) = insert (Key E n) (Key E ` zone_records z a)"
    using assms(3,4) zone_records_put [of n E a] by (auto simp: put_record_def)
  then show ?thesis
    using assms upsertRecords_keys [OF assms(2), of E "pz_records st" "[n]"]
    by (auto simp: rep_def put_content_def)
qed

lemma rep_remove:
  assumes "rep E a z st" and "\<And>r. r \<in> abs_records a \<Longrightarrow> plain_record r"
    and "\<And>r r'. plain_record r \<Longrightarrow> plain_record r' \<Longrightarrow> Key E r = Key E r' \<Longrightarrow> P r = P r'"
    and "zone_records z b = {r \<in> zone_records z a. \<not> P r}" and "abs_zones b = abs_zones a"
  shows "rep E b z (st\<lparr>pz_records := removeRecords (pz_records st) P\<rparr>)"
proof -
  have "Key E ` {r \<in> set (pz_records st). \<not> P r} = Key E ` {r \<in> zone_records z a. \<not> P r}"
  proof (rule key_filter)
    show "Key E ` set (pz_records st) = Key E ` zone_records z a" using assms(1) by (simp add: rep_def)
    show "plain_record r" if "r \<in> set (pz_records st) \<union> zone_records z a" for r
      using that assms(1,2) by (auto simp: rep_def zone_records_def)
    show "(\<not> P r) = (\<not> P r')" if "plain_record r" "plain_record r'" "Key E r = Key E r'" for r r'
      using assms(3) [OF that] by simp
  qed
  then show ?thesis
    using assms(1,4,5) by (auto simp: rep_def removeRecords_def distinct_map_filter)
qed

lemma rep_replace:
  assumes "rep E a z st" and "set_pkg_ok OS" and "\<And>r. r \<in> abs_records a \<Longrightarrow> plain_record r"
    and rs: "\<And>r. r \<in> set (target # rest) \<Longrightarrow> plain_record r \<and> rec_Zone r = z \<and> rec_Name r = n \<and> rec_Type r = t \<and> rec_Class r = ClassINET"
    and "zone_records z b = {r \<in> zone_records z a. \<not> (rec_Name r = n \<and> rec_Type r = t)} \<union> set (target # rest)"
    and "abs_zones b = insert z (abs_zones a)"
  shows "rep E b z (st\<lparr>pz_exists := True, pz_records := replaceRRSet E OS target (target # rest) (pz_records st)\<rparr>)"
proof -
  let ?P = "\<lambda>r. rec_Name r = n \<and> rec_Type r = t"
  let ?keep = "filter (\<lambda>r. \<not> ?P r) (pz_records st)"
  have "replaceRRSet E OS target (target # rest) (pz_records st) = upsertRecords E OS ?keep (target # rest)"
    using assms(1) rs [of target]
    by (auto simp: replaceRRSet_def removeRecords_def rep_def intro!: arg_cong2 [where f = "upsertRecords E OS"] filter_cong)
  moreover have "Key E ` {r \<in> set (pz_records st). \<not> ?P r} = Key E ` {r \<in> zone_records z a. \<not> ?P r}"
  proof (rule key_filter)
    show "Key E ` set (pz_records st) = Key E ` zone_records z a" using assms(1) by (simp add: rep_def)
    show "plain_record r" if "r \<in> set (pz_records st) \<union> zone_records z a" for r
      using that assms(1,3) by (auto simp: rep_def zone_records_def)
  qed (auto dest: Key_name_type)
  then have "Key E ` set (upsertRecords E OS ?keep (target # rest)) = Key E ` zone_records z b"
    by (simp add: upsertRecords_keys(1) [OF assms(2)] assms(5) image_Un)
  moreover have "plain_record r \<and> rec_Zone r = z \<and> rec_Class r = ClassINET"
    if "r \<in> set (upsertRecords E OS ?keep (target # rest))" for r
  proof -
    have "r \<in> set (pz_records st) \<or> r \<in> set (target # rest)"
      using that upsertRecords_keys(2) [OF assms(2), of E ?keep "target # rest"] by auto
    then show ?thesis using assms(1) rs by (auto simp: rep_def)
  qed
  ultimately show ?thesis using upsertRecords_keys(3) [OF assms(2)] by (simp add: rep_def assms(6))
qed

lemma NormalizeRecord_fields:
  assumes "NormalizeRecord E r = Inr n" and "inet_class r"
  shows "rec_Class n = ClassINET" and "NormalizeZoneName E (rec_Zone r) = Inr (rec_Zone n)"
  using assms by (auto simp: NormalizeRecord_Inr NormalizeZoneName_Inr inet_class_def)

lemma inet_put: "inet_content a \<Longrightarrow> rec_Class n = ClassINET \<Longrightarrow> inet_content (put_content E n a)"
  by (auto simp: inet_content_def put_content_def put_record_def)

lemma normalizeRRSetLoop_class:
  "normalizeRRSetLoop E OS z n t keys records = Inr rs \<Longrightarrow> list_all inet_class records \<Longrightarrow> r \<in> set rs \<Longrightarrow> rec_Class r = ClassINET"
proof (induction records arbitrary: keys rs)
  case (Cons x xs)
  have "rec_Class x' = ClassINET" if "normalizeRRSetRecord E x z n t = Inr x'" for x'
    using that Cons.prems(2)
    by (auto simp: normalizeRRSetRecord_def Let_def NormalizeRecord_Inr inet_class_def split: sum.splits if_split_asm)
  with Cons show ?case by (auto split: sum.splits if_split_asm)
qed simp

lemma normalizeRRSetRecords_class:
  "normalizeRRSetRecords E OS zone name t records = Inr rs \<Longrightarrow> list_all inet_class records \<Longrightarrow> r \<in> set rs \<Longrightarrow>
     rec_Class r = ClassINET"
  by (auto simp: normalizeRRSetRecords_def split: if_split_asm sum.splits dest: normalizeRRSetLoop_class)

text \<open>What a step of the application has to show.\<close>

definition follows ::
  "'x names_pkg_scheme \<Rightarrow> string \<Rightarrow> abs_store \<Rightarrow> previewZoneState \<Rightarrow> abs_store \<Rightarrow> bool" where
  "follows E z a st b \<longleftrightarrow> rep E b z st \<and> same_elsewhere z a b \<and> inet_content b"

lemma follows_remove:
  assumes "rep E a z st" and "\<And>r. r \<in> abs_records a \<Longrightarrow> plain_record r" and "inet_content a"
    and "\<And>r r'. plain_record r \<Longrightarrow> plain_record r' \<Longrightarrow> Key E r = Key E r' \<Longrightarrow> P r = P r'"
    and "\<And>r. r \<in> abs_records a \<Longrightarrow> Q r \<longleftrightarrow> P r \<and> rec_Zone r = z"
    and "b = a\<lparr>abs_records := {r \<in> abs_records a. \<not> Q r}\<rparr>"
  shows "follows E z a (st\<lparr>pz_records := removeRecords (pz_records st) P\<rparr>) b"
proof -
  have "zone_records z b = {r \<in> zone_records z a. \<not> P r}" using assms(5,6) by (auto simp: zone_records_def)
  moreover have "abs_zones b = abs_zones a" by (simp add: assms(6))
  ultimately have "rep E b z (st\<lparr>pz_records := removeRecords (pz_records st) P\<rparr>)"
    using rep_remove [of E a z st P b] assms(1,2,4) by blast
  moreover have "same_elsewhere z a b"
    unfolding same_elsewhere_def zone_records_def assms(6) using assms(5) by auto
  moreover have "inet_content b" using assms(3) by (simp add: inet_content_def assms(6))
  ultimately show ?thesis by (simp add: follows_def)
qed

context repository
begin

lemma UpsertRecord_success:
  assumes "invar s" and "set_pkg_ok OS" and "plain_record r" and "mgr_UpsertRecord E OS (mgr_of R) r s = (Inr n, s')"
  shows "NormalizeRecord E r = Inr n" and "invar s'" and "content s' = put_content E n (content s)"
proof -
  obtain n' where n': "NormalizeRecord E r = Inr n'"
    using assms(4) by (auto simp: mgr_UpsertRecord_def split: sum.splits)
  have "zone_valid (rec_Zone n') False (zone_records (rec_Zone n') (put_content E n' (content s)))"
    using UpsertRecord_rejects [OF assms(1-3) n'] assms(4) by fastforce
  then obtain s1 where s1: "mgr_UpsertRecord E OS (mgr_of R) r s = (Inr n', s1)" "invar s1"
    "content s1 = put_content E n' (content s)" by (rule UpsertRecord_accepts [OF assms(1-3) n'])
  have "n' = n" "s1 = s'" using s1(1) assms(4) by simp_all
  with s1 n' show "NormalizeRecord E r = Inr n" "invar s'" "content s' = put_content E n (content s)" by simp_all
qed

lemma step_UpsertRecord:
  assumes "invar s" and "set_pkg_ok OS" and "coherent E c" and "inet_content (content s)"
    and "normalizeChangeZone E c = Inr z" and "rep E (content s) z st"
    and kind: "chg_Kind c = ChangeUpsertRecord"
    and "applyUpsertRecordPreview E OS st c = Inr st'"
    and "mgr_UpsertRecord E OS (mgr_of R) (chg_Record c) s = (Inr v, s')"
  shows "invar s' \<and> follows E z (content s) st' (content s')"
proof -
  let ?r = "chg_Record c"
  have c: "plain_record ?r" "inet_class ?r" "NormalizeZoneName E (rec_Zone ?r) = Inr z"
    using assms(3,5) kind by (auto simp: coherent_def)
  note up = UpsertRecord_success [OF assms(1,2) c(1) assms(9)]
  have v: "rec_Class v = ClassINET" "rec_Zone v = z" "plain_record v"
    using NormalizeRecord_fields [OF up(1) c(2)] c(3)
      normal_record_NormalizeRecord [OF names_ok [OF assms(1)] c(1) up(1)]
    by (simp_all add: normal_record_def)
  have st': "st' = st\<lparr>pz_exists := True, pz_records := upsertRecords E OS (pz_records st) [v]\<rparr>"
    using assms(8) by (simp add: applyUpsertRecordPreview_def up(1))
  have "same_elsewhere z (content s) (put_content E v (content s))"
    using zone_records_put_other [OF v(3) plain_stored [OF assms(1)], where E = E] v(2)
    by (auto simp: same_elsewhere_def put_content_def)
  then show ?thesis
    using rep_put [OF assms(6,2) v(3,2,1)] inet_put [OF assms(4) v(1)] up(2)
    by (simp add: follows_def st' up(3))
qed

lemma step_DeleteRecord:
  assumes "invar s" and "coherent E c" and "inet_content (content s)"
    and "normalizeChangeZone E c = Inr z" and "rep E (content s) z st"
    and kind: "chg_Kind c = ChangeDeleteRecord"
    and "applyDeleteRecordPreview E st c = Inr st'"
    and "mgr_DeleteRecord E (mgr_of R) (chg_Record c) s = (Inr v, s')"
  shows "invar s' \<and> follows E z (content s) st' (content s')"
proof -
  let ?r = "chg_Record c"
  have c: "plain_record ?r" "inet_class ?r" "NormalizeZoneName E (rec_Zone ?r) = Inr z"
    using assms(2,4) kind by (auto simp: coherent_def)
  obtain n where n: "NormalizeRecord E ?r = Inr n" using assms(7) by (auto simp: applyDeleteRecordPreview_def split: sum.splits)
  from DeleteRecord_spec [OF assms(1) c(1) n] assms(8)
  have s': "invar s'" "content s' = (content s)\<lparr>abs_records := {r \<in> abs_records (content s). \<not> Key E r = Key E n}\<rparr>"
    by (metis del_record_def prod.inject)+
  have nz: "plain_record n" "rec_Zone n = z"
    using NormalizeRecord_fields [OF n c(2)] c(3) normal_record_NormalizeRecord [OF names_ok [OF assms(1)] c(1) n]
    by (simp_all add: normal_record_def)
  have st': "st' = st\<lparr>pz_records := removeRecords (pz_records st) (\<lambda>r. Key E r = Key E n)\<rparr>"
    using assms(7) by (simp add: applyDeleteRecordPreview_def n)
  have "Key E r = Key E n \<longleftrightarrow> Key E r = Key E n \<and> rec_Zone r = z" if "r \<in> abs_records (content s)" for r
    using Key_name_type [OF plain_stored [OF assms(1) that] nz(1), where E = E] nz(2) by blast
  from follows_remove [OF assms(5) plain_stored [OF assms(1)] assms(3) _ this s'(2)] s'(1)
  show ?thesis unfolding st' by simp
qed

lemma step_delete_lookup:
  assumes "invar s" and "inet_content (content s)" and "rep E (content s) z st"
    and "content s' = (content s)\<lparr>abs_records := abs_records (content s) - lookup_set z n t ClassANY (content s)\<rparr>"
    and "P = (\<lambda>record. rec_Zone record = z \<and> rec_Name record = n \<and> (t = TypeANY \<or> rec_Type record = t))"
  shows "follows E z (content s) (st\<lparr>pz_records := removeRecords (pz_records st) P\<rparr>) (content s')"
proof (rule follows_remove [OF assms(3) plain_stored [OF assms(1)] assms(2)])
  show "P r = P r'" if "plain_record r" "plain_record r'" "Key E r = Key E r'" for r r'
    using Key_name_type [OF that] by (simp add: assms(5))
  show "P r \<longleftrightarrow> P r \<and> rec_Zone r = z" for r by (auto simp: assms(5))
  show "content s' = (content s)\<lparr>abs_records := {r \<in> abs_records (content s). \<not> P r}\<rparr>"
    unfolding assms(4,5) lookup_set_def by (rule arg_cong [where f = "\<lambda>X. (content s)\<lparr>abs_records := X\<rparr>"]) auto
qed

lemma step_UpsertRRSet:
  assumes "invar s" and "set_pkg_ok OS" and "coherent E c" and "inet_content (content s)"
    and "normalizeChangeZone E c = Inr z" and "rep E (content s) z st"
    and kind: "chg_Kind c = ChangeUpsertRRSet"
    and prev: "applyUpsertRRSetPreview E OS st z c = Inr st'"
    and app: "mgr_UpsertRRSet E OS (mgr_of R) (zoneName c) (chg_Name c) (chg_Type c) (chg_Records c) s = (Inr v, s')"
  shows "invar s' \<and> follows E z (content s) st' (content s')"
proof -
  let ?t = "chg_Type c"
  have c: "plain (zoneName c)" "plain (chg_Name c)" "list_all plain_record (chg_Records c)"
    "list_all inet_class (chg_Records c)" "?t \<noteq> TypeANY" and z: "NormalizeZoneName E (zoneName c) = Inr z"
    using assms(3,5) kind normalizeChangeZone_zoneName [of c E] by (auto simp: coherent_def)
  have "normal_zone E z" by (rule normal_zone_NormalizeZoneName [OF names_ok [OF assms(1)] c(1) z])
  then have same: "normalizeRRSetLookup E z (chg_Name c) = normalizeRRSetLookup E (zoneName c) (chg_Name c)"
    using z by (simp add: normalizeRRSetLookup_def normal_zoneD)
  show ?thesis
    using assms(1,2) c(1-3) app
  proof (cases rule: UpsertRRSet_cases)
    case (replaced z' n rs)
    have z': "z' = z" using replaced(3) z by (simp add: normalizeRRSetLookup_Inr)
    from normalizeRRSetRecords_normal [OF names_ok [OF assms(1)] assms(2) c(1-3) replaced(2)] replaced(3)
    have ne: "rs \<noteq> []" and rs: "\<And>r. r \<in> set rs \<Longrightarrow> normal_record E r \<and> rec_Zone r = z \<and> rec_Name r = n \<and> rec_Type r = ?t"
      unfolding z' by (metis Inr_inject prod.inject)+
    obtain r0 rest where r0: "rs = r0 # rest" using ne by (cases rs) auto
    have "normalizeRRSetRecords E OS z (chg_Name c) ?t (chg_Records c) = Inr rs"
      using replaced(2) unfolding normalizeRRSetRecords_def same by assumption
    then have st': "st' = st\<lparr>pz_exists := True, pz_records := replaceRRSet E OS r0 (r0 # rest) (pz_records st)\<rparr>"
      using prev by (simp add: applyUpsertRRSetPreview_def r0)
    have rs': "plain_record r \<and> rec_Zone r = z \<and> rec_Name r = n \<and> rec_Type r = ?t \<and> rec_Class r = ClassINET"
      if "r \<in> set (r0 # rest)" for r
    proof -
      have r: "r \<in> set rs" using that by (simp add: r0)
      show ?thesis
        using rs [OF r] normalizeRRSetRecords_class [OF replaced(2) c(4) r] unfolding normal_record_def by blast
    qed
    have "zone_records z (content s') =
        {r \<in> zone_records z (content s). \<not> (rec_Name r = n \<and> rec_Type r = ?t)} \<union> set (r0 # rest)"
      using rs' c(5) unfolding zone_records_def replaced(6) z' r0 lookup_set_def by auto
    note rep' = rep_replace [OF assms(6,2) plain_stored [OF assms(1)] rs' this replaced(5) [unfolded z']]
    have "same_elsewhere z (content s) (content s')"
      using rs' unfolding same_elsewhere_def zone_records_def replaced(5,6) z' r0 lookup_set_def by auto
    moreover have "inet_content (content s')"
      using rs' assms(4) unfolding inet_content_def replaced(6) r0 by auto
    ultimately show ?thesis using rep' replaced(4) by (simp add: follows_def st')
  qed auto
qed

lemma change_zone:
  assumes "invar s" and "coherent E c" and "normalizeChangeZone E c = Inr z"
  shows "normal_zone E z"
proof (cases "chg_Kind c = ChangeUpsertRecord \<or> chg_Kind c = ChangeDeleteRecord")
  case True
  with assms show ?thesis
    using normal_zone_NormalizeZoneName [OF names_ok [OF assms(1)], of "rec_Zone (chg_Record c)" z]
    by (auto simp: coherent_def plain_record_def)
next
  case False
  with assms show ?thesis
    using normal_zone_NormalizeZoneName [OF names_ok [OF assms(1)], of "zoneName c" z] normalizeChangeZone_zoneName [of c E]
    by (auto simp: coherent_def)
qed

lemma step_zones:
  assumes "invar s" and "coherent E c" and "inet_content (content s)"
    and "normalizeChangeZone E c = Inr z" and "rep E (content s) z st"
  shows "chg_Kind c = ChangeUpsertZone \<Longrightarrow> mgr_UpsertZone E (mgr_of R) \<lparr>zone_Name = zoneName c\<rparr> s = (Inr v, s') \<Longrightarrow>
      invar s' \<and> follows E z (content s) (st\<lparr>pz_exists := True\<rparr>) (content s')"
    and "chg_Kind c = ChangeDeleteZone \<Longrightarrow> mgr_DeleteZone E (mgr_of R) (zoneName c) s = (Inr u, s') \<Longrightarrow>
      invar s' \<and> follows E z (content s) (st\<lparr>pz_exists := False, pz_records := []\<rparr>) (content s')"
proof -
  assume kind: "chg_Kind c = ChangeUpsertZone" and op: "mgr_UpsertZone E (mgr_of R) \<lparr>zone_Name = zoneName c\<rparr> s = (Inr v, s')"
  have z: "plain (zone_Name \<lparr>zone_Name = zoneName c\<rparr>)" "NormalizeZoneName E (zone_Name \<lparr>zone_Name = zoneName c\<rparr>) = Inr z"
    using assms(2,4) kind normalizeChangeZone_zoneName [of c E] by (auto simp: coherent_def)
  obtain s1 where s1: "mgr_UpsertZone E (mgr_of R) \<lparr>zone_Name = zoneName c\<rparr> s = (Inr \<lparr>zone_Name = z\<rparr>, s1)" "invar s1"
    "content s1 = (content s)\<lparr>abs_zones := insert z (abs_zones (content s))\<rparr>"
    by (rule UpsertZone_spec [OF assms(1) z])
  with op assms(3,5) show "invar s' \<and> follows E z (content s) (st\<lparr>pz_exists := True\<rparr>) (content s')"
    by (auto simp: follows_def rep_def same_elsewhere_def zone_records_def inet_content_def)
next
  assume kind: "chg_Kind c = ChangeDeleteZone" and op: "mgr_DeleteZone E (mgr_of R) (zoneName c) s = (Inr u, s')"
  have z: "plain (zoneName c)" "NormalizeZoneName E (zoneName c) = Inr z"
    using assms(2,4) kind normalizeChangeZone_zoneName [of c E] by (auto simp: coherent_def)
  obtain s1 where s1: "mgr_DeleteZone E (mgr_of R) (zoneName c) s = (Inr (), s1)" "invar s1"
    "content s1 = \<lparr>abs_zones = abs_zones (content s) - {z}, abs_records = {r \<in> abs_records (content s). rec_Zone r \<noteq> z}\<rparr>"
    by (rule DeleteZone_spec [OF assms(1) z])
  with op assms(3,5) show "invar s' \<and> follows E z (content s) (st\<lparr>pz_exists := False, pz_records := []\<rparr>) (content s')"
    by (auto simp: follows_def rep_def same_elsewhere_def zone_records_def inet_content_def)
qed

lemma step_names:
  assumes "invar s" and "coherent E c" and "inet_content (content s)"
    and "normalizeChangeZone E c = Inr z" and "rep E (content s) z st"
  shows "chg_Kind c = ChangeDeleteRRSet \<Longrightarrow> applyDeleteRRSetPreview E st z c = Inr st' \<Longrightarrow>
      mgr_DeleteRRSet E (mgr_of R) (zoneName c) (chg_Name c) (chg_Type c) s = (Inr k, s') \<Longrightarrow>
      invar s' \<and> follows E z (content s) st' (content s')"
    and "chg_Kind c = ChangeDeleteName \<Longrightarrow> applyDeleteNamePreview E st z c = Inr st' \<Longrightarrow>
      mgr_DeleteName E (mgr_of R) (zoneName c) (chg_Name c) s = (Inr k, s') \<Longrightarrow>
      invar s' \<and> follows E z (content s) st' (content s')"
proof -
  have nz: "normal_zone E z" by (rule change_zone [OF assms(1,2,4)])
  have args: "plain (zoneName c)" "plain (chg_Name c)" "chg_Type c \<noteq> TypeANY" using assms(2) by (auto simp: coherent_def)
  have lookup: "normalizeRRSetLookup E (zoneName c) (chg_Name c) = normalizeRRSetLookup E z (chg_Name c)"
    if "chg_Kind c = ChangeDeleteRRSet \<or> chg_Kind c = ChangeDeleteName"
  proof -
    have "NormalizeZoneName E (zoneName c) = Inr z"
      using that assms(2,4) normalizeChangeZone_zoneName [of c E] by (auto simp: coherent_def)
    then show ?thesis by (simp add: normalizeRRSetLookup_def normal_zoneD [OF nz])
  qed
  have own: "p = (z, snd p)" if "normalizeRRSetLookup E z (chg_Name c) = Inr p" for p
    using that normal_zoneD [OF nz] by (cases p) (simp add: normalizeRRSetLookup_Inr)
  show "invar s' \<and> follows E z (content s) st' (content s')"
    if k: "chg_Kind c = ChangeDeleteRRSet" and prev: "applyDeleteRRSetPreview E st z c = Inr st'"
      and op: "mgr_DeleteRRSet E (mgr_of R) (zoneName c) (chg_Name c) (chg_Type c) s = (Inr k, s')"
  proof -
    obtain n where n: "normalizeRRSetLookup E z (chg_Name c) = Inr (z, n)"
      using prev own by (auto simp: applyDeleteRRSetPreview_def split: sum.splits)
    from DeleteRRSet_exact [OF assms(1) args(1,2), of z n "chg_Type c"] op n lookup k
    have s': "invar s'" "content s' = (content s)\<lparr>abs_records :=
        abs_records (content s) - lookup_set z n (chg_Type c) ClassANY (content s)\<rparr>" by auto
    from step_delete_lookup [OF assms(1,3,5) s'(2) refl] s'(1) prev args(3) n show ?thesis
      by (simp add: applyDeleteRRSetPreview_def)
  qed
  show "invar s' \<and> follows E z (content s) st' (content s')"
    if k: "chg_Kind c = ChangeDeleteName" and prev: "applyDeleteNamePreview E st z c = Inr st'"
      and op: "mgr_DeleteName E (mgr_of R) (zoneName c) (chg_Name c) s = (Inr k, s')"
  proof -
    obtain n where n: "normalizeRRSetLookup E z (chg_Name c) = Inr (z, n)"
      using prev own by (auto simp: applyDeleteNamePreview_def split: sum.splits)
    from DeleteName_exact [OF assms(1) args(1,2), of z n] op n lookup k
    have s': "invar s'" "content s' = (content s)\<lparr>abs_records :=
        abs_records (content s) - lookup_set z n TypeANY ClassANY (content s)\<rparr>" by auto
    from step_delete_lookup [OF assms(1,3,5) s'(2) refl] s'(1) prev n show ?thesis
      by (simp add: applyDeleteNamePreview_def)
  qed
qed

lemma applyChange_follows:
  assumes "invar s" and "set_pkg_ok OS" and "coherent E c" and "inet_content (content s)"
    and "normalizeChangeZone E c = Inr z" and "rep E (content s) z st"
    and prev: "applyChangePreview E OS st z c = Inr st'"
    and op: "applyChange E OS (mgr_of R) c res s = (Inr res', s')"
  shows "invar s' \<and> follows E z (content s) st' (content s') \<and> res_Applied res' = res_Applied res + 1"
proof (cases "chg_Kind c")
  case ChangeUpsertZone
  with prev op step_zones(1) [OF assms(1,3-6) ChangeUpsertZone] show ?thesis
    by (auto simp: applyChangePreview_def applyChange_def applyUpsertZoneChange_def split: prod.splits sum.splits)
next
  case ChangeDeleteZone
  with prev op step_zones(2) [OF assms(1,3-6) ChangeDeleteZone] show ?thesis
    by (auto simp: applyChangePreview_def applyChange_def applyDeleteZoneChange_def split: prod.splits sum.splits)
next
  case ChangeUpsertRecord
  with prev op step_UpsertRecord [OF assms(1-6) ChangeUpsertRecord] show ?thesis
    by (auto simp: applyChangePreview_def applyChange_def applyUpsertRecordChange_def split: prod.splits sum.splits)
next
  case ChangeDeleteRecord
  with prev op step_DeleteRecord [OF assms(1,3-6) ChangeDeleteRecord] show ?thesis
    by (auto simp: applyChangePreview_def applyChange_def applyDeleteRecordChange_def split: prod.splits sum.splits)
next
  case ChangeUpsertRRSet
  with prev op step_UpsertRRSet [OF assms(1-6) ChangeUpsertRRSet] show ?thesis
    by (auto simp: applyChangePreview_def applyChange_def applyUpsertRRSetChange_def split: prod.splits sum.splits)
next
  case ChangeDeleteRRSet
  with prev op step_names(1) [OF assms(1,3-6) ChangeDeleteRRSet] show ?thesis
    by (auto simp: applyChangePreview_def applyChange_def applyDeleteRRSetChange_def split: prod.splits sum.splits)
next
  case ChangeDeleteName
  with prev op step_names(2) [OF assms(1,3-6) ChangeDeleteName] show ?thesis
    by (auto simp: applyChangePreview_def applyChange_def applyDeleteNameChange_def split: prod.splits sum.splits)
qed (use op in \<open>simp add: applyChange_def\<close>)

end

section \<open>Batches\<close>

text \<open>
  After a part of a batch has been previewed on the content \<open>a0\<close> and applied, the previewed zones
  stand for the content \<open>a\<close> and the other zones are as they were.
\<close>

definition tracks ::
  "'x names_pkg_scheme \<Rightarrow> 'o set_pkg \<Rightarrow> abs_store \<Rightarrow> (string \<rightharpoonup> previewZoneState) \<times> 'o \<Rightarrow> abs_store \<Rightarrow> bool" where
  "tracks E OS a0 st a \<longleftrightarrow> set (oset_Values OS (snd st)) = dom (fst st) \<and>
     (\<forall>z. case fst st z of
        Some pz \<Rightarrow> rep E a z pz
      | None \<Rightarrow> zone_records z a = zone_records z a0 \<and> (z \<in> abs_zones a) = (z \<in> abs_zones a0))"

lemma tracks_None:
  "tracks E OS a0 st a \<Longrightarrow> fst st z = None \<Longrightarrow>
     zone_records z a = zone_records z a0 \<and> (z \<in> abs_zones a) = (z \<in> abs_zones a0)"
  unfolding tracks_def by (elim conjE allE [where x = z]) simp

lemma tracks_Some: "tracks E OS a0 st a \<Longrightarrow> fst st z = Some pz \<Longrightarrow> rep E a z pz"
  unfolding tracks_def by (elim conjE allE [where x = z]) simp

lemma rep_cong:
  assumes "zone_records z a = zone_records z b" and "(z \<in> abs_zones a) = (z \<in> abs_zones b)"
  shows "rep E a z st \<longleftrightarrow> rep E b z st"
  using assms by (simp add: rep_def)

lemma tracks_step:
  assumes "set_pkg_ok OS" and "tracks E OS a0 (states, touched) a" and "follows E z a pz b"
  shows "tracks E OS a0 (states(z \<mapsto> pz), oset_Add OS z touched) b"
proof -
  have "case (states(z \<mapsto> pz)) y of
        Some pz \<Rightarrow> rep E b y pz
      | None \<Rightarrow> zone_records y b = zone_records y a0 \<and> (y \<in> abs_zones b) = (y \<in> abs_zones a0)" for y
  proof (cases "y = z")
    case False
    then have same: "zone_records y b = zone_records y a" "(y \<in> abs_zones b) = (y \<in> abs_zones a)"
      using assms(3) by (auto simp: follows_def same_elsewhere_def)
    have old: "case states y of Some pz \<Rightarrow> rep E a y pz
      | None \<Rightarrow> zone_records y a = zone_records y a0 \<and> (y \<in> abs_zones a) = (y \<in> abs_zones a0)"
      using assms(2) by (simp add: tracks_def)
    show ?thesis
      using old False same rep_cong [OF same, where E = E] by (cases "states y") simp_all
  qed (use assms(3) in \<open>simp add: follows_def\<close>)
  moreover have "set (oset_Values OS (oset_Add OS z touched)) = dom (states(z \<mapsto> pz))"
    using assms(1,2) by (auto simp: tracks_def oset_laws)
  ultimately show ?thesis by (simp add: tracks_def)
qed

lemma zone_valid_same_keys:
  assumes "zone_valid z b A" and "Key E ` B = Key E ` A" and "inj_on (Key E) B"
    and "\<And>r. r \<in> A \<union> B \<Longrightarrow> plain_record r"
  shows "zone_valid z b B"
proof -
  have less: "zone_valid z False B"
    using zone_valid_keys [OF zone_valid_weaken [OF assms(1)], of E B] assms(2-4) by auto
  have move: "\<exists>r' \<in> Y. rec_Name r' = rec_Name r \<and> rec_Type r' = rec_Type r"
    if "Key E ` X = Key E ` Y" "r \<in> X" "X \<union> Y = A \<union> B" for r X Y
  proof -
    have "Key E r \<in> Key E ` Y" unfolding that(1) [symmetric] using that(2) by (rule imageI)
    then obtain r' where "Key E r = Key E r'" "r' \<in> Y" by (rule imageE)
    moreover have "plain_record r" "plain_record r'" using assms(4) calculation(2) that(2,3) by blast+
    ultimately show ?thesis using Key_name_type [of r r' E] by auto
  qed
  have "\<exists>r \<in> B. rec_Type r = TypeNS \<and> rec_Name r = z" if need: "b" and soa: "\<exists>r \<in> B. rec_Type r = TypeSOA"
  proof -
    obtain r0 where r0: "r0 \<in> B" "rec_Type r0 = TypeSOA" using soa by blast
    have "\<exists>r \<in> A. rec_Type r = TypeSOA" using move [OF assms(2) r0(1) Un_commute] r0(2) by auto
    then obtain r where r: "r \<in> A" "rec_Type r = TypeNS" "rec_Name r = z" using need assms(1) by (auto simp: zone_valid_def)
    show ?thesis using move [OF assms(2) [symmetric] r(1) refl] r(2,3) by auto
  qed
  with less show ?thesis by (simp add: zone_valid_def)
qed

lemma validatePreviewZones_ok:
  "validatePreviewZones E states zones = Inr () \<longleftrightarrow>
     (\<forall>z \<in> set zones. \<forall>pz. states z = Some pz \<and> pz_exists pz \<and> pz_records pz \<noteq> [] \<longrightarrow>
        snapshot_Validate E (buildZoneSnapshot z (pz_records pz)) = Inr ())"
  by (induction zones) (auto split: option.splits sum.splits)

lemma snapshot_Validate_zone_valid:
  assumes "normal_zone E z" and "distinct rs"
  shows "snapshot_Validate E (buildZoneSnapshot z rs) = Inr () \<longleftrightarrow> zone_valid z True (set rs)"
proof -
  have "distinct (SortFunc CompareRecords rs)" using assms(2) by (simp add: by_record.distinct_SortFunc)
  from validateZoneRecords_zone_valid [OF this normal_zoneD [OF assms(1)], of "\<lparr>requireApexNS = True\<rparr>"]
  show ?thesis by (simp add: snapshot_Validate_def buildZoneSnapshot_def Let_def)
qed

lemma dom_previewChanges:
  "previewChanges E OS m cs s st = Inr st' \<Longrightarrow>
     dom (fst st') = dom (fst st) \<union> {z. Inr z \<in> normalizeChangeZone E ` set cs}"
proof (induction cs arbitrary: st)
  case (Cons c cs)
  obtain states touched where st: "st = (states, touched)" by (cases st)
  from Cons.prems obtain z pz where z: "normalizeChangeZone E c = Inr z"
    "previewChanges E OS m cs s (states(z \<mapsto> pz), oset_Add OS z touched) = Inr st'"
    by (auto simp: st previewSingleChange_def split: sum.splits)
  have "dom (fst st') = insert z (dom states) \<union> {z. Inr z \<in> normalizeChangeZone E ` set cs}"
    using Cons.IH [OF z(2)] by (auto simp: dom_def split: if_split_asm)
  then show ?case by (auto simp: st z(1))
qed simp

lemma ApplyChanges_Inr:
  assumes "ApplyChanges E OS m changes s = (Inr result, s')"
  obtains st where "previewChanges E OS m changes s (Map.empty, oset_new OS) = Inr st"
    and "validatePreviewZoneStates E OS st = Inr ()" and "applyAll E OS m changes no_result s = (Inr result, s')"
  using assms by (auto simp: ApplyChanges_def ValidateChanges_def previewValidatedChanges_def split: sum.splits)

context repository
begin

lemma load_rep:
  assumes "invar s0" and "normal_zone E z" and "inet_content (content s0)" and "tracks E OS (content s0) (states, touched) a"
    and "loadPreviewZoneState E (mgr_of R) states z s0 = Inr pz"
  shows "rep E a z pz"
proof (cases "states z")
  case (Some pz')
  then have "pz' = pz" using assms(5) by (simp add: loadPreviewZoneState_def)
  with Some show ?thesis using tracks_Some [OF assms(4)] by simp
next
  case None
  then have same: "zone_records z a = zone_records z (content s0)" "(z \<in> abs_zones a) = (z \<in> abs_zones (content s0))"
    using tracks_None [OF assms(4)] by simp_all
  obtain xs where xs: "mgr_ListRecords E (mgr_of R) (zone_filter z) s0 = Inr xs" "distinct xs"
    "set xs = zone_records z (content s0)" using ListRecords_zone [OF assms(1,2)] by blast
  have pz: "pz = \<lparr>pz_exists = (z \<in> abs_zones (content s0)), pz_records = xs\<rparr>"
    using assms(5) None xs(1) GetZone_spec [OF assms(1) normal_zoneD [OF assms(2)]]
    by (auto simp: loadPreviewZoneState_def mgr_HasZone_def split: if_split_asm)
  have "plain_record r \<and> rec_Zone r = z \<and> rec_Class r = ClassINET" if "r \<in> set xs" for r
    using that xs(3) assms(3) plain_stored [OF assms(1)] by (auto simp: zone_records_def inet_content_def)
  then show ?thesis
    using xs inj_Key_zone [OF assms(1), of z] same by (simp add: rep_def pz distinct_map)
qed

lemma applyAll_tracks:
  assumes "invar s0" and "inet_content (content s0)" and "set_pkg_ok OS"
    and "previewChanges E OS (mgr_of R) cs s0 st = Inr st'" and "applyAll E OS (mgr_of R) cs res s = (Inr res', s')"
    and "list_all (coherent E) cs" and "invar s" and "inet_content (content s)" and "tracks E OS (content s0) st (content s)"
  shows "invar s' \<and> tracks E OS (content s0) st' (content s') \<and> res_Applied res' = res_Applied res + length cs"
  using assms(4-)
proof (induction cs arbitrary: st res s)
  case (Cons c cs)
  obtain states touched where st: "st = (states, touched)" by (cases st)
  obtain z pz pz' where z: "normalizeChangeZone E c = Inr z"
    and pz: "loadPreviewZoneState E (mgr_of R) states z s0 = Inr pz"
    and pz': "applyChangePreview E OS pz z c = Inr pz'"
    and rest: "previewChanges E OS (mgr_of R) cs s0 (states(z \<mapsto> pz'), oset_Add OS z touched) = Inr st'"
    using Cons.prems(1) by (auto simp: st previewSingleChange_def split: sum.splits)
  obtain res1 s1 where app: "applyChange E OS (mgr_of R) c res s = (Inr res1, s1)"
    and more: "applyAll E OS (mgr_of R) cs res1 s1 = (Inr res', s')"
    using Cons.prems(2) by (auto split: prod.splits sum.splits)
  have coh: "coherent E c" "list_all (coherent E) cs" using Cons.prems(3) by simp_all
  note tr = Cons.prems(6) [unfolded st]
  have "rep E (content s) z pz" by (rule load_rep [OF assms(1) change_zone [OF assms(1) coh(1) z] assms(2) tr pz])
  from applyChange_follows [OF Cons.prems(4) assms(3) coh(1) Cons.prems(5) z this pz' app]
  have s1: "invar s1" "follows E z (content s) pz' (content s1)" "res_Applied res1 = res_Applied res + 1" by auto
  have "inet_content (content s1)" using s1(2) by (simp add: follows_def)
  with Cons.IH [OF rest more coh(2) s1(1) _ tracks_step [OF assms(3) tr s1(2)]] s1(3) show ?case by simp
qed simp

lemma applyAll_from_start:
  assumes "invar s" and "inet_content (content s)" and "set_pkg_ok OS" and "list_all (coherent E) cs"
    and "previewChanges E OS (mgr_of R) cs s (Map.empty, oset_new OS) = Inr st"
    and "applyAll E OS (mgr_of R) cs no_result s = (Inr res, s')"
  shows "invar s'" and "tracks E OS (content s) st (content s')" and "res_Applied res = length cs"
proof -
  have "tracks E OS (content s) (Map.empty, oset_new OS) (content s)" using assms(3) by (simp add: tracks_def oset_laws)
  from applyAll_tracks [OF assms(1,2,3,5,6,4,1,2) this]
  show "invar s'" "tracks E OS (content s) st (content s')" "res_Applied res = length cs" by (auto simp: no_result_def)
qed

lemma applyAll_valid:
  assumes "invar s" and "inet_content (content s)" and "set_pkg_ok OS" and "list_all (coherent E) cs"
    and "previewChanges E OS (mgr_of R) cs s (Map.empty, oset_new OS) = Inr st"
    and "validatePreviewZoneStates E OS st = Inr ()"
    and "applyAll E OS (mgr_of R) cs no_result s = (Inr res, s')"
    and "fst st z = Some pz" and "normal_zone E z"
  shows "zone_valid z True (zone_records z (content s'))"
proof -
  note s' = applyAll_from_start(1) [OF assms(1-5,7)] and tr = applyAll_from_start(2) [OF assms(1-5,7)]
  have rep: "rep E (content s') z pz" by (rule tracks_Some [OF tr assms(8)])
  have "zone_valid z True (set (pz_records pz))" if "pz_exists pz" "pz_records pz \<noteq> []"
  proof -
    have "z \<in> set (oset_Values OS (snd st))" using tr assms(8) by (auto simp: tracks_def)
    then have "snapshot_Validate E (buildZoneSnapshot z (pz_records pz)) = Inr ()"
      using assms(6,8) that by (auto simp: validatePreviewZoneStates_def validatePreviewZones_ok split: prod.splits)
    then show ?thesis
      using snapshot_Validate_zone_valid [OF assms(9), of "pz_records pz"] rep by (simp add: rep_def distinct_map)
  qed
  moreover have "zone_valid z True {}" by (simp add: zone_valid_def)
  moreover have "zone_records z (content s') = {}" if "\<not> pz_exists pz"
    using that rep stored_zone [OF s'] by (auto simp: rep_def zone_records_def)
  moreover have "zone_records z (content s') = {}" if "pz_records pz = []"
    using that rep by (simp add: rep_def)
  moreover have "zone_valid z True (zone_records z (content s'))" if "zone_valid z True (set (pz_records pz))"
    using zone_valid_same_keys [OF that, of E "zone_records z (content s')"] rep inj_Key_zone [OF s'] plain_stored [OF s']
    by (auto simp: rep_def zone_records_def)
  ultimately show ?thesis by fastforce
qed

end

lemma addPreviewZones_eq:
  "addPreviewZones states zones p =
     p\<lparr>prv_Zones := prv_Zones p @ [buildZoneSnapshot z (pz_records (the (states z))).
          z \<leftarrow> zones, states z \<noteq> None \<and> pz_exists (the (states z))],
       prv_DeletedZones := prv_DeletedZones p @ [z. z \<leftarrow> zones, states z \<noteq> None \<and> \<not> pz_exists (the (states z))]\<rparr>"
  by (induction zones arbitrary: p) (auto split: option.splits)

section \<open>Properties\<close>


definition empty_change :: Change where
  "empty_change = \<lparr>chg_Kind = ChangeUpsertZone, chg_Zone = \<lparr>zone_Name = []\<rparr>, chg_ZoneName = [],
     chg_Record = \<lparr>rec_Zone = [], rec_Name = [], rec_TTL = 0, rec_Class = 0, rec_Type = 0, rec_Data = []\<rparr>,
     chg_Records = [], chg_Name = [], chg_Type = 0\<rparr>"

definition sample_changes :: "Change list" where
  "sample_changes =
     [empty_change\<lparr>chg_Kind := ChangeUpsertRRSet, chg_ZoneName := ''example.org'', chg_Name := ''mail.example.org'',
        chg_Type := TypeMX, chg_Records := [sample_record\<lparr>rec_Zone := [], rec_Name := [], rec_Type := 0, rec_Data := ''10 mx.example.org.''\<rparr>]\<rparr>,
      empty_change\<lparr>chg_Kind := ChangeDeleteName, chg_ZoneName := ''example.org'', chg_Name := ''www.example.org''\<rparr>]"

lemma sample_changes_coherent: "list_all (coherent names_ref) sample_changes"
  by code_simp

lemma sample_state_records: "abs_records (mem_content mapping_ref sample_state) = {sample_record}"
proof -
  have eq: "sample_state = \<lparr>ms_zones = [(''example.org.'', \<lparr>zone_Name = ''example.org.''\<rparr>)],
      ms_records = [((''example.org.|www.example.org.|'', Key names_ref sample_record), sample_record)], ms_revision = 1\<rparr>"
    by code_simp
  show ?thesis unfolding eq by (auto simp: mem_content_def mapping_ref_def split: if_split_asm)
qed




text \<open>
  \<^verbatim>\<open>ApplyChanges\<close> is not atomic: a batch whose final state is valid passes the validation, a change
  in its middle is refused, and the changes before it stay. Here a zone is created, then the
  CNAME record that is to replace an A record conflicts with it because the A record is deleted
  only afterwards.
\<close>

definition midway_changes :: "Change list" where
  "midway_changes =
     [empty_change\<lparr>chg_ZoneName := ''example.net''\<rparr>,
      empty_change\<lparr>chg_Kind := ChangeUpsertRecord,
        chg_Record := sample_record\<lparr>rec_Type := TypeCNAME, rec_Data := ''example.org.''\<rparr>\<rparr>,
      empty_change\<lparr>chg_Kind := ChangeDeleteRecord, chg_Record := sample_record\<rparr>]"

theorem ApplyChanges_stops_midway:
  "ValidateChanges names_ref set_ref sample_mgr midway_changes sample_state = Inr () \<and>
   fst (ApplyChanges names_ref set_ref sample_mgr midway_changes sample_state) =
     Inl (Coded CodeZoneCNAMEConflict ErrCNAMEConflict) \<and>
   mgr_HasZone names_ref sample_mgr ''example.net'' sample_state = Inr False \<and>
   mgr_HasZone names_ref sample_mgr ''example.net''
     (snd (ApplyChanges names_ref set_ref sample_mgr midway_changes sample_state)) = Inr True"
  by (intro conjI; code_simp)

text \<open>
  The preview of an upsert of a stored record with a new TTL shows the old TTL: \<^verbatim>\<open>upsertRecords\<close> keeps
  the first record of a key, while the store replaces it.
\<close>

definition ttl_change :: "Change list" where
  "ttl_change = [empty_change\<lparr>chg_Kind := ChangeUpsertRecord, chg_Record := sample_record\<lparr>rec_TTL := 60\<rparr>\<rparr>]"

theorem PreviewChanges_shows_stale_record:
  "(case PreviewChanges names_ref set_ref sample_mgr ttl_change sample_state of
      Inr preview \<Rightarrow> map snap_Records (prv_Zones preview) = [[sample_record]] | Inl _ \<Rightarrow> False) \<and>
   mgr_ListRecords names_ref sample_mgr (zone_filter ''example.org.'')
     (snd (ApplyChanges names_ref set_ref sample_mgr ttl_change sample_state)) = Inr [sample_record\<lparr>rec_TTL := 60\<rparr>]"
  by (intro conjI; code_simp)

text \<open>
  The preview takes the zone of a change from more fields than the application does: an RRset change
  that names its zone only in its records passes the validation and is then refused.
\<close>

definition zoneless_change :: "Change list" where
  "zoneless_change = [empty_change\<lparr>chg_Kind := ChangeUpsertRRSet, chg_Name := ''ftp.example.org'', chg_Type := TypeA,
     chg_Records := [sample_record\<lparr>rec_Name := []\<rparr>]\<rparr>]"

theorem ApplyChanges_refuses_validated_change:
  "ValidateChanges names_ref set_ref sample_mgr zoneless_change sample_state = Inr () \<and>
   fst (ApplyChanges names_ref set_ref sample_mgr zoneless_change sample_state) =
     Inl (Coded CodeZoneNameRequired ErrZoneNameRequired)"
  by (intro conjI; code_simp)

text \<open>
  The preview of the deletion of an RRset of type ANY shows that nothing is deleted; the application
  deletes every record of the name.
\<close>

definition any_change :: "Change list" where
  "any_change = [empty_change\<lparr>chg_Kind := ChangeDeleteRRSet, chg_ZoneName := ''example.org'',
     chg_Name := ''www.example.org'', chg_Type := TypeANY\<rparr>]"

theorem PreviewChanges_ANY_differs:
  "(case PreviewChanges names_ref set_ref sample_mgr any_change sample_state of
      Inr preview \<Rightarrow> map snap_Records (prv_Zones preview) = [[sample_record]] | Inl _ \<Rightarrow> False) \<and>
   mgr_ListRecords names_ref sample_mgr (zone_filter ''example.org.'')
     (snd (ApplyChanges names_ref set_ref sample_mgr any_change sample_state)) = Inr []"
  by (intro conjI; code_simp)

end
