(* ===== verification/Manager_Concurrent.thy ===== *)
theory Manager_Concurrent
  imports Manager
begin

text \<open>
  The manager under requests that run side by side. Every DNS message and every HTTP request is handled by a goroutine of its own, and the
  manager (\<^verbatim>\<open>dnsserver/manager.go\<close>, \<^verbatim>\<open>manager_rrset.go\<close>) has no lock: between the calls of the repository that make up
  one method, other goroutines make theirs. A call of the repository is one step here: it is a transaction of the database, or acts on
  maps that are safe for concurrent use.
\<close>

section \<open>Calls step by step\<close>

text \<open>
  What a goroutine still has to do: return, or call the repository, which changes the store to \<open>upd s\<close>, and go on with
  \<open>cont s\<close>, which depends on what the call returned. \<open>run_alone\<close> is the goroutine when no other one runs.
\<close>

datatype ('s, 'a) goroutine = Return 'a | Call "'s \<Rightarrow> 's" "'s \<Rightarrow> ('s, 'a) goroutine"

primrec run_alone :: "('s, 'a) goroutine \<Rightarrow> 's \<Rightarrow> 'a \<times> 's" where
  "run_alone (Return x) = (\<lambda>s. (x, s))"
| "run_alone (Call upd cont) = (\<lambda>s. run_alone (cont s) (upd s))"

definition do_write :: "(error, 'b, 's) action \<Rightarrow> (error + 'b \<Rightarrow> ('s, 'a) goroutine) \<Rightarrow> ('s, 'a) goroutine" where
  "do_write f k = Call (\<lambda>s. snd (f s)) (\<lambda>s. k (fst (f s)))"

definition do_read :: "('s \<Rightarrow> 'b) \<Rightarrow> ('b \<Rightarrow> ('s, 'a) goroutine) \<Rightarrow> ('s, 'a) goroutine" where
  "do_read f k = Call (\<lambda>s. s) (\<lambda>s. k (f s))"

lemma run_alone_do [simp]:
  "run_alone (do_write f k) s = run_alone (k (fst (f s))) (snd (f s))"
  "run_alone (do_read g l) s = run_alone (l (g s)) s"
  by (simp_all add: do_write_def do_read_def)

text \<open>
  The methods of the manager, with each call of the repository a step of its own and \<open>k\<close> what is done with the result.
  A validation reads the records of the zone with one call.
\<close>

definition con_UpsertZone ::
  "'x names_pkg_scheme \<Rightarrow> 's Manager option \<Rightarrow> Zone \<Rightarrow> (error + Zone \<Rightarrow> ('s, 'a) goroutine) \<Rightarrow> ('s, 'a) goroutine" where
  "con_UpsertZone E m zone k =
     (case requireRepository m of
        Inl err \<Rightarrow> k (Inl err)
      | Inr repo \<Rightarrow>
         (case NormalizeZoneName E (zone_Name zone) of
            Inl err \<Rightarrow> k (Inl err)
          | Inr normalizedName \<Rightarrow>
              do_write (repo_SaveZone repo \<lparr>zone_Name = normalizedName\<rparr>)
                (\<lambda>res. case res of Inl err \<Rightarrow> k (Inl err) | Inr _ \<Rightarrow> k (Inr \<lparr>zone_Name = normalizedName\<rparr>))))"

definition con_DeleteZone ::
  "'x names_pkg_scheme \<Rightarrow> 's Manager option \<Rightarrow> string \<Rightarrow> (error + unit \<Rightarrow> ('s, 'a) goroutine) \<Rightarrow> ('s, 'a) goroutine" where
  "con_DeleteZone E m zone k =
     (case requireRepository m of
        Inl err \<Rightarrow> k (Inl err)
      | Inr repo \<Rightarrow>
         (case NormalizeZoneName E zone of
            Inl err \<Rightarrow> k (Inl err)
          | Inr normalizedZone \<Rightarrow> do_write (repo_DeleteZone repo normalizedZone) k))"

definition con_UpsertRecord ::
  "'x names_pkg_scheme \<Rightarrow> 'o set_pkg \<Rightarrow> 's Manager option \<Rightarrow> Record \<Rightarrow> (error + Record \<Rightarrow> ('s, 'a) goroutine) \<Rightarrow> ('s, 'a) goroutine" where
  "con_UpsertRecord E OS m record k =
     (case requireRepository m of
        Inl err \<Rightarrow> k (Inl err)
      | Inr repo \<Rightarrow>
         (case NormalizeRecord E record of
            Inl err \<Rightarrow> k (Inl err)
          | Inr normalizedRecord \<Rightarrow>
              do_read (validateRecordUpsert E OS m normalizedRecord)
                (\<lambda>checked. case checked of
                   Inl err \<Rightarrow> k (Inl err)
                 | Inr _ \<Rightarrow>
                     do_write (repo_SaveRecord repo normalizedRecord)
                       (\<lambda>res. case res of Inl err \<Rightarrow> k (Inl err) | Inr _ \<Rightarrow> k (Inr normalizedRecord)))))"

definition con_DeleteRecord ::
  "'x names_pkg_scheme \<Rightarrow> 's Manager option \<Rightarrow> Record \<Rightarrow> (error + unit \<Rightarrow> ('s, 'a) goroutine) \<Rightarrow> ('s, 'a) goroutine" where
  "con_DeleteRecord E m record k =
     (case requireRepository m of
        Inl err \<Rightarrow> k (Inl err)
      | Inr repo \<Rightarrow>
         (case NormalizeRecord E record of
            Inl err \<Rightarrow> k (Inl err)
          | Inr normalizedRecord \<Rightarrow> do_write (repo_DeleteRecord repo normalizedRecord) k))"

fun con_deleteRecords ::
  "'x names_pkg_scheme \<Rightarrow> 's Manager option \<Rightarrow> nat \<Rightarrow> Record list \<Rightarrow> (error + nat \<Rightarrow> ('s, 'a) goroutine) \<Rightarrow> ('s, 'a) goroutine" where
  "con_deleteRecords E m deleted [] k = k (Inr deleted)"
| "con_deleteRecords E m deleted (record # records) k =
     con_DeleteRecord E m record
       (\<lambda>res. case res of Inl err \<Rightarrow> k (Inl err) | Inr _ \<Rightarrow> con_deleteRecords E m (deleted + 1) records k)"

definition con_DeleteRRSet ::
  "'x names_pkg_scheme \<Rightarrow> 's Manager option \<Rightarrow> string \<Rightarrow> string \<Rightarrow> uint16 \<Rightarrow> (error + nat \<Rightarrow> ('s, 'a) goroutine) \<Rightarrow> ('s, 'a) goroutine" where
  "con_DeleteRRSet E m zone name rrtype k =
     (case requireRepository m of
        Inl err \<Rightarrow> k (Inl err)
      | Inr repo \<Rightarrow>
         (case normalizeRRSetLookup E zone name of
            Inl err \<Rightarrow> k (Inl err)
          | Inr (normalizedZone, normalizedName) \<Rightarrow>
              do_read (repo_Lookup repo normalizedZone normalizedName rrtype ClassANY)
                (\<lambda>found. case found of Inl err \<Rightarrow> k (Inl err) | Inr records \<Rightarrow> con_deleteRecords E m 0 records k)))"

definition con_DeleteName ::
  "'x names_pkg_scheme \<Rightarrow> 's Manager option \<Rightarrow> string \<Rightarrow> string \<Rightarrow> (error + nat \<Rightarrow> ('s, 'a) goroutine) \<Rightarrow> ('s, 'a) goroutine" where
  "con_DeleteName E m zone name k =
     (case requireRepository m of
        Inl err \<Rightarrow> k (Inl err)
      | Inr repo \<Rightarrow>
         (case normalizeRRSetLookup E zone name of
            Inl err \<Rightarrow> k (Inl err)
          | Inr (normalizedZone, normalizedName) \<Rightarrow>
              do_read (repo_LookupAll repo normalizedZone normalizedName ClassANY)
                (\<lambda>found. case found of Inl err \<Rightarrow> k (Inl err) | Inr records \<Rightarrow> con_deleteRecords E m 0 records k)))"

fun con_upsertLoop ::
  "'x names_pkg_scheme \<Rightarrow> 'o set_pkg \<Rightarrow> 's Manager option \<Rightarrow> Record list \<Rightarrow> (error + Record list \<Rightarrow> ('s, 'a) goroutine) \<Rightarrow>
     ('s, 'a) goroutine" where
  "con_upsertLoop E OS m [] k = k (Inr [])"
| "con_upsertLoop E OS m (record # records) k =
     con_UpsertRecord E OS m record
       (\<lambda>res. case res of
          Inl err \<Rightarrow> k (Inl err)
        | Inr savedRecord \<Rightarrow> con_upsertLoop E OS m records (\<lambda>rest. k (map_sum id ((#) savedRecord) rest)))"

definition con_UpsertRRSet ::
  "'x names_pkg_scheme \<Rightarrow> 'o set_pkg \<Rightarrow> 's Manager option \<Rightarrow> string \<Rightarrow> string \<Rightarrow> uint16 \<Rightarrow> Record list \<Rightarrow>
     (error + Record list \<Rightarrow> ('s, 'a) goroutine) \<Rightarrow> ('s, 'a) goroutine" where
  "con_UpsertRRSet E OS m zone name rrtype records k =
     (case requireRepository m of
        Inl err \<Rightarrow> k (Inl err)
      | Inr repo \<Rightarrow>
         (case normalizeRRSetRecords E OS zone name rrtype records of
            Inl err \<Rightarrow> k (Inl err)
          | Inr normalizedRecords \<Rightarrow>
              do_read (validateRRSetUpsert E OS m normalizedRecords)
                (\<lambda>checked. case checked of
                   Inl err \<Rightarrow> k (Inl err)
                 | Inr _ \<Rightarrow>
                    (case normalizedRecords of
                       [] \<Rightarrow> k (Inl (Panic ''index out of range''))
                     | target # _ \<Rightarrow>
                         con_DeleteRRSet E m (rec_Zone target) (rec_Name target) rrtype
                           (\<lambda>res. case res of Inl err \<Rightarrow> k (Inl err) | Inr _ \<Rightarrow> con_upsertLoop E OS m normalizedRecords k)))))"

text \<open>A goroutine that is not interrupted does what the method of the manager does.\<close>

lemma alone_simple:
  "run_alone (con_UpsertZone E m zone k) s = (case mgr_UpsertZone E m zone s of (res, s') \<Rightarrow> run_alone (k res) s')"
  "run_alone (con_DeleteZone E m zn l) s = (case mgr_DeleteZone E m zn s of (res, s') \<Rightarrow> run_alone (l res) s')"
  "run_alone (con_UpsertRecord E OS m record j) s = (case mgr_UpsertRecord E OS m record s of (res, s') \<Rightarrow> run_alone (j res) s')"
  "run_alone (con_DeleteRecord E m record l) s = (case mgr_DeleteRecord E m record s of (res, s') \<Rightarrow> run_alone (l res) s')"
  by (auto simp: con_UpsertZone_def mgr_UpsertZone_def con_DeleteZone_def mgr_DeleteZone_def con_UpsertRecord_def mgr_UpsertRecord_def
      con_DeleteRecord_def mgr_DeleteRecord_def split: sum.split prod.split)

lemma alone_deleteRecords:
  "run_alone (con_deleteRecords E m d records k) s = (case deleteRecords E m d records s of (res, s') \<Rightarrow> run_alone (k res) s')"
  by (induction records arbitrary: d s) (auto simp: alone_simple split: prod.split sum.split)

lemma alone_upsertLoop:
  "run_alone (con_upsertLoop E OS m records k) s = (case upsertRRSetLoop E OS m records s of (res, s') \<Rightarrow> run_alone (k res) s')"
proof (induction records arbitrary: k s)
  case (Cons r rs)
  show ?case by (auto simp: alone_simple Cons.IH split: prod.split sum.split)
qed simp

lemma alone_delete:
  "run_alone (con_DeleteRRSet E m zone name t k) s = (case mgr_DeleteRRSet E m zone name t s of (res, s') \<Rightarrow> run_alone (k res) s')"
  "run_alone (con_DeleteName E m zone name k) s = (case mgr_DeleteName E m zone name s of (res, s') \<Rightarrow> run_alone (k res) s')"
  by (auto simp: con_DeleteRRSet_def mgr_DeleteRRSet_def con_DeleteName_def mgr_DeleteName_def alone_deleteRecords split: sum.split prod.split)

lemma alone_UpsertRRSet:
  "run_alone (con_UpsertRRSet E OS m zone name t records k) s =
     (case mgr_UpsertRRSet E OS m zone name t records s of (res, s') \<Rightarrow> run_alone (k res) s')"
  by (simp add: con_UpsertRRSet_def mgr_UpsertRRSet_def alone_delete alone_upsertLoop del: con_upsertLoop.simps upsertRRSetLoop.simps
      split: sum.split prod.split list.split)

section \<open>Goroutines side by side\<close>

datatype mgr_call =
    CallUpsertZone Zone | CallDeleteZone string | CallUpsertRecord Record | CallDeleteRecord Record
  | CallUpsertRRSet string string uint16 "Record list" | CallDeleteRRSet string string uint16 | CallDeleteName string string

definition outcome :: "error + 'b \<Rightarrow> error option" where
  "outcome res = (case res of Inl err \<Rightarrow> Some err | Inr _ \<Rightarrow> None)"

definition ends :: "error + 'b \<Rightarrow> ('s, error option) goroutine" where
  "ends res = Return (outcome res)"

fun call_goroutine :: "'x names_pkg_scheme \<Rightarrow> 'o set_pkg \<Rightarrow> 's Manager option \<Rightarrow> mgr_call \<Rightarrow> ('s, error option) goroutine" where
  "call_goroutine E OS m (CallUpsertZone zone) = con_UpsertZone E m zone ends"
| "call_goroutine E OS m (CallDeleteZone zone) = con_DeleteZone E m zone ends"
| "call_goroutine E OS m (CallUpsertRecord record) = con_UpsertRecord E OS m record ends"
| "call_goroutine E OS m (CallDeleteRecord record) = con_DeleteRecord E m record ends"
| "call_goroutine E OS m (CallUpsertRRSet zone name rrtype records) = con_UpsertRRSet E OS m zone name rrtype records ends"
| "call_goroutine E OS m (CallDeleteRRSet zone name rrtype) = con_DeleteRRSet E m zone name rrtype ends"
| "call_goroutine E OS m (CallDeleteName zone name) = con_DeleteName E m zone name ends"

fun mgr_call_alone :: "'x names_pkg_scheme \<Rightarrow> 'o set_pkg \<Rightarrow> 's Manager option \<Rightarrow> mgr_call \<Rightarrow> 's \<Rightarrow> error option \<times> 's" where
  "mgr_call_alone E OS m (CallUpsertZone zone) s = map_prod outcome id (mgr_UpsertZone E m zone s)"
| "mgr_call_alone E OS m (CallDeleteZone zone) s = map_prod outcome id (mgr_DeleteZone E m zone s)"
| "mgr_call_alone E OS m (CallUpsertRecord r) s = map_prod outcome id (mgr_UpsertRecord E OS m r s)"
| "mgr_call_alone E OS m (CallDeleteRecord r) s = map_prod outcome id (mgr_DeleteRecord E m r s)"
| "mgr_call_alone E OS m (CallUpsertRRSet zone name rrtype records) s = map_prod outcome id (mgr_UpsertRRSet E OS m zone name rrtype records s)"
| "mgr_call_alone E OS m (CallDeleteRRSet zone name rrtype) s = map_prod outcome id (mgr_DeleteRRSet E m zone name rrtype s)"
| "mgr_call_alone E OS m (CallDeleteName zone name) s = map_prod outcome id (mgr_DeleteName E m zone name s)"

text \<open>The zone a call adds records to.\<close>

fun call_zone :: "'x names_pkg_scheme \<Rightarrow> mgr_call \<Rightarrow> string option" where
  "call_zone E (CallUpsertRecord r) = (case NormalizeRecord E r of Inl _ \<Rightarrow> None | Inr n \<Rightarrow> Some (rec_Zone n))"
| "call_zone E (CallUpsertRRSet zone name rrtype records) = (case NormalizeZoneName E zone of Inl _ \<Rightarrow> None | Inr z \<Rightarrow> Some z)"
| "call_zone E _ = None"

fun plain_call :: "mgr_call \<Rightarrow> bool" where
  "plain_call (CallUpsertZone zone) = plain (zone_Name zone)"
| "plain_call (CallDeleteZone zone) = plain zone"
| "plain_call (CallUpsertRecord r) = plain_record r"
| "plain_call (CallDeleteRecord r) = plain_record r"
| "plain_call (CallUpsertRRSet zone name rrtype records) = (plain zone \<and> plain name \<and> list_all plain_record records)"
| "plain_call (CallDeleteRRSet zone name rrtype) = (plain zone \<and> plain name)"
| "plain_call (CallDeleteName zone name) = (plain zone \<and> plain name)"

text \<open>
  The running goroutines, each with the zone it adds records to, and the store. A goroutine can start whenever \<open>may\<close> allows it,
  any of them can make its next call of the repository, and one that has returned goes away.
\<close>

type_synonym 's pool = "(string option \<times> ('s, error option) goroutine) list"

inductive con_run :: "'x names_pkg_scheme \<Rightarrow> 'o set_pkg \<Rightarrow> 's Manager option \<Rightarrow> ('s pool \<Rightarrow> mgr_call \<Rightarrow> bool) \<Rightarrow> 's \<Rightarrow> 's pool \<Rightarrow> 's \<Rightarrow> bool"
  for E :: "'x names_pkg_scheme" and OS :: "'o set_pkg" and m :: "'s Manager option" and may :: "'s pool \<Rightarrow> mgr_call \<Rightarrow> bool" and s0 :: 's
where
  con_start: "con_run E OS m may s0 [] s0"
| con_call: "con_run E OS m may s0 pool s \<Longrightarrow> plain_call c \<Longrightarrow> may pool c \<Longrightarrow>
    con_run E OS m may s0 (pool @ [(call_zone E c, call_goroutine E OS m c)]) s"
| con_step: "con_run E OS m may s0 pool s \<Longrightarrow> i < length pool \<Longrightarrow> pool ! i = (z, Call upd cont) \<Longrightarrow>
    con_run E OS m may s0 (pool[i := (z, cont s)]) (upd s)"
| con_return: "con_run E OS m may s0 (pool @ (z, Return x) # pool') s \<Longrightarrow> con_run E OS m may s0 (pool @ pool') s"

text \<open>One upsert at a time for each zone.\<close>

definition one_per_zone :: "'x names_pkg_scheme \<Rightarrow> 's pool \<Rightarrow> mgr_call \<Rightarrow> bool" where
  "one_per_zone E pool c \<longleftrightarrow> (case call_zone E c of None \<Rightarrow> True | Some z \<Rightarrow> Some z \<notin> set (map fst pool))"

subsection \<open>Safe goroutines\<close>

text \<open>
  A goroutine that adds records to the zone \<open>o\<close> only, and keeps all zones valid with every step as long as the
  others add no record to this zone, which has at most the records \<open>A\<close> now.
\<close>

definition zone_bound :: "string option \<Rightarrow> abs_store \<Rightarrow> Record set" where
  "zone_bound z a = (case z of None \<Rightarrow> {} | Some zn \<Rightarrow> zone_records zn a)"

inductive safe ::
  "('s \<Rightarrow> bool) \<Rightarrow> ('s \<Rightarrow> abs_store) \<Rightarrow> string option \<Rightarrow> Record set \<Rightarrow> ('s, 'a) goroutine \<Rightarrow> bool"
  for invar :: "'s \<Rightarrow> bool" and content :: "'s \<Rightarrow> abs_store" and z :: "string option"
where
  safe_return: "safe invar content z A (Return x)"
| safe_call: "(\<And>s. invar s \<Longrightarrow> all_valid (content s) \<Longrightarrow> (\<And>zn. z = Some zn \<Longrightarrow> zone_records zn (content s) \<subseteq> A) \<Longrightarrow>
      invar (upd s) \<and> all_valid (content (upd s)) \<and>
      (\<forall>zn. z \<noteq> Some zn \<longrightarrow> zone_records zn (content (upd s)) \<subseteq> zone_records zn (content s)) \<and>
      safe invar content z (zone_bound z (content (upd s))) (cont s)) \<Longrightarrow>
    safe invar content z A (Call upd cont)"

lemma safe_CallD:
  assumes "safe invar content z A (Call upd cont)" and "invar s" and "all_valid (content s)"
    and "\<And>zn. z = Some zn \<Longrightarrow> zone_records zn (content s) \<subseteq> A"
  shows "invar (upd s) \<and> all_valid (content (upd s)) \<and>
    (\<forall>zn. z \<noteq> Some zn \<longrightarrow> zone_records zn (content (upd s)) \<subseteq> zone_records zn (content s)) \<and>
    safe invar content z (zone_bound z (content (upd s))) (cont s)"
  using assms(1)
proof (cases rule: safe.cases)
  case safe_call
  show ?thesis by (rule safe_call [OF assms(2-4)])
qed

lemma safe_mono:
  assumes "safe invar content z A p" and "B \<subseteq> A"
  shows "safe invar content z B p"
  using assms(1)
proof (cases rule: safe.cases)
  case (safe_call upd cont)
  have "safe invar content z B (Call upd cont)"
    by (rule safe.safe_call, rule safe_call(2)) (use assms(2) in blast)+
  then show ?thesis using safe_call(1) by simp
qed (simp add: safe_return)

context repository
begin

abbreviation safely :: "string option \<Rightarrow> Record set \<Rightarrow> ('s, 'a) goroutine \<Rightarrow> bool" where
  "safely z A p \<equiv> safe invar content z A p"

lemma safe_read:
  assumes "\<And>s. invar s \<Longrightarrow> all_valid (content s) \<Longrightarrow> safely z (zone_bound z (content s)) (l (f s))"
  shows "safely z A (do_read f l)"
  unfolding do_read_def by (rule safe_call) (use assms in simp)

lemma safe_shrinking:
  assumes "\<And>s. invar s \<Longrightarrow> shrinks invar content s (snd (f s))" and "\<And>x B. safely z B (k x)"
  shows "safely z A (do_write f k)"
  unfolding do_write_def
proof (rule safe_call)
  fix s
  assume s: "invar s" "all_valid (content s)"
  note sh = assms(1) [OF s(1)]
  show "invar (snd (f s)) \<and> all_valid (content (snd (f s))) \<and>
      (\<forall>zn. z \<noteq> Some zn \<longrightarrow> zone_records zn (content (snd (f s))) \<subseteq> zone_records zn (content s)) \<and>
      safely z (zone_bound z (content (snd (f s)))) (k (fst (f s)))"
    using shrinks_valid [OF sh s(2)] sh assms(2) by (auto simp: shrinks_def zone_records_def)
qed

lemma safe_save:
  assumes "normal_record E n" and "zone_valid (rec_Zone n) False (put_record E n A)" and "z = Some (rec_Zone n)" and "\<And>x B. safely z B (k x)"
  shows "safely z A (do_write (repo_SaveRecord R n) k)"
  unfolding do_write_def
proof (rule safe_call)
  fix s
  assume s: "invar s" "all_valid (content s)" and A: "\<And>zn. z = Some zn \<Longrightarrow> zone_records zn (content s) \<subseteq> A"
  have pn: "plain_record n" using assms(1) by (simp add: normal_record_def)
  obtain s' where s': "repo_SaveRecord R n s = (Inr (), s')" "invar s'" "content s' = put_content E n (content s)"
    using SaveRecord_put [OF s(1) assms(1)] by blast
  have other: "zone_records zn (content s') = zone_records zn (content s)" if "zn \<noteq> rec_Zone n" for zn
    unfolding s'(3) by (rule zone_records_put_other [OF pn plain_stored [OF s(1)] that])
  have "zone_records (rec_Zone n) (content s') = put_record E n (zone_records (rec_Zone n) (content s))"
    unfolding s'(3) by (rule zone_records_put [OF pn])
  also have "\<dots> \<subseteq> put_record E n A" using A [OF assms(3)] by (auto simp: put_record_def)
  finally have "zone_valid (rec_Zone n) False (zone_records (rec_Zone n) (content s'))"
    by (rule zone_valid_mono [OF assms(2)])
  then have "zone_valid zn False (zone_records zn (content s'))" for zn
    using other s(2) by (cases "zn = rec_Zone n") (simp_all add: all_valid_def)
  then show "invar (snd (repo_SaveRecord R n s)) \<and> all_valid (content (snd (repo_SaveRecord R n s))) \<and>
      (\<forall>zn. z \<noteq> Some zn \<longrightarrow> zone_records zn (content (snd (repo_SaveRecord R n s))) \<subseteq> zone_records zn (content s)) \<and>
      safely z (zone_bound z (content (snd (repo_SaveRecord R n s)))) (k (fst (repo_SaveRecord R n s)))"
    using assms(3,4) s'(1,2) other by (simp add: all_valid_def)
qed

lemma safe_UpsertRecord:
  assumes "set_pkg_ok OS" and "plain_record r" and "\<And>n. NormalizeRecord E r = Inr n \<Longrightarrow> z = Some (rec_Zone n)" and "\<And>x B. safely z B (k x)"
  shows "safely z A (con_UpsertRecord E OS (mgr_of R) r k)"
proof (cases "NormalizeRecord E r")
  case (Inl err)
  then show ?thesis by (simp add: con_UpsertRecord_def assms(4))
next
  case (Inr n)
  have "safely z (zone_bound z (content s)) (case validateRecordUpsert E OS (mgr_of R) n s of Inl err \<Rightarrow> k (Inl err)
      | Inr _ \<Rightarrow> do_write (repo_SaveRecord R n) (\<lambda>res. case res of Inl err \<Rightarrow> k (Inl err) | Inr _ \<Rightarrow> k (Inr n)))"
    if s: "invar s" for s
  proof (cases "validateRecordUpsert E OS (mgr_of R) n s")
    case (Inl err)
    then show ?thesis by (simp add: assms(4))
  next
    case checked: (Inr u)
    have n: "normal_record E n" by (rule normal_record_NormalizeRecord [OF names_ok [OF s] assms(2) Inr])
    then have pn: "plain_record n" by (simp add: normal_record_def)
    have z: "z = Some (rec_Zone n)" by (rule assms(3) [OF Inr])
    have "zone_valid (rec_Zone n) False (put_record E n (zone_bound z (content s)))"
      using validateRecordUpsert_iff [OF s assms(1) n] checked by (simp add: z zone_bound_def zone_records_put [OF pn])
    from safe_save [OF n this z, of "\<lambda>res. case res of Inl err \<Rightarrow> k (Inl err) | Inr _ \<Rightarrow> k (Inr n)"] show ?thesis
      using assms(4) checked by (simp split: sum.split)
  qed
  then show ?thesis by (simp add: con_UpsertRecord_def Inr safe_read)
qed

lemma shrinking_calls:
  assumes "invar s"
  shows "plain (zone_Name (zone :: Zone)) \<Longrightarrow> NormalizeZoneName E (zone_Name zone) = Inr z \<Longrightarrow> shrinks invar content s (snd (repo_SaveZone R \<lparr>zone_Name = z\<rparr> s))"
    and "plain zn \<Longrightarrow> NormalizeZoneName E zn = Inr z \<Longrightarrow> shrinks invar content s (snd (repo_DeleteZone R z s))"
    and "plain_record r \<Longrightarrow> NormalizeRecord E r = Inr n \<Longrightarrow> shrinks invar content s (snd (repo_DeleteRecord R n s))"
  using deletions_shrink(1) [OF assms, of zone] deletions_shrink(2) [OF assms, of zn] deletions_shrink(3) [OF assms, of r]
  by (auto simp: mgr_UpsertZone_def mgr_DeleteZone_def mgr_DeleteRecord_def split: prod.splits sum.splits)

lemma safe_DeleteRecord:
  assumes "plain_record r" and "\<And>x B. safely z B (k x)"
  shows "safely z A (con_DeleteRecord E (mgr_of R) r k)"
  using assms(2) safe_shrinking [OF shrinking_calls(3) [OF _ assms(1)] assms(2)]
  by (simp add: con_DeleteRecord_def split: sum.split)

lemma safe_deleteRecords:
  assumes "list_all plain_record rs" and "\<And>x B. safely z B (k x)"
  shows "safely z A (con_deleteRecords E (mgr_of R) d rs k)"
  using assms(1)
proof (induction rs arbitrary: d A)
  case (Cons r rs)
  then show ?case by (auto intro!: safe_DeleteRecord simp: assms(2) split: sum.split)
qed (simp add: assms(2))

lemma safe_delete:
  assumes "\<And>x B. safely z B (k x)" and "plain zone" and "plain name"
  shows "safely z A (con_DeleteRRSet E (mgr_of R) zone name t k)" and "safely z A (con_DeleteName E (mgr_of R) zone name k)"
proof -
  have found: "list_all plain_record rs" if "invar s" "normalizeRRSetLookup E zone name = Inr (zn, n)"
    "repo_Lookup R zn n t ClassANY s = Inr rs \<or> repo_LookupAll R zn n ClassANY s = Inr rs" for s zn n rs
  proof -
    note l = normalizeRRSetLookup_normal(3) [OF names_ok [OF that(1)] assms(2,3) that(2)]
    have "set rs \<subseteq> abs_records (content s)"
      using Lookup [OF that(1) l, of t ClassANY] LookupAll [OF that(1) l, of ClassANY] that(3) by (auto simp: enumerates_def lookup_set_def)
    then show ?thesis using plain_stored [OF that(1)] by (auto simp: list_all_iff)
  qed
  show "safely z A (con_DeleteRRSet E (mgr_of R) zone name t k)" "safely z A (con_DeleteName E (mgr_of R) zone name k)"
    by (auto simp: con_DeleteRRSet_def con_DeleteName_def assms(1) split: sum.split intro!: safe_read safe_deleteRecords found)
qed

lemma safe_upsertLoop:
  assumes "set_pkg_ok OS" and "\<And>x B. safely (Some zn) B (k x)" and "\<And>r. r \<in> set rs \<Longrightarrow> normal_record E r \<and> rec_Zone r = zn"
  shows "safely (Some zn) A (con_upsertLoop E OS (mgr_of R) rs k)"
  using assms(2,3)
proof (induction rs arbitrary: A k)
  case (Cons r rs)
  have r: "normal_record E r" "rec_Zone r = zn" "plain_record r" using Cons.prems(2) by (auto simp: normal_record_def)
  have "safely (Some zn) B (con_upsertLoop E OS (mgr_of R) rs (\<lambda>rest. k (map_sum id ((#) saved) rest)))" for B saved
    by (rule Cons.IH) (use Cons.prems in auto)
  then show ?case
    using Cons.prems(1) r by (auto intro!: safe_UpsertRecord [OF assms(1) r(3)] simp: normal_recordD(1) split: sum.split)
qed simp

lemma safe_UpsertRRSet:
  assumes "set_pkg_ok OS" and "\<And>x B. safely z B (k x)" and "plain zone" and "plain name" and "list_all plain_record records"
    and "\<And>zn. NormalizeZoneName E zone = Inr zn \<Longrightarrow> z = Some zn"
  shows "safely z A (con_UpsertRRSet E OS (mgr_of R) zone name t records k)"
proof (cases "normalizeRRSetRecords E OS zone name t records")
  case (Inl err)
  then show ?thesis by (simp add: con_UpsertRRSet_def assms(2))
next
  case (Inr rs)
  have "safely z (zone_bound z (content s)) (case validateRRSetUpsert E OS (mgr_of R) rs s of
       Inl err \<Rightarrow> k (Inl err)
     | Inr _ \<Rightarrow>
        (case rs of
           [] \<Rightarrow> k (Inl (Panic ''index out of range''))
         | target # _ \<Rightarrow>
             con_DeleteRRSet E (mgr_of R) (rec_Zone target) (rec_Name target) t
               (\<lambda>res. case res of Inl err \<Rightarrow> k (Inl err) | Inr _ \<Rightarrow> con_upsertLoop E OS (mgr_of R) rs k)))"
    if s: "invar s" for s
  proof -
    from normalizeRRSetRecords_normal [OF names_ok [OF s] assms(1,3-5) Inr]
    obtain zn n where zn: "normalizeRRSetLookup E zone name = Inr (zn, n)"
      and rs: "\<And>r. r \<in> set rs \<Longrightarrow> normal_record E r \<and> rec_Zone r = zn \<and> rec_Name r = n \<and> rec_Type r = t" by metis
    then have z: "z = Some zn" using assms(6) by (simp add: normalizeRRSetLookup_Inr)
    have loop: "safely z B (con_upsertLoop E OS (mgr_of R) rs k)" for B
      unfolding z by (rule safe_upsertLoop [OF assms(1)]) (use assms(2) z rs in auto)
    have "safely z B (con_DeleteRRSet E (mgr_of R) (rec_Zone target) (rec_Name target) t
        (\<lambda>res. case res of Inl err \<Rightarrow> k (Inl err) | Inr _ \<Rightarrow> con_upsertLoop E OS (mgr_of R) rs k))" if "target \<in> set rs" for B target
      by (rule safe_delete(1))
        (use assms(2) loop rs [OF that] in \<open>auto simp: normal_record_def plain_record_def split: sum.split\<close>)
    then have "safely z (zone_bound z (content s)) (case rs of
           [] \<Rightarrow> k (Inl (Panic ''index out of range''))
         | target # _ \<Rightarrow>
             con_DeleteRRSet E (mgr_of R) (rec_Zone target) (rec_Name target) t
               (\<lambda>res. case res of Inl err \<Rightarrow> k (Inl err) | Inr _ \<Rightarrow> con_upsertLoop E OS (mgr_of R) rs k))"
      using assms(2) by (cases rs) (auto simp del: con_upsertLoop.simps)
    then show ?thesis by (simp add: assms(2) del: con_upsertLoop.simps split: sum.split)
  qed
  then show ?thesis by (simp add: con_UpsertRRSet_def Inr safe_read)
qed

lemma safe_call_goroutine:
  assumes "set_pkg_ok OS" and "plain_call c"
  shows "safely (call_zone E c) A (call_goroutine E OS (mgr_of R) c)"
proof -
  have fin: "safely z B (ends x)" for z B and x :: "error + 'e"
    by (simp add: ends_def safe_return)
  show ?thesis
  proof (cases c)
    case (CallUpsertZone zone)
    then show ?thesis using assms(2)
      by (auto simp: con_UpsertZone_def fin split: sum.split intro!: safe_shrinking shrinking_calls(1))
  next
    case (CallDeleteZone zone)
    then show ?thesis using assms(2)
      by (auto simp: con_DeleteZone_def fin split: sum.split intro!: safe_shrinking shrinking_calls(2))
  next
    case (CallUpsertRecord r)
    have "safely (call_zone E c) A (con_UpsertRecord E OS (mgr_of R) r ends)"
      by (rule safe_UpsertRecord [OF assms(1)]) (use assms(2) CallUpsertRecord fin in simp_all)
    then show ?thesis by (simp add: CallUpsertRecord)
  next
    case (CallDeleteRecord r)
    have "safely (call_zone E c) A (con_DeleteRecord E (mgr_of R) r ends)"
      by (rule safe_DeleteRecord) (use assms(2) CallDeleteRecord fin in simp_all)
    then show ?thesis by (simp add: CallDeleteRecord)
  next
    case (CallUpsertRRSet zone name t records)
    have "safely (call_zone E c) A (con_UpsertRRSet E OS (mgr_of R) zone name t records ends)"
      by (rule safe_UpsertRRSet [OF assms(1)]) (use assms(2) CallUpsertRRSet fin in simp_all)
    then show ?thesis by (simp add: CallUpsertRRSet)
  next
    case (CallDeleteRRSet zone name t)
    then show ?thesis using assms(2) safe_delete(1) [where k = ends, OF fin] by simp
  next
    case (CallDeleteName zone name)
    then show ?thesis using assms(2) safe_delete(2) [where k = ends, OF fin] by simp
  qed
qed

end

context repository
begin

definition con_ok :: "'s pool \<Rightarrow> 's \<Rightarrow> bool" where
  "con_ok pool s \<longleftrightarrow> invar s \<and> all_valid (content s) \<and> (\<forall>(z, p) \<in> set pool. safely z (zone_bound z (content s)) p) \<and>
     distinct (filter (\<lambda>z. z \<noteq> None) (map fst pool))"

lemma con_ok_step:
  assumes "con_ok (before @ (z, Call upd cont) # after) s"
  shows "con_ok (before @ (z, cont s) # after) (upd s)"
proof -
  have inv: "invar s" "all_valid (content s)" and me: "safely z (zone_bound z (content s)) (Call upd cont)"
    using assms by (simp_all add: con_ok_def)
  have others: "\<And>z' p. (z', p) \<in> set before \<union> set after \<Longrightarrow> safely z' (zone_bound z' (content s)) p"
    using assms unfolding con_ok_def by auto
  have dist: "distinct (filter (\<lambda>z. z \<noteq> None) (map fst (before @ (z, cont s) # after)))" using assms by (simp add: con_ok_def)
  have alone: "z' \<noteq> z" if "(z', p) \<in> set before \<union> set after" "z' \<noteq> None" for z' p
  proof
    assume z: "z' = z"
    have "z \<in> set (map fst before) \<union> set (map fst after)" using that(1) z by force
    then show False using dist that(2) z by auto
  qed
  have step: "invar (upd s)" "all_valid (content (upd s))" "safely z (zone_bound z (content (upd s))) (cont s)"
    "\<And>zn. z \<noteq> Some zn \<Longrightarrow> zone_records zn (content (upd s)) \<subseteq> zone_records zn (content s)"
    using safe_CallD [OF me inv] by (simp_all add: zone_bound_def)
  have "safely z' (zone_bound z' (content (upd s))) p" if "(z', p) \<in> set before \<union> set after" for z' p
  proof (rule safe_mono [OF others [OF that]])
    show "zone_bound z' (content (upd s)) \<subseteq> zone_bound z' (content s)"
      using alone [OF that] step(4) by (cases z') (auto simp: zone_bound_def)
  qed
  with step(1-3) dist show ?thesis by (auto simp: con_ok_def)
qed

lemma con_run_ok:
  assumes "set_pkg_ok OS" and "invar s0" and "all_valid (content s0)"
    and "con_run E OS (mgr_of R) (one_per_zone E) s0 pool s"
  shows "con_ok pool s"
  using assms(4)
proof (induction rule: con_run.induct)
  case con_start
  then show ?case using assms(2,3) by (simp add: con_ok_def)
next
  case (con_call pool s c)
  have "safely (call_zone E c) (zone_bound (call_zone E c) (content s)) (call_goroutine E OS (mgr_of R) c)"
    by (rule safe_call_goroutine [OF assms(1) con_call.hyps(2)])
  with con_call.IH con_call.hyps(3) show ?case by (auto simp: con_ok_def one_per_zone_def split: option.splits)
next
  case (con_step pool s i z upd cont)
  have pool: "pool = take i pool @ (z, Call upd cont) # drop (Suc i) pool" using con_step.hyps(2,3) by (metis id_take_nth_drop)
  have "con_ok (take i pool @ (z, cont s) # drop (Suc i) pool) (upd s)"
    by (rule con_ok_step) (use con_step.IH pool in simp)
  then show ?case using con_step.hyps(2) by (simp add: upd_conv_take_nth_drop)
next
  case (con_return pool z x pool' s)
  then show ?case by (cases z) (auto simp: con_ok_def)
qed

end

section \<open>Two upserts that overlap\<close>

context repository
begin

lemma two_upserts:
  assumes "invar s0" and "plain_record r1" and "plain_record r2" and "NormalizeRecord E r1 = Inr n1" and "NormalizeRecord E r2 = Inr n2"
    and "validateRecordUpsert E OS (mgr_of R) n1 s0 = Inr ()" and "validateRecordUpsert E OS (mgr_of R) n2 s0 = Inr ()"
    and "may [] (CallUpsertRecord r1)"
    and "may [(Some (rec_Zone n1), call_goroutine E OS (mgr_of R) (CallUpsertRecord r1))] (CallUpsertRecord r2)"
  shows "\<exists>s. con_run E OS (mgr_of R) may s0 [(Some (rec_Zone n1), Return None), (Some (rec_Zone n2), Return None)] s \<and>
    content s = put_content E n2 (put_content E n1 (content s0))"
proof -
  let ?save = "\<lambda>n. do_write (repo_SaveRecord R n) (\<lambda>res. case res of Inl err \<Rightarrow> ends (Inl err :: error + Record) | Inr _ \<Rightarrow> ends (Inr n))"
  let ?upsert = "\<lambda>n. Call (\<lambda>s. s) (\<lambda>s. case validateRecordUpsert E OS (mgr_of R) n s of Inl err \<Rightarrow> ends (Inl err :: error + Record) | Inr _ \<Rightarrow> ?save n)"
  let ?run = "con_run E OS (mgr_of R) may s0"
  let ?z1 = "Some (rec_Zone n1)" and ?z2 = "Some (rec_Zone n2)"
  have c: "call_goroutine E OS (mgr_of R) (CallUpsertRecord r1) = ?upsert n1" "call_goroutine E OS (mgr_of R) (CallUpsertRecord r2) = ?upsert n2"
    by (simp_all add: con_UpsertRecord_def assms(4,5) do_read_def)
  have n: "normal_record E n1" "normal_record E n2"
    using normal_record_NormalizeRecord [OF names_ok [OF assms(1)]] assms(2-5) by blast+
  obtain s1 where s1: "repo_SaveRecord R n1 s0 = (Inr (), s1)" "invar s1" "content s1 = put_content E n1 (content s0)"
    using SaveRecord_put [OF assms(1) n(1)] by blast
  obtain s2 where s2: "repo_SaveRecord R n2 s1 = (Inr (), s2)" "content s2 = put_content E n2 (content s1)"
    using SaveRecord_put [OF s1(2) n(2)] by blast
  have start: "?run [] s0" by (rule con_run.con_start)
  have "?run [(?z1, ?upsert n1)] s0"
    using con_run.con_call [OF start, of "CallUpsertRecord r1"] assms(2,4,8) c by simp
  from con_run.con_call [OF this, of "CallUpsertRecord r2"]
  have "?run [(?z1, ?upsert n1), (?z2, ?upsert n2)] s0" using assms(3,5,9) c by simp
  from con_run.con_step [OF this, of 0] have "?run [(?z1, ?save n1), (?z2, ?upsert n2)] s0" using assms(6) by simp
  from con_run.con_step [OF this, of 1] have "?run [(?z1, ?save n1), (?z2, ?save n2)] s0" using assms(7) by simp
  from con_run.con_step [OF this, of 0] have "?run [(?z1, Return None), (?z2, ?save n2)] s1"
    using s1(1) by (simp add: do_write_def ends_def outcome_def)
  from con_run.con_step [OF this, of 1] have "?run [(?z1, Return None), (?z2, Return None)] s2"
    using s2(1) by (simp add: do_write_def ends_def outcome_def)
  with s1(3) s2(2) show ?thesis by auto
qed

end

definition org_record :: "string \<Rightarrow> uint16 \<Rightarrow> string \<Rightarrow> Record" where
  "org_record zone t data = \<lparr>rec_Zone = zone, rec_Name = ''www.'' @ zone, rec_TTL = 60, rec_Class = ClassINET, rec_Type = t, rec_Data = data\<rparr>"

lemma overlapping_upserts:
  assumes "org_record z1 t1 d1 = n1" and "org_record z2 t2 d2 = n2" and "plain_record n1" and "plain_record n2"
    and "NormalizeRecord names_ref n1 = Inr n1" and "NormalizeRecord names_ref n2 = Inr n2"
    and "validateRecordUpsert names_ref set_ref sample_mgr n1 (NewMemoryStore mapping_ref) = Inr ()"
    and "validateRecordUpsert names_ref set_ref sample_mgr n2 (NewMemoryStore mapping_ref) = Inr ()"
    and "z1 = z2 \<Longrightarrow> any"
  shows "\<exists>s. con_run names_ref set_ref sample_mgr (\<lambda>pool c. any \<or> one_per_zone names_ref pool c) (NewMemoryStore mapping_ref)
      [(Some z1, Return None), (Some z2, Return None)] s \<and>
    abs_records (mem_content mapping_ref s) = put_record names_ref n2 {n1}"
proof -
  have inv: "mem_inv names_ref mapping_ref (NewMemoryStore mapping_ref)" by (simp add: mem_inv_New)
  have z: "rec_Zone n1 = z1" "rec_Zone n2 = z2" using assms(1,2) by (auto simp: org_record_def)
  let ?may = "\<lambda>pool c. any \<or> one_per_zone names_ref pool c"
  have "?may [] (CallUpsertRecord n1)"
    "?may [(Some (rec_Zone n1), call_goroutine names_ref set_ref sample_mgr (CallUpsertRecord n1))] (CallUpsertRecord n2)"
    using assms(5,6,9) by (auto simp: one_per_zone_def z)
  from mem.two_upserts [OF inv assms(3-8), of ?may, OF this]
  show ?thesis by (auto simp: z mem_content_New [OF mapping_ref_ok] put_content_def put_record_def)
qed

text \<open>
  Nothing keeps two upserts of one zone apart: the manager has no lock. Two records that the rules do not allow side by
  side, the second a CNAME, are both accepted when each is validated before the other is saved.
\<close>

lemma Manager_race_breaks_zone:
  "\<exists>s. con_run names_ref set_ref sample_mgr (\<lambda>_ _. True) (NewMemoryStore mapping_ref)
      [(Some ''example.org.'', Return None), (Some ''example.org.'', Return None)] s \<and>
    \<not> zone_valid ''example.org.'' False {r \<in> abs_records (mem_content mapping_ref s). rec_Zone r = ''example.org.''}"
proof -
  let ?a = "org_record ''example.org.'' TypeA ''192.0.2.1''" and ?c = "org_record ''example.org.'' TypeCNAME ''example.net.''"
  have facts: "plain_record ?a" "plain_record ?c" "NormalizeRecord names_ref ?a = Inr ?a" "NormalizeRecord names_ref ?c = Inr ?c"
    "validateRecordUpsert names_ref set_ref sample_mgr ?a (NewMemoryStore mapping_ref) = Inr ()"
    "validateRecordUpsert names_ref set_ref sample_mgr ?c (NewMemoryStore mapping_ref) = Inr ()" by code_simp+
  obtain s where s: "con_run names_ref set_ref sample_mgr (\<lambda>_ _. True) (NewMemoryStore mapping_ref)
      [(Some ''example.org.'', Return None), (Some ''example.org.'', Return None)] s"
    "abs_records (mem_content mapping_ref s) = put_record names_ref ?c {?a}"
    using overlapping_upserts [OF refl refl facts, of True] by auto
  have "Key names_ref ?a \<noteq> Key names_ref ?c" by code_simp
  then have "{r \<in> abs_records (mem_content mapping_ref s). rec_Zone r = ''example.org.''} = {?a, ?c}"
    unfolding s(2) by (auto simp: put_record_def org_record_def)
  moreover have "\<not> zone_valid ''example.org.'' False {?a, ?c}" by (simp add: zone_valid_def org_record_def)
  ultimately show ?thesis using s(1) by auto
qed

section \<open>Properties\<close>

text \<open>
  A call of the manager is a sequence of calls of the repository: a goroutine that is not interrupted ends with
  the outcome and the store of the method of the manager.
\<close>

theorem call_goroutine_alone: "run_alone (call_goroutine E OS m c) s = mgr_call_alone E OS m c s"
  by (cases c) (auto simp: alone_simple alone_delete alone_UpsertRRSet ends_def split: prod.split)



end
