(* ===== verification/Seed.thy ===== *)
theory Seed
  imports Manager
begin

text \<open>
  Seed data: the collection, validation and storage of zones and records in
  \<^verbatim>\<open>dnsserver/bootstrap.go\<close>, and \<^verbatim>\<open>Manager.ImportSeedData\<close>. Reading the file
  (\<^verbatim>\<open>LoadSeedData\<close>) is in theory \<open>Store_Files\<close>.
\<close>

section \<open>Operations\<close>

record SeedData =
  seed_Zones :: "Zone list"
  seed_Records :: "Record list"

record ImportResult =
  imp_Zones :: nat
  imp_Records :: nat

fun collectZonesLoop ::
  "'x names_pkg_scheme \<Rightarrow> 'o set_pkg \<Rightarrow> Zone list \<Rightarrow> 'o \<Rightarrow> error + 'o" where
  "collectZonesLoop E OS [] zoneNames = Inr zoneNames"
| "collectZonesLoop E OS (zone # zones) zoneNames =
     (case NormalizeZoneName E (zone_Name zone) of
        Inl err \<Rightarrow> Inl err
      | Inr normalized \<Rightarrow> collectZonesLoop E OS zones (oset_Add OS normalized zoneNames))"

definition collectSeedZones ::
  "'x names_pkg_scheme \<Rightarrow> 'o set_pkg \<Rightarrow> SeedData \<Rightarrow> error + 'o" where
  "collectSeedZones E OS seed = collectZonesLoop E OS (seed_Zones seed) (oset_new OS)"

text \<open>
  \<^verbatim>\<open>collectSeedRecords\<close> adds the zones of the records to the set it is given, which its callers go on
  using; the model returns that set beside the records.
\<close>

fun collectRecordsLoop ::
  "'x names_pkg_scheme \<Rightarrow> 'o set_pkg \<Rightarrow> Record list \<Rightarrow> 'o \<Rightarrow> 'o \<Rightarrow> error + (Record list \<times> 'o)" where
  "collectRecordsLoop E OS [] recordKeys zoneNames = Inr ([], zoneNames)"
| "collectRecordsLoop E OS (record # records) recordKeys zoneNames =
     (case NormalizeRecord E record of
        Inl err \<Rightarrow> Inl err
      | Inr normalized \<Rightarrow>
         (let zoneNames' = oset_Add OS (rec_Zone normalized) zoneNames in
          if oset_Contains OS recordKeys (Key E normalized)
          then collectRecordsLoop E OS records recordKeys zoneNames'
          else
            case collectRecordsLoop E OS records (oset_Add OS (Key E normalized) recordKeys) zoneNames' of
              Inl err \<Rightarrow> Inl err
            | Inr (rest, zoneNames'') \<Rightarrow> Inr (normalized # rest, zoneNames'')))"

definition collectSeedRecords ::
  "'x names_pkg_scheme \<Rightarrow> 'o set_pkg \<Rightarrow> SeedData \<Rightarrow> 'o \<Rightarrow> error + (Record list \<times> 'o)" where
  "collectSeedRecords E OS seed zoneNames =
     collectRecordsLoop E OS (seed_Records seed) (oset_new OS) zoneNames"

fun saveSeedZones :: "'s Repository \<Rightarrow> string list \<Rightarrow> (error, unit, 's) action" where
  "saveSeedZones repo [] s = (Inr (), s)"
| "saveSeedZones repo (zone # zones) s =
     (case repo_SaveZone repo \<lparr>zone_Name = zone\<rparr> s of
        (Inl err, s') \<Rightarrow> (Inl err, s')
      | (Inr _, s') \<Rightarrow> saveSeedZones repo zones s')"

fun saveSeedRecords :: "'s Repository \<Rightarrow> Record list \<Rightarrow> (error, unit, 's) action" where
  "saveSeedRecords repo [] s = (Inr (), s)"
| "saveSeedRecords repo (record # records) s =
     (case repo_SaveRecord repo record s of
        (Inl err, s') \<Rightarrow> (Inl err, s')
      | (Inr _, s') \<Rightarrow> saveSeedRecords repo records s')"

definition ApplySeedData ::
  "'x names_pkg_scheme \<Rightarrow> 'o set_pkg \<Rightarrow> 's Repository \<Rightarrow> SeedData \<Rightarrow> (error, unit, 's) action" where
  "ApplySeedData E OS repo seed s =
     (case collectSeedZones E OS seed of
        Inl err \<Rightarrow> (Inl err, s)
      | Inr zones \<Rightarrow>
         (case collectSeedRecords E OS seed zones of
            Inl err \<Rightarrow> (Inl err, s)
          | Inr (records, zoneNames) \<Rightarrow>
             (case validateRecordsByZone E OS records \<lparr>requireApexNS = True\<rparr> of
                Inl err \<Rightarrow> (Inl err, s)
              | Inr _ \<Rightarrow>
                 (case saveSeedZones repo (oset_Values OS zoneNames) s of
                    (Inl err, s') \<Rightarrow> (Inl err, s')
                  | (Inr _, s') \<Rightarrow> saveSeedRecords repo records s'))))"

definition ImportSeedData ::
  "'x names_pkg_scheme \<Rightarrow> 'o set_pkg \<Rightarrow> 's Manager option \<Rightarrow> SeedData \<Rightarrow> (error, ImportResult, 's) action" where
  "ImportSeedData E OS m seed s =
     (case requireRepository m of
        Inl err \<Rightarrow> (Inl err, s)
      | Inr repo \<Rightarrow>
         (case collectSeedZones E OS seed of
            Inl err \<Rightarrow> (Inl err, s)
          | Inr zones \<Rightarrow>
             (case collectSeedRecords E OS seed zones of
                Inl err \<Rightarrow> (Inl err, s)
              | Inr (records, zoneNames) \<Rightarrow>
                 (case validateRecordsByZone E OS records \<lparr>requireApexNS = True\<rparr> of
                    Inl err \<Rightarrow> (Inl err, s)
                  | Inr _ \<Rightarrow>
                     (case saveSeedZones repo (oset_Values OS zoneNames) s of
                        (Inl err, s') \<Rightarrow> (Inl err, s')
                      | (Inr _, s') \<Rightarrow>
                         (case saveSeedRecords repo records s' of
                            (Inl err, s'') \<Rightarrow> (Inl err, s'')
                          | (Inr _, s'') \<Rightarrow>
                              (Inr \<lparr>imp_Zones = oset_Len OS zoneNames, imp_Records = length records\<rparr>, s'')))))))"

section \<open>What is collected\<close>

text \<open>The normalised records of the seed, of those with the same key the first.\<close>

definition seed_names :: "'x names_pkg_scheme \<Rightarrow> SeedData \<Rightarrow> string set" where
  "seed_names E seed = (\<lambda>z. fqdnName E (zone_Name z)) ` set (seed_Zones seed) \<union>
     (\<lambda>r. fqdnName E (rec_Zone r)) ` set (seed_Records seed)"

lemma collectZonesLoop_Inr:
  assumes "set_pkg_ok OS"
  shows "collectZonesLoop E OS zones zs = Inr zs' \<Longrightarrow>
    set (oset_Values OS zs') = set (oset_Values OS zs) \<union> (\<lambda>z. fqdnName E (zone_Name z)) ` set zones \<and>
    (distinct (oset_Values OS zs) \<longrightarrow> distinct (oset_Values OS zs')) \<and>
    (\<forall>z \<in> set zones. NormalizeZoneName E (zone_Name z) = Inr (fqdnName E (zone_Name z)))"
proof (induction zones arbitrary: zs)
  case (Cons z zones)
  obtain n where n: "NormalizeZoneName E (zone_Name z) = Inr n" using Cons.prems by (auto split: sum.splits)
  then have fq: "n = fqdnName E (zone_Name z)" by (simp add: NormalizeZoneName_Inr)
  have "collectZonesLoop E OS zones (oset_Add OS n zs) = Inr zs'" using Cons.prems n by simp
  from Cons.IH [OF this] n fq show ?case using assms by (auto simp: oset_laws)
qed simp

lemma collectRecordsLoop_Inr:
  assumes "set_pkg_ok OS" and "names_pkg_ok E"
  shows "collectRecordsLoop E OS records keys zs = Inr (rs, zs') \<Longrightarrow> list_all plain_record records \<Longrightarrow>
    set (oset_Values OS zs') = set (oset_Values OS zs) \<union> (\<lambda>r. fqdnName E (rec_Zone r)) ` set records \<and>
    (distinct (oset_Values OS zs) \<longrightarrow> distinct (oset_Values OS zs')) \<and>
    (\<exists>ns. list_all2 (\<lambda>r n. NormalizeRecord E r = Inr n) records ns \<and>
       rs = first_by (Key E) (set (oset_Values OS keys)) ns \<and> (\<forall>n \<in> set ns. normal_record E n))"
proof (induction records arbitrary: keys zs rs)
  case (Cons r records)
  obtain n where n: "NormalizeRecord E r = Inr n" using Cons.prems(1) by (auto split: sum.splits)
  have fq: "rec_Zone n = fqdnName E (rec_Zone r)" using n by (simp add: NormalizeRecord_Inr)
  have nn: "normal_record E n" using normal_record_NormalizeRecord [OF assms(2) _ n] Cons.prems(2) by simp
  show ?case
  proof (cases "oset_Contains OS keys (Key E n)")
    case True
    then have "collectRecordsLoop E OS records keys (oset_Add OS (rec_Zone n) zs) = Inr (rs, zs')"
      using Cons.prems n by simp
    from Cons.IH [OF this] Cons.prems(2) obtain ns where ih:
      "set (oset_Values OS zs') = set (oset_Values OS (oset_Add OS (rec_Zone n) zs)) \<union> (\<lambda>r. fqdnName E (rec_Zone r)) ` set records"
      "distinct (oset_Values OS (oset_Add OS (rec_Zone n) zs)) \<longrightarrow> distinct (oset_Values OS zs')"
      "list_all2 (\<lambda>r n. NormalizeRecord E r = Inr n) records ns"
      "rs = first_by (Key E) (set (oset_Values OS keys)) ns" "\<forall>n \<in> set ns. normal_record E n" by auto
    have "list_all2 (\<lambda>r n. NormalizeRecord E r = Inr n) (r # records) (n # ns) \<and>
        rs = first_by (Key E) (set (oset_Values OS keys)) (n # ns) \<and> (\<forall>n \<in> set (n # ns). normal_record E n)"
      using ih(3-5) n nn True assms(1) by (simp add: oset_laws)
    moreover have "set (oset_Values OS zs') = set (oset_Values OS zs) \<union> (\<lambda>r. fqdnName E (rec_Zone r)) ` set (r # records)"
      "distinct (oset_Values OS zs) \<longrightarrow> distinct (oset_Values OS zs')"
      using ih(1,2) assms(1) fq by (auto simp: oset_laws)
    ultimately show ?thesis by blast
  next
    case False
    then obtain rest where rest: "rs = n # rest"
      "collectRecordsLoop E OS records (oset_Add OS (Key E n) keys) (oset_Add OS (rec_Zone n) zs) = Inr (rest, zs')"
      using Cons.prems n by (auto simp: Let_def split: sum.splits prod.splits)
    from Cons.IH [OF rest(2)] Cons.prems(2) obtain ns where ih:
      "set (oset_Values OS zs') = set (oset_Values OS (oset_Add OS (rec_Zone n) zs)) \<union> (\<lambda>r. fqdnName E (rec_Zone r)) ` set records"
      "distinct (oset_Values OS (oset_Add OS (rec_Zone n) zs)) \<longrightarrow> distinct (oset_Values OS zs')"
      "list_all2 (\<lambda>r n. NormalizeRecord E r = Inr n) records ns"
      "rest = first_by (Key E) (set (oset_Values OS (oset_Add OS (Key E n) keys))) ns" "\<forall>n \<in> set ns. normal_record E n" by auto
    have "list_all2 (\<lambda>r n. NormalizeRecord E r = Inr n) (r # records) (n # ns) \<and>
        rs = first_by (Key E) (set (oset_Values OS keys)) (n # ns) \<and> (\<forall>n \<in> set (n # ns). normal_record E n)"
      using ih(3-5) n nn False rest(1) assms(1) by (simp add: oset_laws)
    moreover have "set (oset_Values OS zs') = set (oset_Values OS zs) \<union> (\<lambda>r. fqdnName E (rec_Zone r)) ` set (r # records)"
      "distinct (oset_Values OS zs) \<longrightarrow> distinct (oset_Values OS zs')"
      using ih(1,2) assms(1) fq by (auto simp: oset_laws)
    ultimately show ?thesis by blast
  qed
qed simp

definition plain_seed :: "SeedData \<Rightarrow> bool" where
  "plain_seed seed \<longleftrightarrow> list_all (\<lambda>z. plain (zone_Name z)) (seed_Zones seed) \<and> list_all plain_record (seed_Records seed)"

lemma collect_Inr:
  assumes "set_pkg_ok OS" and "names_pkg_ok E" and "plain_seed seed"
    and "collectSeedZones E OS seed = Inr zs" and "collectSeedRecords E OS seed zs = Inr (rs, zs')"
  shows "set (oset_Values OS zs') = seed_names E seed" and "distinct (oset_Values OS zs')"
    and "\<forall>z \<in> seed_names E seed. normal_zone E z"
    and "\<forall>r \<in> set rs. normal_record E r" and "distinct (map (Key E) rs)"
    and "rec_Zone ` set rs \<subseteq> seed_names E seed"
    and "\<exists>ns. list_all2 (\<lambda>r n. NormalizeRecord E r = Inr n) (seed_Records seed) ns \<and> rs = first_by (Key E) {} ns"
proof -
  note z = collectZonesLoop_Inr [OF assms(1) assms(4) [unfolded collectSeedZones_def]]
  have pr: "list_all plain_record (seed_Records seed)" using assms(3) by (simp add: plain_seed_def)
  note r = collectRecordsLoop_Inr [OF assms(1,2) assms(5) [unfolded collectSeedRecords_def] pr]
  show vals: "set (oset_Values OS zs') = seed_names E seed" "distinct (oset_Values OS zs')"
    using z r assms(1) by (auto simp: seed_names_def oset_laws)
  obtain ns where ns: "list_all2 (\<lambda>r n. NormalizeRecord E r = Inr n) (seed_Records seed) ns"
    "rs = first_by (Key E) {} ns" "\<forall>n \<in> set ns. normal_record E n"
    using r assms(1) by (auto simp: oset_laws)
  then show "\<exists>ns. list_all2 (\<lambda>r n. NormalizeRecord E r = Inr n) (seed_Records seed) ns \<and> rs = first_by (Key E) {} ns"
    by blast
  show normal: "\<forall>r \<in> set rs. normal_record E r" using ns set_first_by [of "Key E" "{}" ns] by blast
  show "distinct (map (Key E) rs)" by (simp add: ns(2) distinct_first_by)
  have rec: "\<exists>n. NormalizeRecord E r = Inr n \<and> rec_Zone n = fqdnName E (rec_Zone r)" if "r \<in> set (seed_Records seed)" for r
    using that ns(1) by (auto simp: list_all2_conv_all_nth in_set_conv_nth NormalizeRecord_Inr)
  show "\<forall>z \<in> seed_names E seed. normal_zone E z"
  proof
    fix y assume "y \<in> seed_names E seed"
    then consider z where "z \<in> set (seed_Zones seed)" "y = fqdnName E (zone_Name z)"
      | r where "r \<in> set (seed_Records seed)" "y = fqdnName E (rec_Zone r)" by (auto simp: seed_names_def)
    then show "normal_zone E y"
    proof cases
      case 1
      then show ?thesis using normal_zone_NormalizeZoneName [OF assms(2), of "zone_Name z" y] z assms(3)
        by (auto simp: plain_seed_def list_all_iff)
    next
      case 2
      then show ?thesis
        using normal_zone_NormalizeZoneName [OF assms(2), of "rec_Zone r" y] rec [OF 2(1)] pr
        by (auto simp: list_all_iff plain_record_def NormalizeZoneName_Inr NormalizeRecord_Inr)
    qed
  qed
  show "rec_Zone ` set rs \<subseteq> seed_names E seed"
  proof -
    have "rec_Zone n \<in> seed_names E seed" if n: "n \<in> set ns" for n
    proof -
      obtain i where "i < length ns" "n = ns ! i" using n by (auto simp: in_set_conv_nth)
      then have "seed_Records seed ! i \<in> set (seed_Records seed)" "NormalizeRecord E (seed_Records seed ! i) = Inr n"
        using ns(1) by (auto simp: list_all2_conv_all_nth)
      then show ?thesis by (auto simp: NormalizeRecord_Inr seed_names_def)
    qed
    then show ?thesis using ns(2) set_first_by [of "Key E" "{}" ns] by blast
  qed
qed

section \<open>What is stored\<close>

context repository
begin

lemma saveSeedZones_exact:
  assumes "invar s" and "\<forall>z \<in> set zones. normal_zone E z"
  shows "\<exists>s'. saveSeedZones R zones s = (Inr (), s') \<and> invar s' \<and>
    content s' = (content s)\<lparr>abs_zones := abs_zones (content s) \<union> set zones\<rparr>"
  using assms
proof (induction zones arbitrary: s)
  case (Cons z zones)
  have nz: "normal_zone E z" using Cons.prems(2) by simp
  then have pz: "plain (zone_Name \<lparr>zone_Name = z\<rparr>)" by (simp add: normal_zone_def)
  obtain x s1 where op: "repo_SaveZone R \<lparr>zone_Name = z\<rparr> s = (x, s1)" by (cases "repo_SaveZone R \<lparr>zone_Name = z\<rparr> s")
  note sim = refinesD [OF SaveZone [OF pz] Cons.prems(1) op]
  have s1: "x = Inr ()" "content s1 = (content s)\<lparr>abs_zones := insert z (abs_zones (content s))\<rparr>"
    using sim(2) by (simp_all add: spec_SaveZone_def normal_zoneD [OF nz])
  from Cons.IH [OF sim(1)] Cons.prems(2) op s1 show ?case by auto
qed simp

lemma saveSeedRecords_exact:
  assumes "invar s" and "\<forall>r \<in> set rs. normal_record E r" and "distinct (map (Key E) rs)"
  shows "\<exists>s'. saveSeedRecords R rs s = (Inr (), s') \<and> invar s' \<and>
    abs_zones (content s') = abs_zones (content s) \<union> rec_Zone ` set rs \<and>
    abs_records (content s') = {v \<in> abs_records (content s). Key E v \<notin> Key E ` set rs} \<union> set rs"
  using assms
proof (induction rs arbitrary: s)
  case (Cons r rs)
  have r: "normal_record E r" using Cons.prems(2) by simp
  obtain s1 where s1: "repo_SaveRecord R r s = (Inr (), s1)" "invar s1" "content s1 = put_content E r (content s)"
    by (rule SaveRecord_put [OF Cons.prems(1) r])
  from Cons.IH [OF s1(2)] Cons.prems(2,3) obtain s' where s': "saveSeedRecords R rs s1 = (Inr (), s')" "invar s'"
    "abs_zones (content s') = abs_zones (content s1) \<union> rec_Zone ` set rs"
    "abs_records (content s') = {v \<in> abs_records (content s1). Key E v \<notin> Key E ` set rs} \<union> set rs" by auto
  have "Key E r \<notin> Key E ` set rs" using Cons.prems(3) by simp
  then have "abs_records (content s') = {v \<in> abs_records (content s). Key E v \<notin> Key E ` set (r # rs)} \<union> set (r # rs)"
    unfolding s'(4) s1(3) put_content_def put_record_def by auto
  moreover have "abs_zones (content s') = abs_zones (content s) \<union> rec_Zone ` set (r # rs)"
    unfolding s'(3) s1(3) put_content_def by auto
  ultimately show ?case using s'(1,2) s1(1) by simp
qed simp

lemma ImportSeedData_cases:
  assumes "invar s" and "set_pkg_ok OS" and "plain_seed seed"
    and "ImportSeedData E OS (mgr_of R) seed s = (res, s')"
  obtains (failed) err where "res = Inl err" and "s' = s"
  | (imported) rs where "res = Inr \<lparr>imp_Zones = card (seed_names E seed), imp_Records = length rs\<rparr>" and "invar s'"
      and "\<exists>ns. list_all2 (\<lambda>r n. NormalizeRecord E r = Inr n) (seed_Records seed) ns \<and> rs = first_by (Key E) {} ns"
      and "\<forall>z. zone_valid z True {r \<in> set rs. rec_Zone r = z}"
      and "abs_zones (content s') = abs_zones (content s) \<union> seed_names E seed"
      and "abs_records (content s') = {v \<in> abs_records (content s). Key E v \<notin> Key E ` set rs} \<union> set rs"
proof (cases "collectSeedZones E OS seed")
  case (Inl err)
  then show thesis using failed assms(4) by (auto simp: ImportSeedData_def)
next
  case zs: (Inr zs)
  show thesis
  proof (cases "collectSeedRecords E OS seed zs")
    case (Inl err)
    then show thesis using failed assms(4) by (auto simp: ImportSeedData_def zs)
  next
    case (Inr p)
    then obtain rs zs' where rs: "collectSeedRecords E OS seed zs = Inr (rs, zs')" by (cases p) simp
    note c = collect_Inr [OF assms(2) names_ok [OF assms(1)] assms(3) zs rs]
    show thesis
    proof (cases "validateRecordsByZone E OS rs \<lparr>requireApexNS = True\<rparr>")
      case (Inl err)
      then show thesis using failed assms(4) by (auto simp: ImportSeedData_def zs rs)
    next
      case (Inr u)
      then have val: "validateRecordsByZone E OS rs \<lparr>requireApexNS = True\<rparr> = Inr ()" by simp
      have "distinct rs" using c(5) by (simp add: distinct_map)
      moreover have "normal_zone E (rec_Zone r)" if "r \<in> set rs" for r using that c(4) normal_record_zone by blast
      ultimately have valid: "\<forall>z \<in> rec_Zone ` set rs. zone_valid z True {r \<in> set rs. rec_Zone r = z}"
        using validateRecordsByZone_zone_valid [OF assms(2), of rs E "\<lparr>requireApexNS = True\<rparr>"] val by simp
      obtain s1 where s1: "saveSeedZones R (oset_Values OS zs') s = (Inr (), s1)" "invar s1"
        "content s1 = (content s)\<lparr>abs_zones := abs_zones (content s) \<union> seed_names E seed\<rparr>"
        using saveSeedZones_exact [OF assms(1), of "oset_Values OS zs'"] c(1,3) by auto
      obtain s2 where s2: "saveSeedRecords R rs s1 = (Inr (), s2)" "invar s2"
        "abs_zones (content s2) = abs_zones (content s1) \<union> rec_Zone ` set rs"
        "abs_records (content s2) = {v \<in> abs_records (content s1). Key E v \<notin> Key E ` set rs} \<union> set rs"
        using saveSeedRecords_exact [OF s1(2) c(4,5)] by blast
      have len: "oset_Len OS zs' = card (seed_names E seed)"
        using c(1,2) distinct_card [of "oset_Values OS zs'"] assms(2) by (simp add: oset_laws)
      have "res = Inr \<lparr>imp_Zones = card (seed_names E seed), imp_Records = length rs\<rparr>" and "s2 = s'"
        using assms(4) by (simp_all add: ImportSeedData_def zs rs val s1(1) s2(1) len)
      moreover have "zone_valid z True {r \<in> set rs. rec_Zone r = z}" for z
      proof (cases "z \<in> rec_Zone ` set rs")
        case False
        then have "{r \<in> set rs. rec_Zone r = z} = {}" by auto
        then show ?thesis by (simp only: zone_valid_def) simp
      qed (use valid in blast)
      moreover have "abs_zones (content s2) = abs_zones (content s) \<union> seed_names E seed"
        using c(6) unfolding s2(3) s1(3) by auto
      moreover have "abs_records (content s2) = {v \<in> abs_records (content s). Key E v \<notin> Key E ` set rs} \<union> set rs"
        unfolding s2(4) s1(3) by simp
      ultimately show thesis using imported [OF _ _ c(7)] s2(2) by blast
    qed
  qed
qed

end

section \<open>Properties\<close>


definition sample_seed :: SeedData where
  "sample_seed = \<lparr>seed_Zones = [\<lparr>zone_Name = ''Example.net''\<rparr>],
     seed_Records = [sample_raw, sample_raw\<lparr>rec_TTL := 5\<rparr>, sample_raw\<lparr>rec_Data := ''192.0.2.2''\<rparr>]\<rparr>"


text \<open>
  \<^verbatim>\<open>ImportSeedData\<close> validates the seed alone: importing a CNAME record at a name that has an A record
  succeeds and leaves a zone that breaks the CNAME rule, which \<^verbatim>\<open>UpsertRecord\<close> refuses to make.
\<close>

definition cname_seed :: SeedData where
  "cname_seed = \<lparr>seed_Zones = [], seed_Records = [sample_raw\<lparr>rec_Type := TypeCNAME, rec_Data := ''example.org.''\<rparr>]\<rparr>"

theorem ImportSeedData_ignores_stored_records:
  "fst (ImportSeedData names_ref set_ref sample_mgr cname_seed sample_state) = Inr \<lparr>imp_Zones = 1, imp_Records = 1\<rparr> \<and>
   mgr_ListRecords names_ref sample_mgr (zone_filter ''example.org.'')
     (snd (ImportSeedData names_ref set_ref sample_mgr cname_seed sample_state)) =
     Inr [sample_record, sample_record\<lparr>rec_Type := TypeCNAME, rec_Data := ''example.org.''\<rparr>] \<and>
   fst (mgr_UpsertRecord names_ref set_ref sample_mgr (hd (seed_Records cname_seed)) sample_state) =
     Inl (Coded CodeZoneCNAMEConflict ErrCNAMEConflict)"
  by (intro conjI; code_simp)

end
