(* ===== verification/Admin_Http.thy ===== *)
theory Admin_Http
  imports Seed
begin

text \<open>
  The HTTP interface of the administrator: the decoding of requests, \<^verbatim>\<open>cmd/server/http_decode.go\<close>, and the
  handlers, \<^verbatim>\<open>cmd/server/http.go\<close>, with the routes of the multiplexer of \<^verbatim>\<open>net/http\<close> they are registered with.
\<close>

section \<open>Numbers and names of types and classes\<close>

definition upperByte :: "char \<Rightarrow> char" where
  "upperByte c = (if 97 \<le> (of_char c :: nat) \<and> (of_char c :: nat) \<le> 122 then char_of ((of_char c :: nat) - 32) else c)"

text \<open>
  \<open>StringToType\<close> and \<open>StringToClass\<close> are the maps of the DNS package, \<open>unicodeUpper\<close> is \<^verbatim>\<open>strings.ToUpper\<close> on strings that
  are not ASCII, \<open>RedirectStatus\<close> is the status of the redirections of the multiplexer, 301 or 307 depending on the
  version of Go, \<open>UnmarshalRecord\<close> and \<open>UnmarshalSeed\<close> are \<^verbatim>\<open>json.Unmarshal\<close> into the two types that requests carry.
\<close>

record http_pkg =
  StringToType :: "string \<Rightarrow> uint16 option"
  StringToClass :: "string \<Rightarrow> uint16 option"
  unicodeUpper :: "string \<Rightarrow> string"
  RedirectStatus :: int
  UnmarshalRecord :: "string \<Rightarrow> string + Record"
  UnmarshalSeed :: "string \<Rightarrow> string + SeedData"

definition ToUpper :: "(string \<Rightarrow> string) \<Rightarrow> string \<Rightarrow> string" where
  "ToUpper uni s = (if ascii s then map upperByte s else uni s)"

text \<open>
  \<^verbatim>\<open>strconv.ParseUint(s, 10, 16)\<close> reads digits from the left and fails at the first character that is none, or
  as soon as the value exceeds 65535.
\<close>

fun parseUintLoop :: "nat \<Rightarrow> string \<Rightarrow> string + nat" where
  "parseUintLoop n [] = Inr n"
| "parseUintLoop n (c # cs) =
     (if \<not> isDigit c then Inl ''invalid syntax''
      else
        let n1 = n * 10 + (of_char c - 48) in
        if n1 > 65535 then Inl ''value out of range'' else parseUintLoop n1 cs)"

definition ParseUint16 :: "string \<Rightarrow> string + nat" where
  "ParseUint16 s = (if s = [] then Inl ''invalid syntax'' else parseUintLoop 0 s)"

definition parseOptionalUint16 ::
  "'p http_pkg_scheme \<Rightarrow> string \<Rightarrow> (string \<Rightarrow> uint16 option) \<Rightarrow> error + uint16 option" where
  "parseOptionalUint16 P value named =
     (let normalized = ToUpper (unicodeUpper P) (TrimSpace value) in
      if normalized = [] then Inr None
      else
        case named normalized of
          Some n \<Rightarrow> Inr (Some n)
        | None \<Rightarrow>
           (case ParseUint16 normalized of
              Inl err \<Rightarrow> Inl (External err)
            | Inr number \<Rightarrow> Inr (Some (of_nat number))))"

text \<open>The results \<^verbatim>\<open>(0, false, nil)\<close> and \<^verbatim>\<open>(n, true, nil)\<close> are \<open>None\<close> and \<open>Some n\<close>.\<close>

definition parseOptionalRRType :: "'p http_pkg_scheme \<Rightarrow> string \<Rightarrow> error + uint16 option" where
  "parseOptionalRRType P value =
     (case parseOptionalUint16 P value (StringToType P) of
        Inl err \<Rightarrow> Inl err
      | Inr number \<Rightarrow> Inr number)"

definition parseOptionalRRClass :: "'p http_pkg_scheme \<Rightarrow> string \<Rightarrow> error + uint16 option" where
  "parseOptionalRRClass P value =
     (case parseOptionalUint16 P value (StringToClass P) of
        Inl err \<Rightarrow> Inl err
      | Inr number \<Rightarrow> Inr number)"

section \<open>Requests\<close>

text \<open>
  \<open>req_Path\<close> is \<^verbatim>\<open>URL.Path\<close>, without escapes, \<open>req_EscapedPath\<close> is \<^verbatim>\<open>URL.EscapedPath()\<close>, \<open>req_Query\<close> is
  \<^verbatim>\<open>URL.Query().Get\<close>, empty for a missing key. A body is the bytes that can be read and the error, if any, that
  reading meets after them.
\<close>

record Request =
  req_Method :: string
  req_Path :: string
  req_EscapedPath :: string
  req_Query :: "string \<Rightarrow> string"
  req_Body :: "string \<times> string option"

definition decodeRecordFilter :: "'p http_pkg_scheme \<Rightarrow> Request \<Rightarrow> error + RecordFilter" where
  "decodeRecordFilter P request =
     (let filt = \<lparr>flt_Zone = req_Query request ''zone'', flt_Name = req_Query request ''name'', flt_Type = 0, flt_Class = 0\<rparr> in
      case parseOptionalRRType P (req_Query request ''type'') of
        Inl err \<Rightarrow> Inl err
      | Inr rrType \<Rightarrow>
         (let filt1 = (case rrType of None \<Rightarrow> filt | Some t \<Rightarrow> filt\<lparr>flt_Type := t\<rparr>) in
          case parseOptionalRRClass P (req_Query request ''class'') of
            Inl err \<Rightarrow> Inl err
          | Inr rrClass \<Rightarrow> Inr (case rrClass of None \<Rightarrow> filt1 | Some c \<Rightarrow> filt1\<lparr>flt_Class := c\<rparr>)))"

text \<open>
  \<^verbatim>\<open>io.ReadAll(io.LimitReader(body, 1<<20))\<close>: the reader stops at the limit without an error and without looking further.
\<close>

definition bodyLimit :: nat where
  "bodyLimit = 1048576"

definition readLimited :: "string \<times> string option \<Rightarrow> string + string" where
  "readLimited body =
     (case body of (content, err) \<Rightarrow>
        case err of
          Some e \<Rightarrow> if length content < bodyLimit then Inl e else Inr (take bodyLimit content)
        | None \<Rightarrow> Inr (take bodyLimit content))"

definition decodeJSONBody :: "(string \<Rightarrow> string + 'a) \<Rightarrow> Request \<Rightarrow> error + 'a" where
  "decodeJSONBody unmarshal request =
     (case readLimited (req_Body request) of
        Inl err \<Rightarrow> Inl (External err)
      | Inr body \<Rightarrow>
         (case unmarshal body of
            Inl err \<Rightarrow> Inl (External err)
          | Inr value \<Rightarrow> Inr value))"

section \<open>Responses\<close>

text \<open>
  The value that is encoded as JSON: an error as the error itself, not its text, or one of the maps and
  structs the handlers write.
\<close>

datatype json_body =
    JsonError error | JsonMessage string | JsonStatus string | JsonZones "Zone list" | JsonZone Zone
  | JsonDeletedZone string | JsonRecords "Record list" | JsonRecord Record | JsonImport ImportResult | NoJson

record Response =
  rsp_Status :: int
  rsp_ContentType :: string
  rsp_Allow :: "string option"
  rsp_Body :: json_body

abbreviation StatusOK :: int where "StatusOK \<equiv> 200"
abbreviation StatusBadRequest :: int where "StatusBadRequest \<equiv> 400"
abbreviation StatusNotFound :: int where "StatusNotFound \<equiv> 404"
abbreviation StatusMethodNotAllowed :: int where "StatusMethodNotAllowed \<equiv> 405"
abbreviation StatusInternalServerError :: int where "StatusInternalServerError \<equiv> 500"
abbreviation StatusServiceUnavailable :: int where "StatusServiceUnavailable \<equiv> 503"

definition writeJSON :: "int \<Rightarrow> json_body \<Rightarrow> Response" where
  "writeJSON status body =
     \<lparr>rsp_Status = status, rsp_ContentType = ''application/json; charset=utf-8'', rsp_Allow = None, rsp_Body = body\<rparr>"

definition writeMethodNotAllowed :: "string list \<Rightarrow> Response" where
  "writeMethodNotAllowed methods =
     (writeJSON StatusMethodNotAllowed (JsonMessage ''method not allowed''))\<lparr>rsp_Allow := Some (Join methods '', '')\<rparr>"

text \<open>A panic below a handler ends it without a response; every other error is written.\<close>

definition writeError :: "int \<Rightarrow> error \<Rightarrow> error + Response" where
  "writeError status err = (case err of Panic p \<Rightarrow> Inl (Panic p) | _ \<Rightarrow> Inr (writeJSON status (JsonError err)))"

section \<open>Handlers\<close>

record 's adminHandler =
  adm_manager :: "'s Manager option"

definition requireManager :: "'s adminHandler option \<Rightarrow> error + unit" where
  "requireManager h =
     (case h of
        None \<Rightarrow> Inl (Uncoded ''dns admin manager is not configured'')
      | Some a \<Rightarrow> if adm_manager a = None then Inl (Uncoded ''dns admin manager is not configured'') else Inr ())"

definition handler_manager :: "'s adminHandler option \<Rightarrow> 's Manager option" where
  "handler_manager h = (case h of None \<Rightarrow> None | Some a \<Rightarrow> adm_manager a)"

definition handleHealth :: "Request \<Rightarrow> (error, Response, 's) action" where
  "handleHealth request s =
     (if req_Method request \<noteq> ''GET'' then (Inr (writeMethodNotAllowed [''GET'']), s)
      else (Inr (writeJSON StatusOK (JsonStatus ''ok'')), s))"

definition handleZones :: "'s adminHandler option \<Rightarrow> Request \<Rightarrow> (error, Response, 's) action" where
  "handleZones h request s =
     (case requireManager h of
        Inl err \<Rightarrow> (writeError StatusServiceUnavailable err, s)
      | Inr _ \<Rightarrow>
         (if req_Method request \<noteq> ''GET'' then (Inr (writeMethodNotAllowed [''GET'']), s)
          else
            case mgr_ListZones (handler_manager h) s of
              Inl err \<Rightarrow> (writeError StatusInternalServerError err, s)
            | Inr zones \<Rightarrow> (Inr (writeJSON StatusOK (JsonZones zones)), s)))"

definition handleZone :: "'x names_pkg_scheme \<Rightarrow> 's adminHandler option \<Rightarrow> Request \<Rightarrow> (error, Response, 's) action" where
  "handleZone E h request s =
     (case requireManager h of
        Inl err \<Rightarrow> (writeError StatusServiceUnavailable err, s)
      | Inr _ \<Rightarrow>
         (let zone = TrimSpace (TrimPrefix (req_Path request) ''/zones/'') in
          if zone = [] then (Inr (writeJSON StatusBadRequest (JsonMessage ''zone path is required'')), s)
          else if req_Method request = ''PUT'' then
            (case mgr_UpsertZone E (handler_manager h) \<lparr>zone_Name = zone\<rparr> s of
               (Inl err, s') \<Rightarrow> (writeError StatusBadRequest err, s')
             | (Inr savedZone, s') \<Rightarrow> (Inr (writeJSON StatusOK (JsonZone savedZone)), s'))
          else if req_Method request = ''DELETE'' then
            (case mgr_DeleteZone E (handler_manager h) zone s of
               (Inl err, s') \<Rightarrow> (writeError StatusBadRequest err, s')
             | (Inr _, s') \<Rightarrow> (Inr (writeJSON StatusOK (JsonDeletedZone zone)), s'))
          else (Inr (writeMethodNotAllowed [''PUT'', ''DELETE'']), s)))"

definition handleGetRecords ::
  "'x names_pkg_scheme \<Rightarrow> 'p http_pkg_scheme \<Rightarrow> 's adminHandler option \<Rightarrow> Request \<Rightarrow> (error, Response, 's) action" where
  "handleGetRecords E P h request s =
     (case decodeRecordFilter P request of
        Inl err \<Rightarrow> (writeError StatusBadRequest err, s)
      | Inr filt \<Rightarrow>
         (case mgr_ListRecords E (handler_manager h) filt s of
            Inl err \<Rightarrow> (writeError StatusBadRequest err, s)
          | Inr records \<Rightarrow> (Inr (writeJSON StatusOK (JsonRecords records)), s)))"

definition handlePutRecord ::
  "'x names_pkg_scheme \<Rightarrow> 'o set_pkg \<Rightarrow> 'p http_pkg_scheme \<Rightarrow> 's adminHandler option \<Rightarrow> Request \<Rightarrow> (error, Response, 's) action" where
  "handlePutRecord E OS P h request s =
     (case decodeJSONBody (UnmarshalRecord P) request of
        Inl err \<Rightarrow> (writeError StatusBadRequest err, s)
      | Inr record \<Rightarrow>
         (case mgr_UpsertRecord E OS (handler_manager h) record s of
            (Inl err, s') \<Rightarrow> (writeError StatusBadRequest err, s')
          | (Inr savedRecord, s') \<Rightarrow> (Inr (writeJSON StatusOK (JsonRecord savedRecord)), s')))"

definition handleDeleteRecord ::
  "'x names_pkg_scheme \<Rightarrow> 'p http_pkg_scheme \<Rightarrow> 's adminHandler option \<Rightarrow> Request \<Rightarrow> (error, Response, 's) action" where
  "handleDeleteRecord E P h request s =
     (case decodeJSONBody (UnmarshalRecord P) request of
        Inl err \<Rightarrow> (writeError StatusBadRequest err, s)
      | Inr record \<Rightarrow>
         (case mgr_DeleteRecord E (handler_manager h) record s of
            (Inl err, s') \<Rightarrow> (writeError StatusBadRequest err, s')
          | (Inr _, s') \<Rightarrow> (Inr (writeJSON StatusOK (JsonStatus ''deleted'')), s')))"

definition handleRecords ::
  "'x names_pkg_scheme \<Rightarrow> 'o set_pkg \<Rightarrow> 'p http_pkg_scheme \<Rightarrow> 's adminHandler option \<Rightarrow> Request \<Rightarrow> (error, Response, 's) action" where
  "handleRecords E OS P h request s =
     (case requireManager h of
        Inl err \<Rightarrow> (writeError StatusServiceUnavailable err, s)
      | Inr _ \<Rightarrow>
         (if req_Method request = ''GET'' then handleGetRecords E P h request s
          else if req_Method request = ''PUT'' then handlePutRecord E OS P h request s
          else if req_Method request = ''DELETE'' then handleDeleteRecord E P h request s
          else (Inr (writeMethodNotAllowed [''GET'', ''PUT'', ''DELETE'']), s)))"

definition handleSeedImport ::
  "'x names_pkg_scheme \<Rightarrow> 'o set_pkg \<Rightarrow> 'p http_pkg_scheme \<Rightarrow> 's adminHandler option \<Rightarrow> Request \<Rightarrow> (error, Response, 's) action" where
  "handleSeedImport E OS P h request s =
     (case requireManager h of
        Inl err \<Rightarrow> (writeError StatusServiceUnavailable err, s)
      | Inr _ \<Rightarrow>
         (if req_Method request \<noteq> ''POST'' then (Inr (writeMethodNotAllowed [''POST'']), s)
          else
            case decodeJSONBody (UnmarshalSeed P) request of
              Inl err \<Rightarrow> (writeError StatusBadRequest err, s)
            | Inr seed \<Rightarrow>
               (case ImportSeedData E OS (handler_manager h) seed s of
                  (Inl err, s') \<Rightarrow> (writeError StatusBadRequest err, s')
                | (Inr result, s') \<Rightarrow> (Inr (writeJSON StatusOK (JsonImport result)), s'))))"

section \<open>Routes\<close>

text \<open>
  \<^verbatim>\<open>http.ServeMux\<close> answers a path that is not clean with a redirection, except for the method CONNECT, and chooses the
  handler by the segments of the path, whose escapes it resolves one by one. A pattern that ends in a slash stands for
  all paths below it.
\<close>

fun cleanSegments :: "string list \<Rightarrow> string list \<Rightarrow> string list" where
  "cleanSegments kept [] = rev kept"
| "cleanSegments kept (seg # segs) =
     (if seg = [] \<or> seg = ''.'' then cleanSegments kept segs
      else if seg = ''..'' then cleanSegments (tl kept) segs
      else cleanSegments (seg # kept) segs)"

definition cleanPath :: "string \<Rightarrow> string" where
  "cleanPath p =
     (if p = [] then ''/''
      else
        let rooted = (if hd p = CHR ''/'' then p else CHR ''/'' # p);
            np = CHR ''/'' # Join (cleanSegments [] (split_on (CHR ''/'') rooted)) ''/'' in
        if last p = CHR ''/'' \<and> np \<noteq> ''/'' then np @ ''/'' else np)"

definition hexValue :: "char \<Rightarrow> nat option" where
  "hexValue c =
     (let n = of_char c in
      if 48 \<le> n \<and> n \<le> 57 then Some (n - 48)
      else if 65 \<le> n \<and> n \<le> 70 then Some (n - 55)
      else if 97 \<le> n \<and> n \<le> 102 then Some (n - 87)
      else None)"

fun pathUnescape :: "string \<Rightarrow> string" where
  "pathUnescape [] = []"
| "pathUnescape (c # cs) =
     (case cs of
        a # b # rest \<Rightarrow>
         (case (hexValue a, hexValue b) of
            (Some x, Some y) \<Rightarrow> if c = CHR ''%'' then char_of (16 * x + y) # pathUnescape rest else c # pathUnescape cs
          | _ \<Rightarrow> c # pathUnescape cs)
      | _ \<Rightarrow> c # pathUnescape cs)"

datatype route = RouteHealth | RouteZones | RouteZone | RouteRecords | RouteSeedImport | RouteRedirect | RouteNotFound

definition routeSegments :: "string list \<Rightarrow> route" where
  "routeSegments segs =
     (if segs = [''healthz''] then RouteHealth
      else if segs = [''zones''] then RouteZones
      else if length segs > 1 \<and> hd segs = ''zones'' then RouteZone
      else if segs = [''records''] then RouteRecords
      else if segs = [''seed'', ''import''] then RouteSeedImport
      else RouteNotFound)"

definition muxRoute :: "Request \<Rightarrow> route" where
  "muxRoute request =
     (let p = req_EscapedPath request in
      if req_Method request \<noteq> ''CONNECT'' \<and> cleanPath p \<noteq> p then RouteRedirect
      else routeSegments (map pathUnescape (tl (split_on (CHR ''/'') p))))"

definition newAdminHandler ::
  "'x names_pkg_scheme \<Rightarrow> 'o set_pkg \<Rightarrow> 'p http_pkg_scheme \<Rightarrow> 's Manager option \<Rightarrow> Request \<Rightarrow> (error, Response, 's) action" where
  "newAdminHandler E OS P manager request s =
     (let h = Some \<lparr>adm_manager = manager\<rparr> in
      case muxRoute request of
        RouteHealth \<Rightarrow> handleHealth request s
      | RouteZones \<Rightarrow> handleZones h request s
      | RouteZone \<Rightarrow> handleZone E h request s
      | RouteRecords \<Rightarrow> handleRecords E OS P h request s
      | RouteSeedImport \<Rightarrow> handleSeedImport E OS P h request s
      | RouteRedirect \<Rightarrow> (Inr \<lparr>rsp_Status = RedirectStatus P, rsp_ContentType = ''text/html; charset=utf-8'', rsp_Allow = None, rsp_Body = NoJson\<rparr>, s)
      | RouteNotFound \<Rightarrow> (Inr \<lparr>rsp_Status = StatusNotFound, rsp_ContentType = ''text/plain; charset=utf-8'', rsp_Allow = None, rsp_Body = NoJson\<rparr>, s))"

end
