(* ===== verification/RR.thy ===== *)
theory RR
  imports Records
begin

text \<open>
  Resource records of the DNS package and the conversion between them and the records of the
  stores: \<^verbatim>\<open>Record.RR\<close> and \<^verbatim>\<open>RecordFromRR\<close> of \<^verbatim>\<open>dnsserver/record.go\<close>, \<^verbatim>\<open>recordsToRRs\<close> of
  \<^verbatim>\<open>resolver.go\<close> and \<^verbatim>\<open>parseRRStrings\<close> of \<^verbatim>\<open>resolver_cached_response.go\<close>.
\<close>

section \<open>Resource records: github.com/miekg/dns\<close>

text \<open>
  A value of the Go interface \<^verbatim>\<open>dns.RR\<close> is an element of \<open>'rr option\<close>, \<open>None\<close> for nil; calling a method
  of nil panics. \<open>NewRR\<close> parses a line of a zone file and returns nil without an error for a line
  that is empty or a comment. \<open>rr_typed\<close> is what a type switch on the record sees.
\<close>

datatype typedRR = IsCNAME string | IsNS string | IsMX string | IsSRV string | IsOther

record 'rr rr_pkg = names_pkg +
  TypeToString :: "uint16 \<Rightarrow> string option"
  ClassToString :: "uint16 \<Rightarrow> string option"
  NewRR :: "string \<Rightarrow> string + 'rr option"
  rr_String :: "'rr \<Rightarrow> string"
  rr_Name :: "'rr \<Rightarrow> string"
  rr_Ttl :: "'rr \<Rightarrow> uint32"
  rr_Class :: "'rr \<Rightarrow> uint16"
  rr_Rrtype :: "'rr \<Rightarrow> uint16"
  rr_typed :: "'rr \<Rightarrow> typedRR"

text \<open>
  Documented behaviour: \<^verbatim>\<open>String\<close> is the text form of a record, which \<^verbatim>\<open>NewRR\<close> reads back.
\<close>

definition rr_pkg_ok :: "('rr, 'x) rr_pkg_scheme \<Rightarrow> bool" where
  "rr_pkg_ok E \<longleftrightarrow> names_pkg_ok E \<and>
     (\<forall>text rr. NewRR E text = Inr (Some rr) \<longrightarrow> NewRR E (rr_String E rr) = Inr (Some rr))"

section \<open>Conversions\<close>

text \<open>\<^verbatim>\<open>fmt.Sprintf("%s %d %s %s %s", ...)\<close> with the names of class and type, or their numbers.\<close>

definition typeText :: "('rr, 'x) rr_pkg_scheme \<Rightarrow> uint16 \<Rightarrow> string" where
  "typeText E t = (case TypeToString E t of None \<Rightarrow> dec (unat t) | Some name \<Rightarrow> name)"

definition classText :: "('rr, 'x) rr_pkg_scheme \<Rightarrow> uint16 \<Rightarrow> string" where
  "classText E c = (case ClassToString E c of None \<Rightarrow> dec (unat c) | Some name \<Rightarrow> name)"

definition record_RR :: "('rr, 'x) rr_pkg_scheme \<Rightarrow> Record \<Rightarrow> error + 'rr option" where
  "record_RR E r =
     (case NewRR E (rec_Name r @ '' '' @ dec (unat (rec_TTL r)) @ '' '' @ classText E (rec_Class r) @ '' '' @
             typeText E (rec_Type r) @ '' '' @ rec_Data r) of
        Inl err \<Rightarrow> Inl (External err)
      | Inr rr \<Rightarrow> Inr rr)"

definition RecordFromRR :: "('rr, 'x) rr_pkg_scheme \<Rightarrow> string \<Rightarrow> 'rr option \<Rightarrow> error + Record" where
  "RecordFromRR E zone rr =
     (case rr of
        None \<Rightarrow> Inl (Uncoded ''dns rr is nil'')
      | Some r \<Rightarrow>
         (let fields = Fields (rr_String E r) in
          if length fields < 5 then Inl (Uncoded ''dns rr is missing rdata'')
          else NormalizeRecord E
                 \<lparr>rec_Zone = zone, rec_Name = rr_Name E r, rec_TTL = rr_Ttl E r, rec_Class = rr_Class E r,
                  rec_Type = rr_Rrtype E r, rec_Data = Join (drop 4 fields) '' ''\<rparr>))"

fun recordsToRRs :: "('rr, 'x) rr_pkg_scheme \<Rightarrow> Record list \<Rightarrow> error + 'rr option list" where
  "recordsToRRs E [] = Inr []"
| "recordsToRRs E (record # records) =
     (case record_RR E record of
        Inl err \<Rightarrow> Inl err
      | Inr rr \<Rightarrow>
         (case recordsToRRs E records of
            Inl err \<Rightarrow> Inl err
          | Inr rrs \<Rightarrow> Inr (rr # rrs)))"

fun parseRRStrings :: "('rr, 'x) rr_pkg_scheme \<Rightarrow> string list \<Rightarrow> error + 'rr option list" where
  "parseRRStrings E [] = Inr []"
| "parseRRStrings E (line # lines) =
     (case NewRR E line of
        Inl err \<Rightarrow> Inl (External err)
      | Inr rr \<Rightarrow>
         (case parseRRStrings E lines of
            Inl err \<Rightarrow> Inl err
          | Inr rrs \<Rightarrow> Inr (rr # rrs)))"

text \<open>The loops that call \<^verbatim>\<open>rr.String()\<close> on every element panic at a nil record.\<close>

fun rrStrings :: "('rr, 'x) rr_pkg_scheme \<Rightarrow> 'rr option list \<Rightarrow> error + string list" where
  "rrStrings E [] = Inr []"
| "rrStrings E (None # rrs) = Inl (Panic ''nil pointer dereference'')"
| "rrStrings E (Some rr # rrs) =
     (case rrStrings E rrs of
        Inl err \<Rightarrow> Inl err
      | Inr texts \<Rightarrow> Inr (rr_String E rr # texts))"

section \<open>Facts\<close>

lemma recordsToRRs_Inr:
  "recordsToRRs E rs = Inr rrs \<longleftrightarrow> list_all2 (\<lambda>r rr. record_RR E r = Inr rr) rs rrs"
proof (induction rs arbitrary: rrs)
  case (Cons r rs)
  show ?case
  proof (cases rrs)
    case Nil
    then show ?thesis by (simp split: sum.split)
  next
    case (Cons rr rrs')
    then show ?thesis using Cons.IH [of rrs'] by (auto split: sum.split)
  qed
qed auto

lemma recordsToRRs_length: "recordsToRRs E rs = Inr rrs \<Longrightarrow> length rrs = length rs"
  by (auto simp: recordsToRRs_Inr dest: list_all2_lengthD)

text \<open>Records that have come out of the parser survive being printed and parsed again.\<close>

definition parsed :: "('rr, 'x) rr_pkg_scheme \<Rightarrow> 'rr option \<Rightarrow> bool" where
  "parsed E rr \<longleftrightarrow> (\<exists>text. NewRR E text = Inr rr)"

lemma recordsToRRs_parsed: "recordsToRRs E rs = Inr rrs \<Longrightarrow> list_all (parsed E) rrs"
proof (induction rs arbitrary: rrs)
  case (Cons r rs)
  then obtain rr rrs' where "record_RR E r = Inr rr" "recordsToRRs E rs = Inr rrs'" "rrs = rr # rrs'"
    by (auto split: sum.splits)
  moreover from this(1) have "parsed E rr" by (auto simp: record_RR_def parsed_def split: sum.splits)
  ultimately show ?case using Cons.IH by simp
qed simp

lemma rrStrings_Inr: "rrStrings E rrs = Inr texts \<Longrightarrow> rrs = map Some (map the rrs) \<and> texts = map (rr_String E \<circ> the) rrs"
  by (induction E rrs arbitrary: texts rule: rrStrings.induct) (auto split: sum.splits)

lemma parse_print:
  assumes "rr_pkg_ok E" and "list_all (parsed E) rrs" and "rrStrings E rrs = Inr texts"
  shows "parseRRStrings E texts = Inr rrs"
  using assms(2,3)
proof (induction rrs arbitrary: texts)
  case (Cons r rrs)
  then obtain rr ts where r: "r = Some rr" and ts: "rrStrings E rrs = Inr ts" "texts = rr_String E rr # ts"
    by (cases r) (auto split: sum.splits)
  have "NewRR E (rr_String E rr) = Inr (Some rr)"
    using Cons.prems(1) assms(1) by (auto simp: r parsed_def rr_pkg_ok_def)
  moreover have "parseRRStrings E ts = Inr rrs" using Cons.IH [OF _ ts(1)] Cons.prems(1) by simp
  ultimately show ?case by (simp add: r ts(2))
qed simp

section \<open>A reference parser\<close>

text \<open>
  Lines of five or more words separated by single spaces; the text of a record is the line it was
  read from.
\<close>

record ref_rr =
  rf_name :: string
  rf_ttl :: uint32
  rf_class :: uint16
  rf_type :: uint16
  rf_data :: string

definition ref_types :: "(uint16 \<times> string) list" where
  "ref_types = [(TypeA, ''A''), (TypeNS, ''NS''), (TypeCNAME, ''CNAME''), (TypeSOA, ''SOA''), (TypeMX, ''MX''),
     (TypeTXT, ''TXT''), (TypeAAAA, ''AAAA''), (TypeSRV, ''SRV'')]"

definition ref_classes :: "(uint16 \<times> string) list" where
  "ref_classes = [(ClassINET, ''IN''), (ClassNONE, ''NONE''), (ClassANY, ''ANY'')]"

definition ref_text :: "ref_rr \<Rightarrow> string" where
  "ref_text rr = Join [rf_name rr, dec (unat (rf_ttl rr)), the (map_of ref_classes (rf_class rr)),
     the (map_of ref_types (rf_type rr)), rf_data rr] '' ''"

definition ref_line :: "string list \<Rightarrow> string + ref_rr option" where
  "ref_line ws =
     (case ws of
        n # t # c # ty # d # ds \<Rightarrow>
         (case (List.find (\<lambda>e. snd e = c) ref_classes, List.find (\<lambda>e. snd e = ty) ref_types) of
            (Some (cn, _), Some (tn, _)) \<Rightarrow>
             (let ttl = of_nat (undec t) in
              if dec (unat ttl) = t
              then Inr (Some \<lparr>rf_name = n, rf_ttl = ttl, rf_class = cn, rf_type = tn, rf_data = Join (d # ds) '' ''\<rparr>)
              else Inl ''ttl'')
          | _ \<Rightarrow> Inl ''class or type'')
      | _ \<Rightarrow> Inl ''missing words'')"

definition ref_NewRR :: "string \<Rightarrow> string + ref_rr option" where
  "ref_NewRR text = (if text = [] \<or> hd text = CHR '';'' then Inr None else ref_line (split_on (CHR '' '') text))"

definition ref_typed :: "ref_rr \<Rightarrow> typedRR" where
  "ref_typed rr =
     (let words = split_on (CHR '' '') (rf_data rr) in
      if rf_type rr = TypeCNAME then IsCNAME (rf_data rr)
      else if rf_type rr = TypeNS then IsNS (rf_data rr)
      else if rf_type rr = TypeMX then IsMX (last words)
      else if rf_type rr = TypeSRV then IsSRV (last words)
      else IsOther)"

definition rr_ref :: "ref_rr rr_pkg" where
  "rr_ref = \<lparr>unicodeLower = unicodeLower names_ref, Sum256 = Sum256 names_ref, Fqdn = Fqdn names_ref,
     IsSubDomain = IsSubDomain names_ref, TypeToString = map_of ref_types, ClassToString = map_of ref_classes,
     NewRR = ref_NewRR, rr_String = ref_text, rr_Name = rf_name, rr_Ttl = rf_ttl, rr_Class = rf_class,
     rr_Rrtype = rf_type, rr_typed = ref_typed\<rparr>"

lemma ref_line_text:
  assumes "ref_line ws = Inr (Some rr)"
  shows "ref_text rr = Join ws '' ''"
proof -
  have table: "map_of ref_classes c = Some w" if "List.find (\<lambda>e. snd e = w) ref_classes = Some (c, w')" for c w w'
    using that by (auto simp: ref_classes_def split: if_split_asm)
  have types: "map_of ref_types t = Some w" if "List.find (\<lambda>e. snd e = w) ref_types = Some (t, w')" for t w w'
    using that by (auto simp: ref_types_def split: if_split_asm)
  obtain n t c ty d ds where ws: "ws = n # t # c # ty # d # ds"
    using assms by (auto simp: ref_line_def split: list.splits)
  obtain cn cn' tn tn' where find: "List.find (\<lambda>e. snd e = c) ref_classes = Some (cn, cn')"
    "List.find (\<lambda>e. snd e = ty) ref_types = Some (tn, tn')"
    using assms by (auto simp: ref_line_def ws split: option.splits prod.splits)
  then have "ref_text rr = Join [n, t, c, ty, Join (d # ds) '' ''] '' ''"
    using assms table [OF find(1)] types [OF find(2)]
    by (auto simp: ref_line_def ws ref_text_def Let_def split: if_split_asm)
  then show ?thesis by (cases ds) (simp_all add: ws)
qed

lemma names_pkg_ok_rr_ref [simp]: "names_pkg_ok rr_ref"
  using names_ref_ok by (simp add: names_pkg_ok_def rr_ref_def)

lemma rr_ref_ok [simp]: "rr_pkg_ok rr_ref"
proof -
  have "ref_NewRR (ref_text rr) = Inr (Some rr)" if "ref_NewRR line = Inr (Some rr)" for line rr
    using that ref_line_text [of "split_on (CHR '' '') line" rr] Join_split_on [of "CHR '' ''" line]
    by (auto simp: ref_NewRR_def split: if_split_asm)
  then show ?thesis by (auto simp: rr_pkg_ok_def) (auto simp: rr_ref_def)
qed

end
