(* ===== verification/Zone_Index.thy ===== *)
theory Zone_Index
  imports Records
begin

text \<open>
  The index of zones by which the resolver finds the zone of a name: \<^verbatim>\<open>dnsserver/zone_index.go\<close> and
  \<^verbatim>\<open>uniqueSortedZoneNames\<close> of \<^verbatim>\<open>resolver.go\<close>. The main result is that the prefix tree over reversed
  labels finds the longest zone that contains the name.
\<close>

section \<open>Prefix trees: github.com/arcgolabs/collectionx/prefix\<close>

text \<open>
  \<^verbatim>\<open>Trie[string]\<close>: \<open>trie_LongestPrefix\<close> returns the longest stored key that is a prefix of its argument,
  with its value; \<open>trie_Get\<close> is used to state the behaviour.
\<close>

record 'tr trie_pkg =
  trie_new :: 'tr
  trie_Put :: "string \<Rightarrow> string \<Rightarrow> 'tr \<Rightarrow> 'tr"
  trie_Get :: "'tr \<Rightarrow> string \<Rightarrow> string option"
  trie_LongestPrefix :: "'tr \<Rightarrow> string \<Rightarrow> (string \<times> string) option"

definition trie_pkg_ok :: "'tr trie_pkg \<Rightarrow> bool" where
  "trie_pkg_ok T \<longleftrightarrow>
     trie_Get T (trie_new T) = Map.empty \<and>
     (\<forall>k v t. trie_Get T (trie_Put T k v t) = (trie_Get T t)(k \<mapsto> v)) \<and>
     (\<forall>t q. trie_LongestPrefix T t q = None \<longleftrightarrow> (\<forall>k \<in> dom (trie_Get T t). \<not> prefix k q)) \<and>
     (\<forall>t q k v. trie_LongestPrefix T t q = Some (k, v) \<longrightarrow>
        trie_Get T t k = Some v \<and> prefix k q \<and>
        (\<forall>k' \<in> dom (trie_Get T t). prefix k' q \<longrightarrow> length k' \<le> length k))"

definition trie_ref :: "(string \<times> string) list trie_pkg" where
  "trie_ref =
     \<lparr>trie_new = [], trie_Put = (\<lambda>k v t. (k, v) # t), trie_Get = map_of,
      trie_LongestPrefix = (\<lambda>t q.
        map_option (\<lambda>k. (k, the (map_of t k)))
          (List.find (\<lambda>k. map_of t k \<noteq> None) (map (\<lambda>i. take (length q - i) q) [0..<Suc (length q)])))\<rparr>"

section \<open>The index\<close>

record 'tr zoneIndex =
  zi_names :: "string list"
  zi_trie :: "'tr option"

definition compareZoneNames :: "string \<Rightarrow> string \<Rightarrow> int" where
  "compareZoneNames left right =
     (if length left > length right then -1
      else if length left < length right then 1
      else if left < right then -1
      else if left > right then 1
      else 0)"

definition uniqueSortedZoneNames :: "'o set_pkg \<Rightarrow> Zone list \<Rightarrow> string list" where
  "uniqueSortedZoneNames OS zones =
     (let zoneSet = fold (\<lambda>zone zs. oset_Add OS (zone_Name zone) zs) zones (oset_new OS) in
      SortFunc compareZoneNames (oset_Values OS zoneSet))"

text \<open>The loop of \<^verbatim>\<open>reverseDNSName\<close> that swaps the labels from both ends inwards.\<close>

function swapLabels :: "nat \<Rightarrow> nat \<Rightarrow> string list \<Rightarrow> string list" where
  "swapLabels left right labels =
     (if left < right
      then swapLabels (left + 1) (right - 1) (labels[left := labels ! right, right := labels ! left])
      else labels)"
  by pat_completeness auto
termination by (relation "measure (\<lambda>(left, right, labels). right - left)") auto

declare swapLabels.simps [simp del]

definition reverseDNSName :: "string \<Rightarrow> string" where
  "reverseDNSName name =
     (let trimmed = TrimSuffix name ''.'' in
      if trimmed = [] then []
      else
        let labels = split_on (CHR ''.'') trimmed in
        Join (swapLabels 0 (length labels - 1) labels) ''.'' @ ''.'')"

definition newZoneIndex :: "'o set_pkg \<Rightarrow> 'tr trie_pkg \<Rightarrow> Zone list \<Rightarrow> 'tr zoneIndex" where
  "newZoneIndex OS T zones =
     (let names = uniqueSortedZoneNames OS zones in
      \<lparr>zi_names = names,
       zi_trie = Some (fold (\<lambda>name trie. trie_Put T (reverseDNSName name) name trie) names (trie_new T))\<rparr>)"

definition Match :: "'x names_pkg_scheme \<Rightarrow> 'tr trie_pkg \<Rightarrow> 'tr zoneIndex \<Rightarrow> string \<Rightarrow> string option" where
  "Match E T index name =
     (case zi_trie index of
        None \<Rightarrow> None
      | Some trie \<Rightarrow>
         (if length (zi_names index) = 0 then None
          else
            case trie_LongestPrefix T trie (reverseDNSName name) of
              None \<Rightarrow> None
            | Some (_, zone) \<Rightarrow> if \<not> IsSubDomain E zone name then None else Some zone))"

section \<open>The reference tree\<close>

text \<open>Trying the prefixes of a string from the longest down finds the longest that qualifies.\<close>

lemma find_longest:
  fixes q :: string
  defines "xs \<equiv> map (\<lambda>i. take (length q - i) q) [0..<Suc (length q)]"
  shows "List.find P xs = None \<longleftrightarrow> (\<forall>k. prefix k q \<longrightarrow> \<not> P k)"
    and "List.find P xs = Some k \<Longrightarrow> P k \<and> prefix k q \<and> (\<forall>k'. P k' \<and> prefix k' q \<longrightarrow> length k' \<le> length k)"
proof -
  have set_xs: "set xs = {k. prefix k q}"
  proof -
    have "\<exists>i \<in> {0..<Suc (length q)}. k = take (length q - i) q" if "prefix k q" for k
      using that by (intro bexI [of _ "length q - length k"]) (auto simp: prefix_def)
    then show ?thesis by (auto simp: xs_def take_is_prefix simp del: upt_Suc)
  qed
  then show "List.find P xs = None \<longleftrightarrow> (\<forall>k. prefix k q \<longrightarrow> \<not> P k)" by (simp add: find_None_ball)
  assume "List.find P xs = Some k"
  then obtain i where i: "i < length xs" "P k" "k = xs ! i" "\<forall>j < i. \<not> P (xs ! j)"
    by (auto simp: find_Some_iff)
  have nth: "xs ! j = take (length q - j) q" if "j < length xs" for j
    using that by (simp add: xs_def del: upt_Suc)
  have "length k' \<le> length k" if k': "P k'" "prefix k' q" for k'
  proof -
    have "k' \<in> set xs" using k'(2) set_xs by simp
    then obtain j where j: "j < length xs" "k' = xs ! j" unfolding in_set_conv_nth by blast
    then have "i \<le> j" using i(4) k'(1) by (metis not_le)
    then show ?thesis using i(1,3) j by (simp add: nth)
  qed
  then show "P k \<and> prefix k q \<and> (\<forall>k'. P k' \<and> prefix k' q \<longrightarrow> length k' \<le> length k)"
    using i(1-3) by (simp add: nth take_is_prefix)
qed

lemma map_option_pair: "map_option (\<lambda>k. (k, g k)) x = Some (k, v) \<Longrightarrow> x = Some k \<and> v = g k"
  by (cases x) auto

lemma trie_ref_ok [simp]: "trie_pkg_ok trie_ref"
proof -
  have longest: "trie_LongestPrefix trie_ref t q = map_option (\<lambda>k. (k, the (map_of t k)))
      (List.find (\<lambda>k. map_of t k \<noteq> None) (map (\<lambda>i. take (length q - i) q) [0..<Suc (length q)]))" for t q
    by (simp add: trie_ref_def del: upt_Suc)
  have "trie_LongestPrefix trie_ref t q = None \<longleftrightarrow> (\<forall>k \<in> dom (map_of t). \<not> prefix k q)" for t q
    unfolding longest map_option_is_None find_longest by auto
  moreover have "map_of t k = Some v \<and> prefix k q \<and> (\<forall>k' \<in> dom (map_of t). prefix k' q \<longrightarrow> length k' \<le> length k)"
    if hit: "trie_LongestPrefix trie_ref t q = Some (k, v)" for t q k v
  proof -
    note found = map_option_pair [OF hit [unfolded longest]]
    have "map_of t k \<noteq> None \<and> prefix k q \<and> (\<forall>k'. map_of t k' \<noteq> None \<and> prefix k' q \<longrightarrow> length k' \<le> length k)"
      by (rule find_longest(2) [OF conjunct1 [OF found]])
    moreover from this have "map_of t k = Some v" unfolding conjunct2 [OF found] by simp
    ultimately show ?thesis unfolding dom_def by blast
  qed
  moreover have "trie_Get trie_ref = map_of" "trie_new trie_ref = []" "trie_Put trie_ref = (\<lambda>k v t. (k, v) # t)"
    by (simp_all add: trie_ref_def)
  ultimately show ?thesis unfolding trie_pkg_ok_def by simp
qed

section \<open>Reversed labels\<close>

lemma swapLabels_nth:
  "right < length labels \<Longrightarrow> length (swapLabels left right labels) = length labels \<and>
     (\<forall>i < length labels. swapLabels left right labels ! i =
        (if left \<le> i \<and> i \<le> right then labels ! (left + right - i) else labels ! i))"
proof (induction left right labels rule: swapLabels.induct)
  case (1 left right labels)
  show ?case
  proof (cases "left < right")
    case True
    let ?l = "labels[left := labels ! right, right := labels ! left]"
    have ih: "length (swapLabels (left + 1) (right - 1) ?l) = length labels"
      "\<And>i. i < length labels \<Longrightarrow> swapLabels (left + 1) (right - 1) ?l ! i =
        (if left + 1 \<le> i \<and> i \<le> right - 1 then ?l ! (left + right - i) else ?l ! i)"
      using "1.IH" [OF True] "1.prems" True by auto
    show ?thesis
      using True "1.prems" ih by (subst (1 2) swapLabels.simps) (auto simp: nth_list_update)
  next
    case False
    then have "labels ! i = labels ! (left + right - i)" if "left \<le> i" "i \<le> right" for i
      using that by (metis add_diff_cancel_left' le_antisym linorder_not_less order_trans)
    with False show ?thesis by (subst (1 2) swapLabels.simps) simp
  qed
qed

lemma swapLabels_rev: "labels \<noteq> [] \<Longrightarrow> swapLabels 0 (length labels - Suc 0) labels = rev labels"
proof (rule nth_equalityI)
  assume ne: "labels \<noteq> []"
  note swap = swapLabels_nth [of "length labels - Suc 0" labels 0]
  show len: "length (swapLabels 0 (length labels - Suc 0) labels) = length (rev labels)" using swap ne by simp
  fix i assume "i < length (swapLabels 0 (length labels - Suc 0) labels)"
  then have "i < length labels" "i \<le> length labels - Suc 0" using len by auto
  then show "swapLabels 0 (length labels - Suc 0) labels ! i = rev labels ! i"
    using swap ne by (simp add: rev_nth)
qed

lemma Join_dots: "ls \<noteq> [] \<Longrightarrow> Join ls ''.'' @ ''.'' = concat (map (\<lambda>l. l @ ''.'') ls)"
proof (induction ls)
  case (Cons l ls)
  then show ?case by (cases ls) (auto simp: Join_Cons)
qed simp

lemma prefix_concat_dots:
  assumes "\<forall>l \<in> set xs \<union> set ys. CHR ''.'' \<notin> set l"
  shows "prefix (concat (map (\<lambda>l. l @ ''.'') xs)) (concat (map (\<lambda>l. l @ ''.'') ys)) \<longleftrightarrow> prefix xs ys"
  using assms
proof (induction xs arbitrary: ys)
  case (Cons x xs)
  show ?case
  proof (cases ys)
    case (Cons y ys')
    have "CHR ''.'' \<notin> set x" "CHR ''.'' \<notin> set y" using Cons.prems Cons by auto
    then have "prefix ((x @ ''.'') @ u) ((y @ ''.'') @ w) \<longleftrightarrow> x = y \<and> prefix u w" for u w
      using append_sep_eq_iff [of "CHR ''.''" y x] by (auto simp: prefix_def)
    with Cons Cons.IH [of ys'] Cons.prems show ?thesis by simp
  qed simp
qed simp

lemma suffix_split_on:
  "suffix (split_on c w) (split_on c v) \<longleftrightarrow> v = w \<or> suffix (c # w) v"
proof
  assume "suffix (split_on c w) (split_on c v)"
  then obtain us where us: "split_on c v = us @ split_on c w" by (auto simp: suffix_def)
  show "v = w \<or> suffix (c # w) v"
  proof (cases "us = []")
    case True
    then show ?thesis using us Join_split_on by (metis append_Nil)
  next
    case False
    have "Join (us @ ws) [c] = Join us [c] @ c # Join ws [c]" if "ws \<noteq> []" for ws
      using False
    proof (induction us)
      case (Cons x us)
      then show ?case using that by (cases us) (auto simp: Join_Cons)
    qed simp
    then have "v = Join us [c] @ c # w" using us Join_split_on [of c v] Join_split_on [of c w] by simp
    then show ?thesis by (auto simp: suffix_def)
  qed
qed (auto simp: suffix_def split_on_append_sep)

lemma reverseDNSName_labels:
  assumes "w \<noteq> []"
  shows "reverseDNSName (w @ ''.'') = concat (map (\<lambda>l. l @ ''.'') (rev (split_on (CHR ''.'') w)))"
  using assms by (simp add: reverseDNSName_def TrimSuffix_def swapLabels_rev Join_dots Let_def suffix_def)

text \<open>
  A reversed name is a prefix of another exactly when its zone contains the name: the trailing
  dot keeps the prefix on a label boundary.
\<close>

lemma prefix_reverse_in_zone:
  assumes "suffix ''.'' z" and "suffix ''.'' n" and "z \<noteq> ''.''" and "n \<noteq> ''.''"
  shows "prefix (reverseDNSName z) (reverseDNSName n) \<longleftrightarrow> in_zone z n"
proof -
  obtain w v where wv: "z = w @ ''.''" "n = v @ ''.''" using assms(1,2) by (auto simp: suffix_def)
  then have ne: "w \<noteq> []" "v \<noteq> []" using assms(3,4) by auto
  have "prefix (reverseDNSName z) (reverseDNSName n) \<longleftrightarrow>
      prefix (rev (split_on (CHR ''.'') w)) (rev (split_on (CHR ''.'') v))"
    unfolding wv reverseDNSName_labels [OF ne(1)] reverseDNSName_labels [OF ne(2)]
    by (rule prefix_concat_dots) (auto dest: split_on_parts)
  also have "\<dots> \<longleftrightarrow> v = w \<or> suffix (CHR ''.'' # w) v"
    using suffix_split_on by (simp add: suffix_to_prefix)
  also have "\<dots> \<longleftrightarrow> in_zone z n"
    using assms(3) by (auto simp: in_zone_def wv suffix_def)
  finally show ?thesis .
qed

lemma length_reverseDNSName:
  assumes "suffix ''.'' z" and "z \<noteq> ''.''"
  shows "length (reverseDNSName z) = length z"
proof -
  obtain w where w: "z = w @ ''.''" "w \<noteq> []" using assms by (auto simp: suffix_def)
  have "length (concat (map (\<lambda>l. l @ ''.'') (rev ls))) = length (concat (map (\<lambda>l. l @ ''.'') ls))" for ls
    by (induction ls) auto
  then have "length (reverseDNSName z) = length (Join (split_on (CHR ''.'') w) ''.'' @ ''.'')"
    unfolding w(1) reverseDNSName_labels [OF w(2)] Join_dots [OF split_on_not_Nil] by blast
  then show ?thesis unfolding Join_split_on w(1) .
qed

section \<open>The longest zone\<close>

interpretation by_length: keyed_order compareZoneNames "\<lambda>s. (- int (length s), s)"
  by unfold_locales (auto simp: compareZoneNames_def three_way_def)

lemma set_uniqueSortedZoneNames:
  assumes "set_pkg_ok OS"
  shows "set (uniqueSortedZoneNames OS zones) = zone_Name ` set zones"
proof -
  have "set (oset_Values OS (fold (\<lambda>zone zs. oset_Add OS (zone_Name zone) zs) zones zs)) =
      set (oset_Values OS zs) \<union> zone_Name ` set zones" for zs
    by (induction zones arbitrary: zs) (auto simp: oset_laws [OF assms])
  then show ?thesis by (simp add: uniqueSortedZoneNames_def Let_def oset_laws [OF assms])
qed

lemma trie_Get_index:
  assumes "trie_pkg_ok T"
  shows "trie_Get T (fold (\<lambda>name trie. trie_Put T (reverseDNSName name) name trie) names t) k = Some z \<Longrightarrow>
      (z \<in> set names \<and> k = reverseDNSName z) \<or> trie_Get T t k = Some z"
    and "dom (trie_Get T (fold (\<lambda>name trie. trie_Put T (reverseDNSName name) name trie) names t)) =
      reverseDNSName ` set names \<union> dom (trie_Get T t)"
proof (induction names arbitrary: t)
  case (Cons n names)
  {
    case 1
    then show ?case using Cons.IH(1) [of "trie_Put T (reverseDNSName n) n t"] assms
      by (auto simp: trie_pkg_ok_def split: if_split_asm)
  next
    case 2
    show ?case using Cons.IH(2) [of "trie_Put T (reverseDNSName n) n t"] assms by (auto simp: trie_pkg_ok_def)
  }
qed simp_all

definition is_zone_of :: "Zone list \<Rightarrow> string \<Rightarrow> string \<Rightarrow> bool" where
  "is_zone_of zones n z \<longleftrightarrow> z \<in> zone_Name ` set zones \<and> in_zone z n"

lemma Match_newZoneIndex:
  assumes "names_pkg_ok E" and "set_pkg_ok OS" and "trie_pkg_ok T"
    and zones: "\<And>z. z \<in> zone_Name ` set zones \<Longrightarrow> dns_name z \<and> z \<noteq> ''.''" and n: "dns_name n" "n \<noteq> ''.''"
  shows "case Match E T (newZoneIndex OS T zones) n of
      None \<Rightarrow> \<forall>z. \<not> is_zone_of zones n z
    | Some z \<Rightarrow> is_zone_of zones n z \<and> (\<forall>z'. is_zone_of zones n z' \<longrightarrow> length z' \<le> length z)"
proof -
  let ?names = "uniqueSortedZoneNames OS zones"
  let ?t = "fold (\<lambda>name trie. trie_Put T (reverseDNSName name) name trie) ?names (trie_new T)"
  note names = set_uniqueSortedZoneNames [OF assms(2), of zones]
  have empty: "trie_Get T (trie_new T) = Map.empty" using assms(3) by (simp add: trie_pkg_ok_def)
  have dom: "dom (trie_Get T ?t) = reverseDNSName ` zone_Name ` set zones"
    by (simp add: trie_Get_index(2) [OF assms(3)] names empty)
  have pre: "prefix (reverseDNSName z) (reverseDNSName n) \<longleftrightarrow> in_zone z n" if "z \<in> zone_Name ` set zones" for z
    using prefix_reverse_in_zone [of z n] zones [OF that] n by (simp add: dns_name_def)
  have len: "length (reverseDNSName z) = length z" if "z \<in> zone_Name ` set zones" for z
    using length_reverseDNSName [of z] zones [OF that] by (simp add: dns_name_def)
  have Match: "Match E T (newZoneIndex OS T zones) n =
      (case trie_LongestPrefix T ?t (reverseDNSName n) of None \<Rightarrow> None
       | Some (_, zone) \<Rightarrow> if \<not> IsSubDomain E zone n then None else Some zone)" if "zones \<noteq> []"
  proof -
    have "?names \<noteq> []" using names that by (metis image_is_empty set_empty)
    then show ?thesis by (simp add: Match_def newZoneIndex_def Let_def)
  qed
  show ?thesis
  proof (cases "zones = []")
    case True
    then have "?names = []" using names by simp
    then show ?thesis using True by (simp add: Match_def newZoneIndex_def Let_def is_zone_of_def)
  next
    case False
    show ?thesis
    proof (cases "trie_LongestPrefix T ?t (reverseDNSName n)")
      case None
      then have "\<forall>k \<in> dom (trie_Get T ?t). \<not> prefix k (reverseDNSName n)" using assms(3) by (simp add: trie_pkg_ok_def)
      then have "\<not> is_zone_of zones n z" for z using pre by (auto simp: dom is_zone_of_def)
      then show ?thesis by (simp add: Match [OF False] None)
    next
      case (Some kz)
      then obtain k z where kz: "trie_LongestPrefix T ?t (reverseDNSName n) = Some (k, z)" by (cases kz) simp
      then have hit: "trie_Get T ?t k = Some z" "prefix k (reverseDNSName n)"
        "\<forall>k' \<in> dom (trie_Get T ?t). prefix k' (reverseDNSName n) \<longrightarrow> length k' \<le> length k"
        using assms(3) by (auto simp: trie_pkg_ok_def)
      have z: "z \<in> zone_Name ` set zones" "k = reverseDNSName z"
        using trie_Get_index(1) [OF assms(3) hit(1)] names empty by auto
      then have inz: "in_zone z n" using hit(2) pre by simp
      then have "IsSubDomain E z n" using IsSubDomain_in_zone [OF assms(1)] zones [OF z(1)] n by simp
      moreover have "length z' \<le> length z" if z': "is_zone_of zones n z'" for z'
        using hit(3) pre len z z' unfolding dom is_zone_of_def by (metis imageI)
      ultimately show ?thesis using inz z(1) by (simp add: Match [OF False] kz is_zone_of_def)
    qed
  qed
qed

text \<open>There is one longest zone: two zones of the same length that contain a name are equal.\<close>

lemma zone_unique:
  assumes "in_zone z n" and "in_zone z' n" and "length z = length z'" and "z \<noteq> ''.''" and "z' \<noteq> ''.''"
  shows "z = z'"
proof -
  have "suffix z n" "suffix z' n"
    using assms(1,2,4,5) by (auto simp: in_zone_def dest: suffix_ConsD)
  with assms(3) show ?thesis by (auto simp: suffix_def)
qed

section \<open>Properties\<close>

text \<open>
  C25: The zone the index finds for a name is a zone that contains it, and no zone that contains it is
  longer; it finds none exactly when no zone contains the name. Label boundaries are respected:
  the zone \<open>ple.org.\<close> does not contain \<open>example.org.\<close>.
\<close>

theorem Match_finds_longest_zone:
  assumes "names_pkg_ok E" and "set_pkg_ok OS" and "trie_pkg_ok T" and "\<forall>zone \<in> set zones. normal_zone E (zone_Name zone)"
    and "plain name" and "fqdnName E name \<noteq> ''.''"
  shows "case Match E T (newZoneIndex OS T zones) (fqdnName E name) of
      None \<Rightarrow> \<forall>zone \<in> set zones. \<not> in_zone (zone_Name zone) (fqdnName E name)
    | Some z \<Rightarrow> z \<in> zone_Name ` set zones \<and> in_zone z (fqdnName E name) \<and>
        (\<forall>zone \<in> set zones. in_zone (zone_Name zone) (fqdnName E name) \<longrightarrow>
           length (zone_Name zone) < length z \<or> zone_Name zone = z)"
proof -
  let ?n = "fqdnName E name"
  have zones: "dns_name z \<and> z \<noteq> ''.''" if "z \<in> zone_Name ` set zones" for z
    using that assms(4) fqdnName_plain(1) [OF assms(1)] by (fastforce simp: normal_zone_def NormalizeZoneName_Inr)
  note m = Match_newZoneIndex [where zones = zones, OF assms(1-3) zones fqdnName_plain(1) [OF assms(1,5)] assms(6)]
  show ?thesis
  proof (cases "Match E T (newZoneIndex OS T zones) ?n")
    case None
    then show ?thesis using m by (auto simp: is_zone_of_def)
  next
    case (Some z)
    with m have z: "z \<in> zone_Name ` set zones" "in_zone z ?n"
      "\<And>z'. z' \<in> zone_Name ` set zones \<Longrightarrow> in_zone z' ?n \<Longrightarrow> length z' \<le> length z" by (auto simp: is_zone_of_def)
    have "length z' < length z \<or> z' = z" if "z' \<in> zone_Name ` set zones" "in_zone z' ?n" for z'
      using z(3) [OF that] zone_unique [OF that(2) z(2)] zones [OF that(1)] zones [OF z(1)] by fastforce
    with Some z(1,2) show ?thesis by auto
  qed
qed

definition sample_zones :: "Zone list" where
  "sample_zones = map (\<lambda>n. \<lparr>zone_Name = n\<rparr>) [''example.org.'', ''ple.org.'', ''sub.example.org.'', ''b.example.org.'']"

theorem Match_finds_longest_zone_witness:
  "Match names_ref trie_ref (newZoneIndex set_ref trie_ref sample_zones) (fqdnName names_ref ''WWW.Sub.example.org'') =
     Some ''sub.example.org.'' \<and>
   in_zone ''sub.example.org.'' (fqdnName names_ref ''WWW.Sub.example.org'')"
proof -
  have z: "\<forall>zone \<in> set sample_zones. normal_zone names_ref (zone_Name zone)" by code_simp
  have n: "plain ''WWW.Sub.example.org''" "fqdnName names_ref ''WWW.Sub.example.org'' \<noteq> ''.''" by code_simp+
  have "Match names_ref trie_ref (newZoneIndex set_ref trie_ref sample_zones) (fqdnName names_ref ''WWW.Sub.example.org'') =
     Some ''sub.example.org.''" by code_simp
  with Match_finds_longest_zone [OF names_ref_ok set_ref_ok trie_ref_ok z n] show ?thesis by simp
qed

end
