(* ===== verification/Resolver.thy ===== *)
theory Resolver
  imports RR Zone_Index Memory_Store
begin

text \<open>
  How the resolver answers a question from the records of one zone:
  \<^verbatim>\<open>dnsserver/resolver_authoritative.go\<close> and \<^verbatim>\<open>resolver_additional.go\<close>. The choice of the zone and the
  response cache are in the theories \<open>Query\<close> and \<open>Response_Cache\<close>.
\<close>

section \<open>Answers\<close>

abbreviation RcodeSuccess :: int where "RcodeSuccess \<equiv> 0"
abbreviation RcodeFormatError :: int where "RcodeFormatError \<equiv> 1"
abbreviation RcodeServerFailure :: int where "RcodeServerFailure \<equiv> 2"
abbreviation RcodeNameError :: int where "RcodeNameError \<equiv> 3"
abbreviation RcodeNotImplemented :: int where "RcodeNotImplemented \<equiv> 4"
abbreviation RcodeRefused :: int where "RcodeRefused \<equiv> 5"

record 'rr Resolution =
  rsn_RCode :: int
  rsn_Answer :: "'rr option list"
  rsn_Authority :: "'rr option list"
  rsn_Extra :: "'rr option list"
  rsn_Authoritative :: bool

definition IsNegative :: "'rr Resolution \<Rightarrow> bool" where
  "IsNegative response \<longleftrightarrow> rsn_RCode response = RcodeNameError \<or>
     (rsn_RCode response = RcodeSuccess \<and> length (rsn_Answer response) = 0)"

section \<open>Lookups\<close>

definition rsv_lookup ::
  "'s Repository \<Rightarrow> string \<Rightarrow> string \<Rightarrow> uint16 \<Rightarrow> uint16 \<Rightarrow> 's \<Rightarrow> error + Record list" where
  "rsv_lookup repo zone name qtype qclass s =
     (case repo_Lookup repo zone name qtype qclass s of
        Inl err \<Rightarrow> Inl err
      | Inr records \<Rightarrow> Inr records)"

definition rsv_lookupAll ::
  "'s Repository \<Rightarrow> string \<Rightarrow> string \<Rightarrow> uint16 \<Rightarrow> 's \<Rightarrow> error + Record list" where
  "rsv_lookupAll repo zone name qclass s =
     (case repo_LookupAll repo zone name qclass s of
        Inl err \<Rightarrow> Inl err
      | Inr records \<Rightarrow> Inr records)"

section \<open>Additional records\<close>

definition additionalTarget :: "('rr, 'x) rr_pkg_scheme \<Rightarrow> 'rr option \<Rightarrow> string" where
  "additionalTarget E rr =
     (case rr of
        None \<Rightarrow> []
      | Some r \<Rightarrow>
         (case rr_typed E r of
            IsCNAME target \<Rightarrow> target
          | IsNS ns \<Rightarrow> ns
          | IsMX mx \<Rightarrow> mx
          | IsSRV target \<Rightarrow> target
          | IsOther \<Rightarrow> []))"

text \<open>\<^verbatim>\<open>dns.Fqdn(strings.ToLower(strings.TrimSpace(s)))\<close>, the order the resolver uses.\<close>

definition fqdnTrimmed :: "'x names_pkg_scheme \<Rightarrow> string \<Rightarrow> string" where
  "fqdnTrimmed E s = Fqdn E (ToLower (unicodeLower E) (TrimSpace s))"

definition normalizeAdditionalTarget :: "'x names_pkg_scheme \<Rightarrow> string \<Rightarrow> string" where
  "normalizeAdditionalTarget E target =
     (let normalized = fqdnTrimmed E target in if normalized = ''.'' then [] else normalized)"

definition additionalTargets ::
  "('rr, 'x) rr_pkg_scheme \<Rightarrow> 'o set_pkg \<Rightarrow> string \<Rightarrow> 'rr option list \<Rightarrow> 'o" where
  "additionalTargets E OS zone answer =
     fold (\<lambda>rr targets.
         let normalized = normalizeAdditionalTarget E (additionalTarget E rr) in
         if normalized = [] \<or> \<not> IsSubDomain E zone normalized then targets
         else oset_Add OS normalized targets)
       answer (oset_new OS)"

definition lookupAddressRRs ::
  "('rr, 'x) rr_pkg_scheme \<Rightarrow> 's Repository \<Rightarrow> string \<Rightarrow> string \<Rightarrow> uint16 \<Rightarrow> 's \<Rightarrow> error + 'rr option list" where
  "lookupAddressRRs E repo zone target qclass s =
     (case rsv_lookup repo zone target TypeA qclass s of
        Inl err \<Rightarrow> Inl err
      | Inr found4 \<Rightarrow>
         (case rsv_lookup repo zone target TypeAAAA qclass s of
            Inl err \<Rightarrow> Inl err
          | Inr found6 \<Rightarrow>
             (let records = found4 @ found6 in
              if length records = 0 then Inr [] else recordsToRRs E records)))"

text \<open>The loop over the records of one target, which skips those whose text it has seen.\<close>

fun addUnseen ::
  "('rr, 'x) rr_pkg_scheme \<Rightarrow> string list \<Rightarrow> 'rr option list \<Rightarrow> error + ('rr option list \<times> string list)" where
  "addUnseen E seen [] = Inr ([], seen)"
| "addUnseen E seen (None # rrs) = Inl (Panic ''nil pointer dereference'')"
| "addUnseen E seen (Some rr # rrs) =
     (let key = rr_String E rr in
      if key \<in> set seen then addUnseen E seen rrs
      else
        case addUnseen E (key # seen) rrs of
          Inl err \<Rightarrow> Inl err
        | Inr (extra, seen') \<Rightarrow> Inr (Some rr # extra, seen'))"

fun collectExtra ::
  "('rr, 'x) rr_pkg_scheme \<Rightarrow> 's Repository \<Rightarrow> string \<Rightarrow> uint16 \<Rightarrow> 's \<Rightarrow> string list \<Rightarrow> string list \<Rightarrow>
     error + 'rr option list" where
  "collectExtra E repo zone qclass s seen [] = Inr []"
| "collectExtra E repo zone qclass s seen (target # targets) =
     (case lookupAddressRRs E repo zone target qclass s of
        Inl err \<Rightarrow> Inl err
      | Inr targetExtra \<Rightarrow>
         (case addUnseen E seen targetExtra of
            Inl err \<Rightarrow> Inl err
          | Inr (extra, seen') \<Rightarrow>
             (case collectExtra E repo zone qclass s seen' targets of
                Inl err \<Rightarrow> Inl err
              | Inr rest \<Rightarrow> Inr (extra @ rest))))"

definition additionalRecords ::
  "('rr, 'x) rr_pkg_scheme \<Rightarrow> 'o set_pkg \<Rightarrow> 's Repository \<Rightarrow> string \<Rightarrow> uint16 \<Rightarrow> 'rr option list \<Rightarrow> 's \<Rightarrow>
     error + 'rr option list" where
  "additionalRecords E OS repo zone qclass answer s =
     (let targets = additionalTargets E OS zone answer in
      if oset_Len OS targets = 0 then Inr []
      else
        case rrStrings E answer of
          Inl err \<Rightarrow> Inl err
        | Inr seen \<Rightarrow> collectExtra E repo zone qclass s seen (oset_Values OS targets))"

section \<open>Responses\<close>

definition successResolution ::
  "('rr, 'x) rr_pkg_scheme \<Rightarrow> 'o set_pkg \<Rightarrow> 's Repository \<Rightarrow> string \<Rightarrow> uint16 \<Rightarrow> 'rr option list \<Rightarrow> 's \<Rightarrow>
     error + 'rr Resolution" where
  "successResolution E OS repo zone qclass answer s =
     (case additionalRecords E OS repo zone qclass answer s of
        Inl err \<Rightarrow> Inl err
      | Inr extra \<Rightarrow> Inr \<lparr>rsn_RCode = RcodeSuccess, rsn_Answer = answer, rsn_Authority = [],
                          rsn_Extra = extra, rsn_Authoritative = True\<rparr>)"

definition serverFailureResolution :: "'rr Resolution" where
  "serverFailureResolution = \<lparr>rsn_RCode = RcodeServerFailure, rsn_Answer = [], rsn_Authority = [],
     rsn_Extra = [], rsn_Authoritative = True\<rparr>"

definition authoritySOA ::
  "('rr, 'x) rr_pkg_scheme \<Rightarrow> 's Repository \<Rightarrow> string \<Rightarrow> uint16 \<Rightarrow> 's \<Rightarrow> error + 'rr option list" where
  "authoritySOA E repo zone qclass s =
     (case rsv_lookup repo zone zone TypeSOA qclass s of
        Inl err \<Rightarrow> Inl err
      | Inr soa \<Rightarrow> recordsToRRs E soa)"

definition cnameTerminalNoDataResponse ::
  "('rr, 'x) rr_pkg_scheme \<Rightarrow> 'o set_pkg \<Rightarrow> 's Repository \<Rightarrow> string \<Rightarrow> uint16 \<Rightarrow> 'rr option list \<Rightarrow> 's \<Rightarrow>
     error + 'rr Resolution" where
  "cnameTerminalNoDataResponse E OS repo zone qclass answer s =
     (case authoritySOA E repo zone qclass s of
        Inl err \<Rightarrow> Inl err
      | Inr authority \<Rightarrow>
         (case additionalRecords E OS repo zone qclass answer s of
            Inl err \<Rightarrow> Inl err
          | Inr extra \<Rightarrow> Inr \<lparr>rsn_RCode = RcodeSuccess, rsn_Answer = answer, rsn_Authority = authority,
                              rsn_Extra = extra, rsn_Authoritative = True\<rparr>))"

definition negativeResponse ::
  "('rr, 'x) rr_pkg_scheme \<Rightarrow> 's Repository \<Rightarrow> string \<Rightarrow> string \<Rightarrow> uint16 \<Rightarrow> 's \<Rightarrow> error + 'rr Resolution" where
  "negativeResponse E repo zone name qclass s =
     (case rsv_lookupAll repo zone name qclass s of
        Inl err \<Rightarrow> Inl err
      | Inr allRecords \<Rightarrow>
         (case authoritySOA E repo zone qclass s of
            Inl err \<Rightarrow> Inl err
          | Inr authority \<Rightarrow>
             (let rcode = (if length allRecords = 0 then RcodeNameError else RcodeSuccess) in
              Inr \<lparr>rsn_RCode = rcode, rsn_Answer = [], rsn_Authority = authority, rsn_Extra = [],
                   rsn_Authoritative = True\<rparr>)))"

definition resolveAny ::
  "('rr, 'x) rr_pkg_scheme \<Rightarrow> 'o set_pkg \<Rightarrow> 's Repository \<Rightarrow> string \<Rightarrow> string \<Rightarrow> uint16 \<Rightarrow> 's \<Rightarrow>
     error + 'rr Resolution" where
  "resolveAny E OS repo zone name qclass s =
     (case rsv_lookupAll repo zone name qclass s of
        Inl err \<Rightarrow> Inl err
      | Inr records \<Rightarrow>
         (if length records = 0 then negativeResponse E repo zone name qclass s
          else
            case recordsToRRs E records of
              Inl err \<Rightarrow> Inl err
            | Inr answer \<Rightarrow> successResolution E OS repo zone qclass answer s))"

text \<open>The resolution and the flag \<^verbatim>\<open>matched\<close> are one optional value.\<close>

definition resolveExact ::
  "('rr, 'x) rr_pkg_scheme \<Rightarrow> 'o set_pkg \<Rightarrow> 's Repository \<Rightarrow> string \<Rightarrow> string \<Rightarrow> uint16 \<Rightarrow> uint16 \<Rightarrow> 's \<Rightarrow>
     error + 'rr Resolution option" where
  "resolveExact E OS repo zone name qtype qclass s =
     (case rsv_lookup repo zone name qtype qclass s of
        Inl err \<Rightarrow> Inl err
      | Inr exact \<Rightarrow>
         (if length exact = 0 then Inr None
          else
            case recordsToRRs E exact of
              Inl err \<Rightarrow> Inl err
            | Inr answer \<Rightarrow>
               (case successResolution E OS repo zone qclass answer s of
                  Inl err \<Rightarrow> Inl err
                | Inr resolution \<Rightarrow> Inr (Some resolution))))"

section \<open>CNAME chains\<close>

record 'rr cnameStep =
  cs_found :: bool
  cs_done :: bool
  cs_target :: string
  cs_answer :: "'rr option list"

definition lookupTargetAnswer ::
  "('rr, 'x) rr_pkg_scheme \<Rightarrow> 's Repository \<Rightarrow> string \<Rightarrow> string \<Rightarrow> uint16 \<Rightarrow> uint16 \<Rightarrow> 's \<Rightarrow>
     error + 'rr option list" where
  "lookupTargetAnswer E repo zone target qtype qclass s =
     (case rsv_lookup repo zone target qtype qclass s of
        Inl err \<Rightarrow> Inl err
      | Inr targetRecords \<Rightarrow> if length targetRecords = 0 then Inr [] else recordsToRRs E targetRecords)"

definition nextCNAMEStep ::
  "('rr, 'x) rr_pkg_scheme \<Rightarrow> 's Repository \<Rightarrow> string \<Rightarrow> string \<Rightarrow> uint16 \<Rightarrow> uint16 \<Rightarrow> 's \<Rightarrow>
     error + 'rr cnameStep" where
  "nextCNAMEStep E repo zone current qtype qclass s =
     (case rsv_lookup repo zone current TypeCNAME qclass s of
        Inl err \<Rightarrow> Inl err
      | Inr cnames \<Rightarrow>
         (if length cnames = 0 then Inr \<lparr>cs_found = False, cs_done = False, cs_target = [], cs_answer = []\<rparr>
          else
            case recordsToRRs E cnames of
              Inl err \<Rightarrow> Inl err
            | Inr answer \<Rightarrow>
               (let target = CNAME E (last cnames) in
                if target = [] \<or> qtype = TypeCNAME \<or> \<not> IsSubDomain E zone target
                then Inr \<lparr>cs_found = True, cs_done = True, cs_target = [], cs_answer = answer\<rparr>
                else
                  case lookupTargetAnswer E repo zone target qtype qclass s of
                    Inl err \<Rightarrow> Inl err
                  | Inr targetAnswer \<Rightarrow>
                     (if length targetAnswer > 0
                      then Inr \<lparr>cs_found = True, cs_done = True, cs_target = [], cs_answer = answer @ targetAnswer\<rparr>
                      else Inr \<lparr>cs_found = True, cs_done = False, cs_target = target, cs_answer = answer\<rparr>))))"

definition emptyCNAMEStepResponse ::
  "('rr, 'x) rr_pkg_scheme \<Rightarrow> 'o set_pkg \<Rightarrow> 's Repository \<Rightarrow> string \<Rightarrow> string \<Rightarrow> string \<Rightarrow> uint16 \<Rightarrow>
     'rr option list \<Rightarrow> 's \<Rightarrow> error + 'rr Resolution" where
  "emptyCNAMEStepResponse E OS repo zone originalName current qclass answer s =
     (if current = originalName then negativeResponse E repo zone originalName qclass s
      else cnameTerminalNoDataResponse E OS repo zone qclass answer s)"

text \<open>
  The loop runs at most \<^verbatim>\<open>maxCNAMEChain\<close> times, its first argument; \<open>visited\<close> is the set of names seen.
\<close>

fun cnameLoop ::
  "nat \<Rightarrow> ('rr, 'x) rr_pkg_scheme \<Rightarrow> 'o set_pkg \<Rightarrow> 's Repository \<Rightarrow> string \<Rightarrow> string \<Rightarrow> uint16 \<Rightarrow> uint16 \<Rightarrow> 's \<Rightarrow>
     string \<Rightarrow> string list \<Rightarrow> 'rr option list \<Rightarrow> error + 'rr Resolution" where
  "cnameLoop 0 E OS repo zone name qtype qclass s current visited answer = Inr serverFailureResolution"
| "cnameLoop (Suc n) E OS repo zone name qtype qclass s current visited answer =
     (case nextCNAMEStep E repo zone current qtype qclass s of
        Inl err \<Rightarrow> Inl err
      | Inr step \<Rightarrow>
         (if \<not> cs_found step then emptyCNAMEStepResponse E OS repo zone name current qclass answer s
          else
            let answer' = answer @ cs_answer step in
            if cs_done step then successResolution E OS repo zone qclass answer' s
            else if cs_target step \<in> set visited then Inr serverFailureResolution
            else cnameLoop n E OS repo zone name qtype qclass s (cs_target step) (cs_target step # visited) answer'))"

definition resolveCNAMEChain ::
  "nat \<Rightarrow> ('rr, 'x) rr_pkg_scheme \<Rightarrow> 'o set_pkg \<Rightarrow> 's Repository \<Rightarrow> string \<Rightarrow> string \<Rightarrow> uint16 \<Rightarrow> uint16 \<Rightarrow> 's \<Rightarrow>
     error + 'rr Resolution" where
  "resolveCNAMEChain maxCNAMEChain E OS repo zone name qtype qclass s =
     cnameLoop maxCNAMEChain E OS repo zone name qtype qclass s name [name] []"

definition resolveAuthoritative ::
  "nat \<Rightarrow> ('rr, 'x) rr_pkg_scheme \<Rightarrow> 'o set_pkg \<Rightarrow> 's Repository \<Rightarrow> string \<Rightarrow> string \<Rightarrow> uint16 \<Rightarrow> uint16 \<Rightarrow> 's \<Rightarrow>
     error + 'rr Resolution" where
  "resolveAuthoritative maxCNAMEChain E OS repo zone name qtype qclass s =
     (if qclass \<noteq> ClassINET \<and> qclass \<noteq> ClassANY
      then Inr \<lparr>rsn_RCode = RcodeNotImplemented, rsn_Answer = [], rsn_Authority = [], rsn_Extra = [],
                rsn_Authoritative = True\<rparr>
      else if qtype = TypeANY then resolveAny E OS repo zone name qclass s
      else
        case resolveExact E OS repo zone name qtype qclass s of
          Inl err \<Rightarrow> Inl err
        | Inr (Some resolution) \<Rightarrow> Inr resolution
        | Inr None \<Rightarrow> resolveCNAMEChain maxCNAMEChain E OS repo zone name qtype qclass s)"

section \<open>Additional records, proved on lists\<close>

text \<open>
  What \<^verbatim>\<open>additionalRecords\<close> promises of the section it fills: no record twice, none that the answer
  has already, only address records of the targets, and all of them.
\<close>

abbreviation rr_text :: "('rr, 'x) rr_pkg_scheme \<Rightarrow> 'rr option \<Rightarrow> string" where
  "rr_text E rr \<equiv> rr_String E (the rr)"

definition extra_ok ::
  "('rr, 'x) rr_pkg_scheme \<Rightarrow> string set \<Rightarrow> 'rr option list \<Rightarrow> 'rr option set \<Rightarrow> bool" where
  "extra_ok E seen extra found \<longleftrightarrow>
     None \<notin> set extra \<and> distinct (map (rr_text E) extra) \<and> rr_text E ` set extra \<inter> seen = {} \<and>
     set extra \<subseteq> found \<and> rr_text E ` found \<subseteq> seen \<union> rr_text E ` set extra"

lemma extra_ok_append:
  assumes "extra_ok E seen xs A" and "extra_ok E (seen \<union> rr_text E ` set xs) ys B"
  shows "extra_ok E seen (xs @ ys) (A \<union> B)"
  using assms unfolding extra_ok_def by auto

lemma addUnseen_ok:
  "addUnseen E seen rrs = Inr (extra, seen') \<Longrightarrow>
     extra_ok E (set seen) extra (set rrs) \<and> set seen' = set seen \<union> rr_text E ` set extra"
proof (induction E seen rrs arbitrary: extra seen' rule: addUnseen.induct)
  case (3 E seen rr rrs)
  show ?case
  proof (cases "rr_String E rr \<in> set seen")
    case True
    then have "addUnseen E seen rrs = Inr (extra, seen')" using "3.prems" by simp
    from "3.IH"(1) [OF refl True this] True show ?thesis by (auto simp: extra_ok_def)
  next
    case False
    with "3.prems" obtain rest where rest: "extra = Some rr # rest" "addUnseen E (rr_String E rr # seen) rrs = Inr (rest, seen')"
      by (auto simp: Let_def split: sum.splits prod.splits)
    from "3.IH"(2) [OF refl False rest(2)]
    have ih: "extra_ok E (insert (rr_String E rr) (set seen)) rest (set rrs)"
      "set seen' = insert (rr_String E rr) (set seen) \<union> rr_text E ` set rest" by simp_all
    have "extra_ok E (set seen) [Some rr] {Some rr}" using False by (simp add: extra_ok_def)
    from extra_ok_append [OF this, of rest "set rrs"] ih show ?thesis by (simp add: rest(1))
  qed
qed (simp_all add: extra_ok_def)

text \<open>The address records of a target that the store has.\<close>

definition address_rrs ::
  "('rr, 'x) rr_pkg_scheme \<Rightarrow> 's Repository \<Rightarrow> string \<Rightarrow> uint16 \<Rightarrow> 's \<Rightarrow> string \<Rightarrow> 'rr option set" where
  "address_rrs E repo zone qclass s t =
     (case lookupAddressRRs E repo zone t qclass s of Inl _ \<Rightarrow> {} | Inr rrs \<Rightarrow> set rrs)"

lemma collectExtra_ok:
  "collectExtra E repo zone qclass s seen targets = Inr extra \<Longrightarrow>
     extra_ok E (set seen) extra (\<Union>t \<in> set targets. address_rrs E repo zone qclass s t)"
proof (induction targets arbitrary: seen extra)
  case (Cons t targets)
  from Cons.prems obtain rrs ex seen' rest where
    rrs: "lookupAddressRRs E repo zone t qclass s = Inr rrs" and ex: "addUnseen E seen rrs = Inr (ex, seen')"
    and rest: "collectExtra E repo zone qclass s seen' targets = Inr rest" and extra: "extra = ex @ rest"
    by (auto split: sum.splits prod.splits)
  have "address_rrs E repo zone qclass s t = set rrs" by (simp add: address_rrs_def rrs)
  with extra_ok_append [of E "set seen" ex "set rrs" rest] addUnseen_ok [OF ex] Cons.IH [OF rest]
  show ?case by (simp add: extra)
qed (simp add: extra_ok_def)

lemma set_additionalTargets:
  assumes "set_pkg_ok OS"
  shows "set (oset_Values OS (additionalTargets E OS zone answer)) =
    {t. \<exists>rr \<in> set answer. t = normalizeAdditionalTarget E (additionalTarget E rr) \<and> t \<noteq> [] \<and> IsSubDomain E zone t}"
proof -
  let ?step = "\<lambda>rr targets. let normalized = normalizeAdditionalTarget E (additionalTarget E rr) in
         if normalized = [] \<or> \<not> IsSubDomain E zone normalized then targets else oset_Add OS normalized targets"
  have "set (oset_Values OS (fold ?step answer ts)) = set (oset_Values OS ts) \<union>
      {t. \<exists>rr \<in> set answer. t = normalizeAdditionalTarget E (additionalTarget E rr) \<and> t \<noteq> [] \<and> IsSubDomain E zone t}" for ts
    by (induction answer arbitrary: ts) (auto simp: Let_def oset_laws [OF assms])
  from this [of "oset_new OS"] show ?thesis by (simp add: additionalTargets_def oset_laws [OF assms])
qed

lemma additionalRecords_ok:
  assumes "set_pkg_ok OS" and "additionalRecords E OS repo zone qclass answer s = Inr extra"
  shows "extra_ok E (rr_text E ` set answer) extra
    (\<Union>t \<in> {t. \<exists>rr \<in> set answer. t = normalizeAdditionalTarget E (additionalTarget E rr) \<and> t \<noteq> [] \<and> IsSubDomain E zone t}.
       address_rrs E repo zone qclass s t)"
proof -
  let ?ts = "oset_Values OS (additionalTargets E OS zone answer)"
  show ?thesis
    unfolding set_additionalTargets [OF assms(1), of E zone answer, symmetric]
  proof (cases "?ts = []")
    case True
    then have "extra = []" using assms by (simp add: additionalRecords_def Let_def oset_laws)
    with True show "extra_ok E (rr_text E ` set answer) extra (\<Union>t \<in> set ?ts. address_rrs E repo zone qclass s t)"
      by (simp add: extra_ok_def)
  next
    case False
    then obtain seen where seen: "rrStrings E answer = Inr seen" "collectExtra E repo zone qclass s seen ?ts = Inr extra"
      using assms by (auto simp: additionalRecords_def Let_def oset_laws split: sum.splits)
    from collectExtra_ok [OF seen(2)] rrStrings_Inr [OF seen(1)]
    show "extra_ok E (rr_text E ` set answer) extra (\<Union>t \<in> set ?ts. address_rrs E repo zone qclass s t)" by simp
  qed
qed

section \<open>Answers from the content\<close>

text \<open>The contract of a back end, for a package that also has resource records.\<close>

locale rr_repository = repository E R invar content
  for E :: "('rr, 'x) rr_pkg_scheme" and R :: "'s Repository" and invar :: "'s \<Rightarrow> bool" and content :: "'s \<Rightarrow> abs_store"
begin

lemma rsv_lookup_spec:
  assumes "invar s" and "NormalizeLookup E z n = Inr (z, n)"
  shows "\<exists>rs. rsv_lookup R z n qt qc s = Inr rs \<and> sorted (map rec_Data rs) \<and> enumerates rs (lookup_set z n qt qc (content s))"
  using Lookup [OF assms, of qt qc] by (auto simp: rsv_lookup_def)

lemma rsv_lookupAll_spec:
  assumes "invar s" and "NormalizeLookup E z n = Inr (z, n)"
  shows "\<exists>rs. rsv_lookupAll R z n qc s = Inr rs \<and> sorted (map rec_Data rs) \<and> enumerates rs (lookup_set z n TypeANY qc (content s))"
  using LookupAll [OF assms, of qc] by (auto simp: rsv_lookupAll_def)

end

text \<open>The resource records of a set of stored records, in the order of their data.\<close>

definition rrs_of :: "('rr, 'x) rr_pkg_scheme \<Rightarrow> Record set \<Rightarrow> 'rr option list \<Rightarrow> bool" where
  "rrs_of E A rrs \<longleftrightarrow>
     (\<exists>rs. enumerates rs A \<and> sorted (map rec_Data rs) \<and> list_all2 (\<lambda>r rr. record_RR E r = Inr rr) rs rrs)"

lemma rrs_of_Nil: "rrs_of E A rrs \<Longrightarrow> rrs = [] \<longleftrightarrow> A = {}"
  by (auto simp: rrs_of_def enumerates_def)

context rr_repository
begin

lemma authoritySOA_spec:
  assumes "invar s" and "NormalizeLookup E z z = Inr (z, z)" and "authoritySOA E R z qc s = Inr rrs"
  shows "rrs_of E (lookup_set z z TypeSOA qc (content s)) rrs"
  using rsv_lookup_spec [OF assms(1,2), of TypeSOA qc] assms(3)
  by (auto simp: authoritySOA_def rrs_of_def recordsToRRs_Inr)

lemma negativeResponse_spec:
  assumes "invar s" and "NormalizeLookup E z z = Inr (z, z)" and "NormalizeLookup E z n = Inr (z, n)"
    and "negativeResponse E R z n qc s = Inr res"
  shows "rsn_RCode res = (if lookup_set z n TypeANY qc (content s) = {} then RcodeNameError else RcodeSuccess) \<and>
    rsn_Answer res = [] \<and> rsn_Extra res = [] \<and> rsn_Authoritative res \<and>
    rrs_of E (lookup_set z z TypeSOA qc (content s)) (rsn_Authority res)"
proof -
  obtain rs where rs: "rsv_lookupAll R z n qc s = Inr rs" "enumerates rs (lookup_set z n TypeANY qc (content s))"
    using rsv_lookupAll_spec [OF assms(1,3)] by blast
  then have "rs = [] \<longleftrightarrow> lookup_set z n TypeANY qc (content s) = {}" by (auto simp: enumerates_def)
  with rs(1) assms(4) authoritySOA_spec [OF assms(1,2)] show ?thesis
    by (auto simp: negativeResponse_def Let_def split: sum.splits)
qed

lemma resolveExact_spec:
  assumes "invar s" and "NormalizeLookup E z n = Inr (z, n)" and "resolveExact E OS R z n qt qc s = Inr r"
  shows "case r of
      None \<Rightarrow> lookup_set z n qt qc (content s) = {}
    | Some res \<Rightarrow> lookup_set z n qt qc (content s) \<noteq> {} \<and> rsn_RCode res = RcodeSuccess \<and> rsn_Authoritative res \<and>
        rrs_of E (lookup_set z n qt qc (content s)) (rsn_Answer res) \<and> rsn_Authority res = [] \<and>
        additionalRecords E OS R z qc (rsn_Answer res) s = Inr (rsn_Extra res)"
proof -
  obtain rs where rs: "rsv_lookup R z n qt qc s = Inr rs" "sorted (map rec_Data rs)"
    "enumerates rs (lookup_set z n qt qc (content s))"
    using rsv_lookup_spec [OF assms(1,2)] by blast
  then have "rs = [] \<longleftrightarrow> lookup_set z n qt qc (content s) = {}" by (auto simp: enumerates_def)
  with rs assms(3) show ?thesis
    by (auto simp: resolveExact_def successResolution_def rrs_of_def recordsToRRs_Inr split: sum.splits if_split_asm)
qed

end

end
