(* ===== verification/Resolver_Answers.thy ===== *)
theory Resolver_Answers
  imports Resolver
begin

text \<open>
  What the resolver answers, in terms of the content of the store: positive and negative
  answers, additional records and CNAME chains. The lemmas are proved for every back end that meets
  the contract, in the locale of the resolver, and stated as properties for the memory store.
\<close>

section \<open>When every stored record can be served\<close>

text \<open>
  A store is servable when the DNS package reads every record it holds, and the names its records
  point to are plain. The stores do not check this: \<^verbatim>\<open>Record.RR\<close> fails at a query otherwise.
\<close>

definition servable :: "('rr, 'x) rr_pkg_scheme \<Rightarrow> abs_store \<Rightarrow> bool" where
  "servable E a \<longleftrightarrow> (\<forall>r \<in> abs_records a.
     (case record_RR E r of Inr (Some rr) \<Rightarrow> plain (additionalTarget E (Some rr)) | _ \<Rightarrow> False) \<and>
     (rec_Type r = TypeCNAME \<longrightarrow> plain (rec_Data r)))"

lemma servable_iff: "servable E a \<longleftrightarrow> (\<forall>r \<in> abs_records a.
     (\<exists>rr. record_RR E r = Inr (Some rr) \<and> plain (additionalTarget E (Some rr))) \<and>
     (rec_Type r = TypeCNAME \<longrightarrow> plain (rec_Data r)))"
  unfolding servable_def by (intro ball_cong refl conj_cong) (auto split: sum.split option.split)

definition stored_rrs :: "('rr, 'x) rr_pkg_scheme \<Rightarrow> abs_store \<Rightarrow> 'rr option set" where
  "stored_rrs E a = {rr. \<exists>r \<in> abs_records a. record_RR E r = Inr rr}"

lemma servable_rr:
  assumes "servable E a" and "rr \<in> stored_rrs E a"
  shows "rr \<noteq> None \<and> plain (additionalTarget E rr)"
proof -
  obtain r where r: "r \<in> abs_records a" "record_RR E r = Inr rr" using assms(2) by (auto simp: stored_rrs_def)
  obtain x where "record_RR E r = Inr (Some x)" "plain (additionalTarget E (Some x))"
    using assms(1) r(1) unfolding servable_iff by blast
  with r(2) show ?thesis by auto
qed

lemma lookup_set_stored: "lookup_set z n qt qc a \<subseteq> abs_records a"
  by (auto simp: lookup_set_def)

lemma servable_recordsToRRs:
  assumes "servable E a" and "set rs \<subseteq> abs_records a"
  shows "\<exists>rrs. recordsToRRs E rs = Inr rrs"
  using assms(2)
proof (induction rs)
  case (Cons r rs)
  with assms(1) obtain rr where "record_RR E r = Inr (Some rr)" by (auto simp: servable_iff)
  with Cons show ?case by auto
qed simp

lemma rrs_of_set:
  assumes "rrs_of E A rrs"
  shows "set rrs = {rr. \<exists>r \<in> A. record_RR E r = Inr rr}"
proof -
  obtain rs where rs: "set rs = A" "list_all2 (\<lambda>r rr. record_RR E r = Inr rr) rs rrs"
    using assms by (auto simp: rrs_of_def enumerates_def)
  from rs(2) have "set rrs = {rr. \<exists>r \<in> set rs. record_RR E r = Inr rr}"
    by (induction rule: list_all2_induct) auto
  with rs(1) show ?thesis by simp
qed

lemma rrs_of_stored: "rrs_of E A rrs \<Longrightarrow> A \<subseteq> abs_records a \<Longrightarrow> set rrs \<subseteq> stored_rrs E a"
  by (auto simp: rrs_of_set stored_rrs_def)

lemma rrStrings_total: "None \<notin> set rrs \<Longrightarrow> \<exists>texts. rrStrings E rrs = Inr texts"
  by (induction E rrs rule: rrStrings.induct) auto

lemma addUnseen_total: "None \<notin> set rrs \<Longrightarrow> \<exists>extra seen'. addUnseen E seen rrs = Inr (extra, seen')"
  by (induction E seen rrs rule: addUnseen.induct) (fastforce simp: Let_def split: sum.split)+

lemma fqdnTrimmed_fqdnName: "plain s \<Longrightarrow> fqdnTrimmed E s = fqdnName E s"
  by (simp add: fqdnTrimmed_def fqdnName_def plain_def TrimSpace_ToLower)

lemma NormalizeLookup_fqdnName:
  assumes "names_pkg_ok E" and "normal_zone E z" and "plain s" and "IsSubDomain E z (fqdnName E s)"
  shows "NormalizeLookup E z (fqdnName E s) = Inr (z, fqdnName E s)"
  using assms by (simp add: NormalizeLookup_def normal_zoneD fqdnName_idem Let_def)

lemma normal_zone_lookup:
  assumes "names_pkg_ok E" and "normal_zone E z"
  shows "NormalizeLookup E z z = Inr (z, z)"
proof -
  have z: "plain z" "fqdnName E z = z" using assms(2) by (auto simp: normal_zone_def NormalizeZoneName_Inr)
  then have "dns_name z" using fqdnName_plain(1) [OF assms(1), of z] by simp
  then have "IsSubDomain E z z" using IsSubDomain_in_zone [OF assms(1), of z z] by (simp add: in_zone_def)
  with NormalizeLookup_fqdnName [OF assms z(1)] z(2) show ?thesis by simp
qed

text \<open>The address records of the names an answer points to.\<close>

definition glue ::
  "('rr, 'x) rr_pkg_scheme \<Rightarrow> abs_store \<Rightarrow> string \<Rightarrow> uint16 \<Rightarrow> 'rr option set \<Rightarrow> 'rr option set" where
  "glue E a z qc answer = {rr. \<exists>x \<in> answer. \<exists>r \<in> abs_records a.
     rec_Zone r = z \<and> rec_Name r = fqdnName E (additionalTarget E x) \<and>
     rec_Type r \<in> {TypeA, TypeAAAA} \<and> (qc = ClassANY \<or> rec_Class r = qc) \<and> record_RR E r = Inr rr}"

context rr_repository
begin

lemma lookup_rrs:
  assumes "invar s" and "servable E (content s)" and "NormalizeLookup E z n = Inr (z, n)"
  shows "\<exists>rs rrs. rsv_lookup R z n qt qc s = Inr rs \<and> recordsToRRs E rs = Inr rrs \<and>
    rrs_of E (lookup_set z n qt qc (content s)) rrs \<and> set rs = lookup_set z n qt qc (content s)"
proof -
  obtain rs where rs: "rsv_lookup R z n qt qc s = Inr rs" "sorted (map rec_Data rs)"
    "enumerates rs (lookup_set z n qt qc (content s))"
    using rsv_lookup_spec [OF assms(1,3)] by blast
  moreover obtain rrs where "recordsToRRs E rs = Inr rrs"
    using servable_recordsToRRs [OF assms(2), of rs] rs(3) lookup_set_stored by (auto simp: enumerates_def)
  ultimately show ?thesis by (auto simp: rrs_of_def recordsToRRs_Inr enumerates_def)
qed

lemma lookupAddressRRs_spec:
  assumes "invar s" and "servable E (content s)" and "NormalizeLookup E z t = Inr (z, t)"
  shows "\<exists>rrs. lookupAddressRRs E R z t qc s = Inr rrs \<and> set rrs = {rr. \<exists>r \<in> abs_records (content s).
     rec_Zone r = z \<and> rec_Name r = t \<and> rec_Type r \<in> {TypeA, TypeAAAA} \<and>
     (qc = ClassANY \<or> rec_Class r = qc) \<and> record_RR E r = Inr rr}"
proof -
  obtain rs4 rrs4 rs6 rrs6 where
    four: "rsv_lookup R z t TypeA qc s = Inr rs4" "recordsToRRs E rs4 = Inr rrs4"
      "set rs4 = lookup_set z t TypeA qc (content s)"
    and six: "rsv_lookup R z t TypeAAAA qc s = Inr rs6" "recordsToRRs E rs6 = Inr rrs6"
      "set rs6 = lookup_set z t TypeAAAA qc (content s)"
    using lookup_rrs [OF assms, of TypeA qc] lookup_rrs [OF assms, of TypeAAAA qc] by blast
  have all: "list_all2 (\<lambda>r rr. record_RR E r = Inr rr) (rs4 @ rs6) (rrs4 @ rrs6)"
    using four(2) six(2) by (simp add: recordsToRRs_Inr list_all2_appendI)
  then have "lookupAddressRRs E R z t qc s = Inr (rrs4 @ rrs6)"
    using list_all2_lengthD [OF all] by (auto simp: lookupAddressRRs_def four(1) six(1) Let_def recordsToRRs_Inr)
  moreover have "set (rrs4 @ rrs6) = {rr. \<exists>r \<in> set (rs4 @ rs6). record_RR E r = Inr rr}"
    using all by (induction rule: list_all2_induct) auto
  moreover have "set (rs4 @ rs6) = {r \<in> abs_records (content s). rec_Zone r = z \<and> rec_Name r = t \<and>
      rec_Type r \<in> {TypeA, TypeAAAA} \<and> (qc = ClassANY \<or> rec_Class r = qc)}"
    using four(3) six(3) by (auto simp: lookup_set_def)
  ultimately show ?thesis by auto
qed

end

lemma collectExtra_total:
  assumes "\<And>t. t \<in> set targets \<Longrightarrow> \<exists>rrs. lookupAddressRRs E repo zone t qclass s = Inr rrs \<and> None \<notin> set rrs"
  shows "\<exists>extra. collectExtra E repo zone qclass s seen targets = Inr extra"
  using assms
proof (induction targets arbitrary: seen)
  case (Cons t targets)
  then obtain rrs where rrs: "lookupAddressRRs E repo zone t qclass s = Inr rrs" "None \<notin> set rrs" by auto
  obtain extra seen' where added: "addUnseen E seen rrs = Inr (extra, seen')"
    using addUnseen_total [OF rrs(2)] by blast
  obtain rest where "collectExtra E repo zone qclass s seen' targets = Inr rest"
    using Cons.IH [of seen'] Cons.prems by auto
  with rrs(1) added show ?case by auto
qed simp

context rr_repository
begin

lemma target_lookup:
  assumes "invar s" and "normal_zone E z" and "plain (additionalTarget E x)"
    and "t = normalizeAdditionalTarget E (additionalTarget E x)" and "t \<noteq> []" and "IsSubDomain E z t"
  shows "t = fqdnName E (additionalTarget E x) \<and> NormalizeLookup E z t = Inr (z, t)"
proof -
  have "t = fqdnName E (additionalTarget E x)"
    using assms(3-5) by (auto simp: normalizeAdditionalTarget_def fqdnTrimmed_fqdnName Let_def)
  with NormalizeLookup_fqdnName [OF names_ok [OF assms(1)] assms(2,3)] assms(6) show ?thesis by simp
qed

lemma address_rrs_spec:
  assumes "invar s" and "servable E (content s)" and "NormalizeLookup E z t = Inr (z, t)"
  shows "address_rrs E R z qc s t = {rr. \<exists>r \<in> abs_records (content s).
     rec_Zone r = z \<and> rec_Name r = t \<and> rec_Type r \<in> {TypeA, TypeAAAA} \<and>
     (qc = ClassANY \<or> rec_Class r = qc) \<and> record_RR E r = Inr rr}"
  using lookupAddressRRs_spec [OF assms, of qc] by (auto simp: address_rrs_def)

lemma additionalRecords_total:
  assumes "set_pkg_ok OS" and "invar s" and "servable E (content s)" and "normal_zone E z"
    and "set answer \<subseteq> stored_rrs E (content s)"
  shows "\<exists>extra. additionalRecords E OS R z qc answer s = Inr extra"
proof -
  have answer: "rr \<noteq> None \<and> plain (additionalTarget E rr)" if "rr \<in> set answer" for rr
    using servable_rr [OF assms(3)] assms(5) that by auto
  then obtain seen where seen: "rrStrings E answer = Inr seen" using rrStrings_total [of answer E] by auto
  have "\<exists>rrs. lookupAddressRRs E R z t qc s = Inr rrs \<and> None \<notin> set rrs"
    if target: "t \<in> set (oset_Values OS (additionalTargets E OS z answer))" for t
  proof -
    obtain x where x: "x \<in> set answer" "t = normalizeAdditionalTarget E (additionalTarget E x)" "t \<noteq> []"
      "IsSubDomain E z t"
      using target unfolding set_additionalTargets [OF assms(1)] by blast
    then have "NormalizeLookup E z t = Inr (z, t)" using target_lookup [OF assms(2,4)] answer by blast
    from lookupAddressRRs_spec [OF assms(2,3) this, of qc] obtain rrs where
      rrs: "lookupAddressRRs E R z t qc s = Inr rrs" and set_rrs: "set rrs = {rr. \<exists>r \<in> abs_records (content s).
         rec_Zone r = z \<and> rec_Name r = t \<and> rec_Type r \<in> {TypeA, TypeAAAA} \<and>
         (qc = ClassANY \<or> rec_Class r = qc) \<and> record_RR E r = Inr rr}"
      by blast
    have "set rrs \<subseteq> stored_rrs E (content s)" unfolding set_rrs stored_rrs_def by blast
    with rrs servable_rr [OF assms(3)] show ?thesis by blast
  qed
  from collectExtra_total [OF this, where seen = seen] seen show ?thesis
    by (auto simp: additionalRecords_def Let_def)
qed

lemma additionalRecords_spec:
  assumes "set_pkg_ok OS" and "invar s" and "servable E (content s)" and "normal_zone E z"
    and "set answer \<subseteq> stored_rrs E (content s)"
  shows "\<exists>extra. additionalRecords E OS R z qc answer s = Inr extra \<and>
    extra_ok E (rr_text E ` set answer) extra (glue E (content s) z qc (set answer))"
proof -
  let ?targets = "{t. \<exists>rr \<in> set answer. t = normalizeAdditionalTarget E (additionalTarget E rr) \<and> t \<noteq> [] \<and> IsSubDomain E z t}"
  obtain extra where extra: "additionalRecords E OS R z qc answer s = Inr extra"
    using additionalRecords_total [OF assms] by blast
  have plain: "plain (additionalTarget E rr)" if "rr \<in> set answer" for rr
    using servable_rr [OF assms(3)] assms(5) that by auto
  have "(\<Union>t \<in> ?targets. address_rrs E R z qc s t) = glue E (content s) z qc (set answer)" (is "?L = ?R")
  proof (intro set_eqI iffI)
    fix rr assume "rr \<in> ?L"
    then obtain x t where x: "x \<in> set answer" "t = normalizeAdditionalTarget E (additionalTarget E x)" "t \<noteq> []"
      "IsSubDomain E z t" "rr \<in> address_rrs E R z qc s t" by blast
    have t: "t = fqdnName E (additionalTarget E x)" "NormalizeLookup E z t = Inr (z, t)"
      using target_lookup [OF assms(2,4) plain [OF x(1)] x(2-4)] by auto
    from x(5) [unfolded address_rrs_spec [OF assms(2,3) t(2)]] x(1) t(1) show "rr \<in> ?R"
      unfolding glue_def by blast
  next
    fix rr assume "rr \<in> ?R"
    then obtain x r where x: "x \<in> set answer" and r: "r \<in> abs_records (content s)" "rec_Zone r = z"
      "rec_Name r = fqdnName E (additionalTarget E x)" "rec_Type r \<in> {TypeA, TypeAAAA}"
      "qc = ClassANY \<or> rec_Class r = qc" "record_RR E r = Inr rr" by (auto simp: glue_def)
    let ?t = "rec_Name r"
    have "normal_record E r" using normal_stored [OF assms(2) r(1)] .
    from normal_recordD(9,11) [OF this] have in_z: "IsSubDomain E z ?t" "?t \<noteq> ''.''" by (simp_all add: r(2))
    moreover have "?t \<noteq> []"
      using fqdnName_not_Nil [OF names_ok [OF assms(2)] plain [OF x]] by (simp add: r(3))
    moreover have norm: "?t = normalizeAdditionalTarget E (additionalTarget E x)"
      using r(3) in_z(2) plain [OF x] by (simp add: normalizeAdditionalTarget_def fqdnTrimmed_fqdnName Let_def)
    ultimately have lookup: "NormalizeLookup E z ?t = Inr (z, ?t)" and target: "?t \<in> ?targets"
      using target_lookup [OF assms(2,4) plain [OF x] norm] x by blast+
    from r have "rr \<in> address_rrs E R z qc s ?t"
      unfolding address_rrs_spec [OF assms(2,3) lookup] by blast
    with target show "rr \<in> ?L" by blast
  qed
  with additionalRecords_ok [OF assms(1) extra] extra show ?thesis by auto
qed

lemma successResolution_spec:
  assumes "set_pkg_ok OS" and "invar s" and "servable E (content s)" and "normal_zone E z"
    and "set answer \<subseteq> stored_rrs E (content s)"
  shows "\<exists>res. successResolution E OS R z qc answer s = Inr res \<and> rsn_RCode res = RcodeSuccess \<and>
    rsn_Authoritative res \<and> rsn_Answer res = answer \<and> rsn_Authority res = [] \<and>
    extra_ok E (rr_text E ` set answer) (rsn_Extra res) (glue E (content s) z qc (set answer))"
  using additionalRecords_spec [OF assms, of qc] by (auto simp: successResolution_def)

lemma authoritySOA_total:
  assumes "invar s" and "servable E (content s)" and "normal_zone E z"
  shows "\<exists>rrs. authoritySOA E R z qc s = Inr rrs \<and> rrs_of E (lookup_set z z TypeSOA qc (content s)) rrs"
  using lookup_rrs [OF assms(1,2) normal_zone_lookup [OF names_ok [OF assms(1)] assms(3)], of TypeSOA qc]
  by (auto simp: authoritySOA_def)

lemma resolve_positive:
  assumes "set_pkg_ok OS" and "invar s" and "servable E (content s)" and "normal_zone E z"
    and n: "NormalizeLookup E z n = Inr (z, n)" and qc: "qc = ClassINET \<or> qc = ClassANY"
    and found: "lookup_set z n qt qc (content s) \<noteq> {}"
  shows "\<exists>res. resolveAuthoritative maxChain E OS R z n qt qc s = Inr res \<and> rsn_RCode res = RcodeSuccess \<and>
    rsn_Authoritative res \<and> rrs_of E (lookup_set z n qt qc (content s)) (rsn_Answer res) \<and> rsn_Authority res = [] \<and>
    extra_ok E (rr_text E ` set (rsn_Answer res)) (rsn_Extra res) (glue E (content s) z qc (set (rsn_Answer res)))"
proof (cases "qt = TypeANY")
  case True
  obtain rs where rs: "rsv_lookupAll R z n qc s = Inr rs" "sorted (map rec_Data rs)"
    "enumerates rs (lookup_set z n TypeANY qc (content s))"
    using rsv_lookupAll_spec [OF assms(2) n, of qc] by blast
  then obtain rrs where rrs: "recordsToRRs E rs = Inr rrs"
    using servable_recordsToRRs [OF assms(3), of rs] lookup_set_stored by (auto simp: enumerates_def)
  with rs have of: "rrs_of E (lookup_set z n TypeANY qc (content s)) rrs" by (auto simp: rrs_of_def recordsToRRs_Inr)
  have "rs \<noteq> []" using rs(3) found True by (auto simp: enumerates_def)
  with rs(1) rrs qc True have "resolveAuthoritative maxChain E OS R z n qt qc s = successResolution E OS R z qc rrs s"
    by (auto simp: resolveAuthoritative_def resolveAny_def)
  with successResolution_spec [OF assms(1-4) rrs_of_stored [OF of lookup_set_stored], of qc] of True
  show ?thesis by auto
next
  case False
  obtain rs rrs where rs: "rsv_lookup R z n qt qc s = Inr rs" "recordsToRRs E rs = Inr rrs"
    "rrs_of E (lookup_set z n qt qc (content s)) rrs" "set rs = lookup_set z n qt qc (content s)"
    using lookup_rrs [OF assms(2,3) n, of qt qc] by blast
  obtain res where res: "successResolution E OS R z qc rrs s = Inr res" and ok: "rsn_RCode res = RcodeSuccess"
    "rsn_Authoritative res" "rsn_Answer res = rrs" "rsn_Authority res = []"
    "extra_ok E (rr_text E ` set rrs) (rsn_Extra res) (glue E (content s) z qc (set rrs))"
    using successResolution_spec [OF assms(1-4) rrs_of_stored [OF rs(3) lookup_set_stored], of qc] by blast
  have "rs \<noteq> []" using rs(4) found by auto
  with rs(1,2) res qc False have "resolveAuthoritative maxChain E OS R z n qt qc s = Inr res"
    by (auto simp: resolveAuthoritative_def resolveExact_def)
  with ok rs(3) show ?thesis by auto
qed

end

section \<open>CNAME chains, from the content\<close>

text \<open>
  \<open>cs\<close> are the CNAME records by which one comes from the name \<open>n\<close> to the name \<open>m\<close> inside the zone, with
  no records of the type in question at the names on the way.
\<close>

fun cname_path ::
  "'x names_pkg_scheme \<Rightarrow> abs_store \<Rightarrow> string \<Rightarrow> uint16 \<Rightarrow> uint16 \<Rightarrow> string \<Rightarrow> Record list \<Rightarrow> string \<Rightarrow> bool" where
  "cname_path E a z qt qc n [] m \<longleftrightarrow> n = m"
| "cname_path E a z qt qc n (c # cs) m \<longleftrightarrow>
     lookup_set z n TypeCNAME qc a = {c} \<and> IsSubDomain E z (CNAME E c) \<and>
     lookup_set z (CNAME E c) qt qc a = {} \<and> cname_path E a z qt qc (CNAME E c) cs m"

lemma enumerates_single:
  assumes "enumerates xs {c}" shows "xs = [c]"
proof -
  have "length xs = 1" using assms distinct_card [of xs] by (simp add: enumerates_def)
  then obtain x where "xs = [x]" by (cases xs) auto
  with assms show ?thesis by (simp add: enumerates_def)
qed

lemma lookup_CNAME_target:
  assumes "lookup_set z n TypeCNAME qc a = {c}"
  shows "c \<in> abs_records a" and "rec_Type c = TypeCNAME"
  using assms by (auto simp: lookup_set_def)

context rr_repository
begin

lemma CNAME_lookup:
  assumes "invar s" and "servable E (content s)" and "normal_zone E z"
    and "lookup_set z n TypeCNAME qc (content s) = {c}" and "IsSubDomain E z (CNAME E c)"
  shows "NormalizeLookup E z (CNAME E c) = Inr (z, CNAME E c)" and "CNAME E c \<noteq> []"
proof -
  note c = lookup_CNAME_target [OF assms(4)]
  with assms(2) have p: "plain (rec_Data c)" by (auto simp: servable_iff)
  have eq: "CNAME E c = fqdnName E (rec_Data c)" using c(2) by (simp add: CNAME_def)
  show "NormalizeLookup E z (CNAME E c) = Inr (z, CNAME E c)"
    using NormalizeLookup_fqdnName [OF names_ok [OF assms(1)] assms(3) p] assms(5) by (simp add: eq)
  show "CNAME E c \<noteq> []" using fqdnName_not_Nil [OF names_ok [OF assms(1)] p] by (simp add: eq)
qed

text \<open>One step of the loop, at a name with one CNAME record and at a name with none.\<close>

lemma nextCNAMEStep_none:
  assumes "invar s" and "NormalizeLookup E z n = Inr (z, n)" and "lookup_set z n TypeCNAME qc (content s) = {}"
  shows "nextCNAMEStep E R z n qt qc s = Inr \<lparr>cs_found = False, cs_done = False, cs_target = [], cs_answer = []\<rparr>"
  using rsv_lookup_spec [OF assms(1,2), of TypeCNAME qc] assms(3)
  by (auto simp: nextCNAMEStep_def enumerates_def)

lemma nextCNAMEStep_one:
  assumes "invar s" and "servable E (content s)" and "normal_zone E z" and "NormalizeLookup E z n = Inr (z, n)"
    and one: "lookup_set z n TypeCNAME qc (content s) = {c}" and qt: "qt \<noteq> TypeCNAME"
    and rr: "record_RR E c = Inr rr"
  shows "if IsSubDomain E z (CNAME E c)
    then \<exists>rrs. rrs_of E (lookup_set z (CNAME E c) qt qc (content s)) rrs \<and>
      nextCNAMEStep E R z n qt qc s = Inr
       (if rrs \<noteq> [] then \<lparr>cs_found = True, cs_done = True, cs_target = [], cs_answer = rr # rrs\<rparr>
        else \<lparr>cs_found = True, cs_done = False, cs_target = CNAME E c, cs_answer = [rr]\<rparr>)
    else nextCNAMEStep E R z n qt qc s = Inr \<lparr>cs_found = True, cs_done = True, cs_target = [], cs_answer = [rr]\<rparr>"
proof -
  obtain rs where rs: "rsv_lookup R z n TypeCNAME qc s = Inr rs" "enumerates rs {c}"
    using rsv_lookup_spec [OF assms(1,4), of TypeCNAME qc] one by auto
  then have rs_c: "rs = [c]" by (simp add: enumerates_single)
  show ?thesis
  proof (cases "IsSubDomain E z (CNAME E c)")
    case True
    note target = CNAME_lookup [OF assms(1-3) one True]
    obtain rs' rrs where target_rs: "rsv_lookup R z (CNAME E c) qt qc s = Inr rs'" "recordsToRRs E rs' = Inr rrs"
      "rrs_of E (lookup_set z (CNAME E c) qt qc (content s)) rrs"
      using lookup_rrs [OF assms(1,2) target(1), of qt qc] by blast
    have "lookupTargetAnswer E R z (CNAME E c) qt qc s = Inr rrs"
      using target_rs(1,2) by (auto simp: lookupTargetAnswer_def)
    with rs(1) rs_c rr qt True target(2) have "nextCNAMEStep E R z n qt qc s = Inr
       (if rrs \<noteq> [] then \<lparr>cs_found = True, cs_done = True, cs_target = [], cs_answer = rr # rrs\<rparr>
        else \<lparr>cs_found = True, cs_done = False, cs_target = CNAME E c, cs_answer = [rr]\<rparr>)"
      by (auto simp: nextCNAMEStep_def Let_def)
    with target_rs(3) True show ?thesis by auto
  next
    case False
    with rs(1) rs_c rr show ?thesis by (simp add: nextCNAMEStep_def Let_def)
  qed
qed

text \<open>The loop walks along a path of names it has not seen.\<close>

lemma cnameLoop_path:
  assumes "invar s" and "servable E (content s)" and "normal_zone E z" and qt: "qt \<noteq> TypeCNAME"
    and "NormalizeLookup E z n = Inr (z, n)" and "cname_path E (content s) z qt qc n cs m"
    and "distinct (map (CNAME E) cs)" and "CNAME E ` set cs \<inter> set visited = {}"
    and "recordsToRRs E cs = Inr rrs"
  shows "cnameLoop (length cs + k) E OS R z name qt qc s n visited answer =
      cnameLoop k E OS R z name qt qc s m (rev (map (CNAME E) cs) @ visited) (answer @ rrs) \<and>
    NormalizeLookup E z m = Inr (z, m)"
  using assms(5-)
proof (induction cs arbitrary: n visited answer rrs)
  case (Cons c cs)
  let ?t = "CNAME E c"
  from Cons.prems have one: "lookup_set z n TypeCNAME qc (content s) = {c}" and sub: "IsSubDomain E z ?t"
    and none: "lookup_set z ?t qt qc (content s) = {}" and path: "cname_path E (content s) z qt qc ?t cs m" by simp_all
  obtain rr rrs' where rr: "record_RR E c = Inr rr" "recordsToRRs E cs = Inr rrs'" "rrs = rr # rrs'"
    using Cons.prems(5) by (auto split: sum.splits)
  have step: "nextCNAMEStep E R z n qt qc s =
      Inr \<lparr>cs_found = True, cs_done = False, cs_target = ?t, cs_answer = [rr]\<rparr>"
    using nextCNAMEStep_one [OF assms(1-3) Cons.prems(1) one qt rr(1)] sub none rrs_of_Nil [where E = E] by auto
  have unseen: "?t \<notin> set visited" using Cons.prems(4) by auto
  have "cnameLoop (length cs + k) E OS R z name qt qc s ?t (?t # visited) (answer @ [rr]) =
      cnameLoop k E OS R z name qt qc s m (rev (map (CNAME E) cs) @ ?t # visited) ((answer @ [rr]) @ rrs') \<and>
      NormalizeLookup E z m = Inr (z, m)"
    using Cons.prems by (intro Cons.IH CNAME_lookup(1) [OF assms(1-3) one sub] path rr(2)) auto
  with step unseen show ?case by (simp add: rr(3))
qed simp

end

lemma cname_path_stored: "cname_path E a z qt qc n cs m \<Longrightarrow> set cs \<subseteq> abs_records a"
  by (induction cs arbitrary: n) (auto dest: lookup_CNAME_target)

lemma recordsToRRs_append:
  "recordsToRRs E (rs @ rs') = Inr rrs \<longleftrightarrow>
     (\<exists>us vs. recordsToRRs E rs = Inr us \<and> recordsToRRs E rs' = Inr vs \<and> rrs = us @ vs)"
  by (simp add: recordsToRRs_Inr list_all2_append1) (metis list_all2_lengthD)

lemma recordsToRRs_stored: "recordsToRRs E rs = Inr rrs \<Longrightarrow> set rs \<subseteq> abs_records a \<Longrightarrow> set rrs \<subseteq> stored_rrs E a"
  unfolding recordsToRRs_Inr stored_rrs_def
  by (induction rule: list_all2_induct) auto

context rr_repository
begin

lemma resolve_cname:
  assumes "invar s" and "NormalizeLookup E z n = Inr (z, n)" and "qc = ClassINET \<or> qc = ClassANY"
    and "qt \<noteq> TypeANY" and "lookup_set z n qt qc (content s) = {}"
  shows "resolveAuthoritative maxChain E OS R z n qt qc s = cnameLoop maxChain E OS R z n qt qc s n [n] []"
  using rsv_lookup_spec [OF assms(1,2), of qt qc] assms(3-)
  by (auto simp: resolveAuthoritative_def resolveExact_def resolveCNAMEChain_def enumerates_def)

lemma resolve_negative:
  assumes "invar s" and "servable E (content s)" and "normal_zone E z"
    and n: "NormalizeLookup E z n = Inr (z, n)" and qc: "qc = ClassINET \<or> qc = ClassANY"
    and none: "lookup_set z n qt qc (content s) = {}" and no_cname: "lookup_set z n TypeCNAME qc (content s) = {}"
    and "0 < maxChain"
  shows "\<exists>res. resolveAuthoritative maxChain E OS R z n qt qc s = Inr res \<and>
    rsn_RCode res = (if lookup_set z n TypeANY qc (content s) = {} then RcodeNameError else RcodeSuccess) \<and>
    rsn_Answer res = [] \<and> rsn_Extra res = [] \<and> rsn_Authoritative res \<and>
    rrs_of E (lookup_set z z TypeSOA qc (content s)) (rsn_Authority res)"
proof -
  have "resolveAuthoritative maxChain E OS R z n qt qc s = negativeResponse E R z n qc s"
  proof (cases "qt = TypeANY")
    case True
    then show ?thesis using rsv_lookupAll_spec [OF assms(1) n, of qc] none qc
      by (auto simp: resolveAuthoritative_def resolveAny_def enumerates_def)
  next
    case False
    obtain k where "maxChain = Suc k" using assms(8) by (cases maxChain) auto
    then show ?thesis using nextCNAMEStep_none [OF assms(1) n no_cname]
      by (simp add: resolve_cname [OF assms(1) n qc False none] emptyCNAMEStepResponse_def)
  qed
  moreover obtain res where res: "negativeResponse E R z n qc s = Inr res"
    using authoritySOA_total [OF assms(1-3), of qc] rsv_lookupAll_spec [OF assms(1) n, of qc]
    by (auto simp: negativeResponse_def Let_def)
  ultimately show ?thesis
    using negativeResponse_spec [OF assms(1) normal_zone_lookup [OF names_ok [OF assms(1)] assms(3)] n res] by auto
qed

text \<open>The state of the loop after a path: what is left of the bound, the names seen and the answer so far.\<close>

lemma resolve_path:
  assumes "invar s" and "servable E (content s)" and "normal_zone E z"
    and n: "NormalizeLookup E z n = Inr (z, n)" and qc: "qc = ClassINET \<or> qc = ClassANY"
    and none: "lookup_set z n qt qc (content s) = {}" and some: "lookup_set z n TypeCNAME qc (content s) \<noteq> {}"
    and path: "cname_path E (content s) z qt qc n cs m" and fresh: "distinct (n # map (CNAME E) cs)"
  obtains rrs where "recordsToRRs E cs = Inr rrs" and "NormalizeLookup E z m = Inr (z, m)" and "qt \<noteq> TypeCNAME"
    and "\<And>k. resolveAuthoritative (length cs + k) E OS R z n qt qc s =
      cnameLoop k E OS R z n qt qc s m (rev (n # map (CNAME E) cs)) rrs"
proof -
  have qt: "qt \<noteq> TypeCNAME" "qt \<noteq> TypeANY" using none some by (auto simp: lookup_set_def)
  obtain rrs where rrs: "recordsToRRs E cs = Inr rrs"
    using servable_recordsToRRs [OF assms(2) cname_path_stored [OF path]] by blast
  have "CNAME E ` set cs \<inter> set [n] = {}" using fresh by auto
  note walk = cnameLoop_path [OF assms(1-3) qt(1) n path _ this rrs, where name = n and answer = "[]" and OS = OS]
  with fresh qt rrs show thesis
    by (intro that [of rrs]) (auto simp: resolve_cname [OF assms(1) n qc qt(2) none])
qed

lemma resolve_chain_data:
  assumes "set_pkg_ok OS" and "invar s" and "servable E (content s)" and "normal_zone E z"
    and n: "NormalizeLookup E z n = Inr (z, n)" and qc: "qc = ClassINET \<or> qc = ClassANY"
    and none: "lookup_set z n qt qc (content s) = {}"
    and path: "cname_path E (content s) z qt qc n cs m" and fresh: "distinct (n # map (CNAME E) cs)"
    and one: "lookup_set z m TypeCNAME qc (content s) = {c}" and bound: "length cs < maxChain"
    and out: "IsSubDomain E z (CNAME E c) \<Longrightarrow> lookup_set z (CNAME E c) qt qc (content s) \<noteq> {}"
  shows "\<exists>res crrs drrs. resolveAuthoritative maxChain E OS R z n qt qc s = Inr res \<and> rsn_RCode res = RcodeSuccess \<and>
    rsn_Authoritative res \<and> rsn_Answer res = crrs @ drrs \<and> recordsToRRs E (cs @ [c]) = Inr crrs \<and>
    rrs_of E (if IsSubDomain E z (CNAME E c) then lookup_set z (CNAME E c) qt qc (content s) else {}) drrs \<and>
    rsn_Authority res = [] \<and>
    extra_ok E (rr_text E ` set (rsn_Answer res)) (rsn_Extra res) (glue E (content s) z qc (set (rsn_Answer res)))"
proof -
  have some: "lookup_set z n TypeCNAME qc (content s) \<noteq> {}" using path one by (cases cs) auto
  obtain rrs where rrs: "recordsToRRs E cs = Inr rrs" "NormalizeLookup E z m = Inr (z, m)" "qt \<noteq> TypeCNAME"
    and loop: "\<And>k. resolveAuthoritative (length cs + k) E OS R z n qt qc s =
      cnameLoop k E OS R z n qt qc s m (rev (n # map (CNAME E) cs)) rrs"
    using resolve_path [OF assms(2-4) n qc none some path fresh, where OS = OS] by blast
  note stored = lookup_CNAME_target(1) [OF one]
  obtain k where k: "maxChain = length cs + Suc k" using bound less_iff_Suc_add by auto
  obtain rr where rr: "record_RR E c = Inr (Some rr)" using stored assms(3) by (auto simp: servable_iff)
  note step = nextCNAMEStep_one [OF assms(2-4) rrs(2) one rrs(3) rr]
  define D where "D = (if IsSubDomain E z (CNAME E c) then lookup_set z (CNAME E c) qt qc (content s) else {})"
  have "\<exists>drrs. rrs_of E D drrs \<and>
      nextCNAMEStep E R z m qt qc s = Inr \<lparr>cs_found = True, cs_done = True, cs_target = [], cs_answer = Some rr # drrs\<rparr>"
  proof (cases "IsSubDomain E z (CNAME E c)")
    case True
    with step out rrs_of_Nil [where E = E] show ?thesis by (fastforce simp: D_def)
  next
    case False
    moreover have "rrs_of E {} []" by (auto simp: rrs_of_def enumerates_def)
    ultimately show ?thesis using step by (auto simp: D_def)
  qed
  then obtain drrs where drrs: "rrs_of E D drrs" and next_step: "nextCNAMEStep E R z m qt qc s =
      Inr \<lparr>cs_found = True, cs_done = True, cs_target = [], cs_answer = Some rr # drrs\<rparr>" by blast
  have answer: "resolveAuthoritative maxChain E OS R z n qt qc s =
      successResolution E OS R z qc ((rrs @ [Some rr]) @ drrs) s"
    unfolding k loop by (simp add: next_step)
  have crrs: "recordsToRRs E (cs @ [c]) = Inr (rrs @ [Some rr])" by (simp add: recordsToRRs_append rrs(1) rr)
  have "D \<subseteq> abs_records (content s)" using lookup_set_stored by (auto simp: D_def)
  then have "set ((rrs @ [Some rr]) @ drrs) \<subseteq> stored_rrs E (content s)"
    using recordsToRRs_stored [OF crrs] cname_path_stored [OF path] stored rrs_of_stored [OF drrs] by auto
  from successResolution_spec [OF assms(1-4) this, of qc] answer crrs drrs show ?thesis unfolding D_def by force
qed

lemma resolve_chain_nodata:
  assumes "set_pkg_ok OS" and "invar s" and "servable E (content s)" and "normal_zone E z"
    and n: "NormalizeLookup E z n = Inr (z, n)" and qc: "qc = ClassINET \<or> qc = ClassANY"
    and none: "lookup_set z n qt qc (content s) = {}"
    and path: "cname_path E (content s) z qt qc n cs m" and fresh: "distinct (n # map (CNAME E) cs)"
    and "cs \<noteq> []" and no_cname: "lookup_set z m TypeCNAME qc (content s) = {}" and bound: "length cs < maxChain"
  shows "\<exists>res. resolveAuthoritative maxChain E OS R z n qt qc s = Inr res \<and> rsn_RCode res = RcodeSuccess \<and>
    rsn_Authoritative res \<and> recordsToRRs E cs = Inr (rsn_Answer res) \<and>
    rrs_of E (lookup_set z z TypeSOA qc (content s)) (rsn_Authority res) \<and>
    extra_ok E (rr_text E ` set (rsn_Answer res)) (rsn_Extra res) (glue E (content s) z qc (set (rsn_Answer res)))"
proof -
  have some: "lookup_set z n TypeCNAME qc (content s) \<noteq> {}" using path assms(10) by (cases cs) auto
  have m: "m = CNAME E (last cs)" using path assms(10) by (induction cs arbitrary: n) (auto split: if_splits)
  then have "m \<noteq> n" using fresh assms(10) by auto
  obtain rrs where rrs: "recordsToRRs E cs = Inr rrs" "NormalizeLookup E z m = Inr (z, m)"
    and loop: "\<And>k. resolveAuthoritative (length cs + k) E OS R z n qt qc s =
      cnameLoop k E OS R z n qt qc s m (rev (n # map (CNAME E) cs)) rrs"
    using resolve_path [OF assms(2-4) n qc none some path fresh, where OS = OS] by blast
  obtain k where k: "maxChain = length cs + Suc k" using bound less_iff_Suc_add by auto
  have "resolveAuthoritative maxChain E OS R z n qt qc s = cnameTerminalNoDataResponse E OS R z qc rrs s"
    using nextCNAMEStep_none [OF assms(2) rrs(2) no_cname] \<open>m \<noteq> n\<close>
    unfolding k loop by (simp add: emptyCNAMEStepResponse_def)
  with authoritySOA_total [OF assms(2-4), of qc] rrs(1)
    additionalRecords_spec [OF assms(1-4) recordsToRRs_stored [OF rrs(1) cname_path_stored [OF path]], of qc]
  show ?thesis by (auto simp: cnameTerminalNoDataResponse_def)
qed

lemma resolve_chain_fails:
  assumes "invar s" and "servable E (content s)" and "normal_zone E z"
    and n: "NormalizeLookup E z n = Inr (z, n)" and qc: "qc = ClassINET \<or> qc = ClassANY"
    and none: "lookup_set z n qt qc (content s) = {}"
    and path: "cname_path E (content s) z qt qc n (cs @ [c]) m" and fresh: "distinct (n # map (CNAME E) cs)"
    and bad: "length cs + 1 = maxChain \<or> (length cs < maxChain \<and> m \<in> set (n # map (CNAME E) cs))"
  shows "resolveAuthoritative maxChain E OS R z n qt qc s = Inr serverFailureResolution"
proof -
  have split: "cname_path E a z qt qc n (cs @ [c]) m \<longleftrightarrow> (\<exists>m'. cname_path E a z qt qc n cs m' \<and>
      cname_path E a z qt qc m' [c] m)" for a n by (induction cs arbitrary: n) auto
  with path obtain m' where path': "cname_path E (content s) z qt qc n cs m'" and last: "cname_path E (content s) z qt qc m' [c] m"
    by blast
  from last have one: "lookup_set z m' TypeCNAME qc (content s) = {c}" and sub: "IsSubDomain E z (CNAME E c)"
    and empty: "lookup_set z (CNAME E c) qt qc (content s) = {}" and m: "m = CNAME E c" by auto
  have some: "lookup_set z n TypeCNAME qc (content s) \<noteq> {}" using path' one by (cases cs) auto
  obtain rrs where rrs: "NormalizeLookup E z m' = Inr (z, m')" "qt \<noteq> TypeCNAME"
    and loop: "\<And>k. resolveAuthoritative (length cs + k) E OS R z n qt qc s =
      cnameLoop k E OS R z n qt qc s m' (rev (n # map (CNAME E) cs)) rrs"
    using resolve_path [OF assms(1-3) n qc none some path' fresh, where OS = OS] by blast
  obtain rr where rr: "record_RR E c = Inr (Some rr)"
    using lookup_CNAME_target(1) [OF one] assms(2) by (auto simp: servable_iff)
  have step: "nextCNAMEStep E R z m' qt qc s =
      Inr \<lparr>cs_found = True, cs_done = False, cs_target = CNAME E c, cs_answer = [Some rr]\<rparr>"
    using nextCNAMEStep_one [OF assms(1-3) rrs(1) one rrs(2) rr] sub empty rrs_of_Nil [where E = E] by auto
  have "length cs < maxChain" using bad by auto
  then obtain k where k: "maxChain = length cs + Suc k" using less_iff_Suc_add by auto
  show ?thesis
  proof (cases "m \<in> set (n # map (CNAME E) cs)")
    case True
    then show ?thesis unfolding k loop by (simp add: step m)
  next
    case False
    then have "k = 0" using bad k by auto
    with False show ?thesis unfolding k loop by (simp add: step m)
  qed
qed

end

interpretation mem_rr: rr_repository E "memory_repo E M" "mem_inv E M" "mem_content M" for E M
  by unfold_locales

section \<open>Properties\<close>

text \<open>
  C13: When the store has records for the question, the answer section holds the resource records of
  exactly those, in the order of their data, the response is authoritative and successful, and
  the additional section holds the address records of the names the answer points to: all that the
  zone has and the answer does not, none twice.
\<close>

theorem resolveAuthoritative_answers_stored:
  assumes "mem_inv E M s" and "set_pkg_ok OS" and "servable E (mem_content M s)" and "normal_zone E z"
    and "NormalizeLookup E z n = Inr (z, n)" and "qclass = ClassINET \<or> qclass = ClassANY"
    and "lookup_set z n qtype qclass (mem_content M s) \<noteq> {}"
  shows "\<exists>res. resolveAuthoritative maxCNAMEChain E OS (memory_repo E M) z n qtype qclass s = Inr res \<and>
    rsn_RCode res = RcodeSuccess \<and> rsn_Authoritative res \<and>
    rrs_of E (lookup_set z n qtype qclass (mem_content M s)) (rsn_Answer res) \<and> rsn_Authority res = [] \<and>
    extra_ok E (rr_text E ` set (rsn_Answer res)) (rsn_Extra res)
      (glue E (mem_content M s) z qclass (set (rsn_Answer res)))"
  by (rule mem_rr.resolve_positive [OF assms(2,1,3-7)])

text \<open>
  C21: When the store has neither a record for the question nor a CNAME record at its name, the
  answer is empty, the authority section holds the SOA record of the zone, and the response is
  NXDOMAIN if the store has no record at all at the name, and NOERROR if it has.
\<close>

theorem resolveAuthoritative_negative:
  assumes "mem_inv E M s" and "servable E (mem_content M s)" and "normal_zone E z"
    and "NormalizeLookup E z n = Inr (z, n)" and "qclass = ClassINET \<or> qclass = ClassANY"
    and "lookup_set z n qtype qclass (mem_content M s) = {}"
    and "lookup_set z n TypeCNAME qclass (mem_content M s) = {}" and "0 < maxCNAMEChain"
  shows "\<exists>res. resolveAuthoritative maxCNAMEChain E OS (memory_repo E M) z n qtype qclass s = Inr res \<and>
    rsn_RCode res = (if lookup_set z n TypeANY qclass (mem_content M s) = {} then RcodeNameError else RcodeSuccess) \<and>
    rsn_Answer res = [] \<and> rsn_Extra res = [] \<and> rsn_Authoritative res \<and>
    rrs_of E (lookup_set z z TypeSOA qclass (mem_content M s)) (rsn_Authority res)"
  by (rule mem_rr.resolve_negative [OF assms])

text \<open>
  C14: A question for a name from which CNAME records lead through the zone, within the bound and
  without meeting a name twice, is answered with those records in order, followed by the
  records of the type in question at the last name, or by nothing when the last record points out
  of the zone.
\<close>

theorem resolveAuthoritative_follows_CNAMEs:
  assumes "mem_inv E M s" and "set_pkg_ok OS" and "servable E (mem_content M s)" and "normal_zone E z"
    and "NormalizeLookup E z n = Inr (z, n)" and "qclass = ClassINET \<or> qclass = ClassANY"
    and "lookup_set z n qtype qclass (mem_content M s) = {}"
    and "cname_path E (mem_content M s) z qtype qclass n cs m" and "distinct (n # map (CNAME E) cs)"
    and "lookup_set z m TypeCNAME qclass (mem_content M s) = {c}" and "length cs < maxCNAMEChain"
    and "IsSubDomain E z (CNAME E c) \<Longrightarrow> lookup_set z (CNAME E c) qtype qclass (mem_content M s) \<noteq> {}"
  shows "\<exists>res crrs drrs. resolveAuthoritative maxCNAMEChain E OS (memory_repo E M) z n qtype qclass s = Inr res \<and>
    rsn_RCode res = RcodeSuccess \<and> rsn_Authoritative res \<and>
    rsn_Answer res = crrs @ drrs \<and> recordsToRRs E (cs @ [c]) = Inr crrs \<and>
    rrs_of E (if IsSubDomain E z (CNAME E c) then lookup_set z (CNAME E c) qtype qclass (mem_content M s) else {}) drrs \<and>
    rsn_Authority res = [] \<and>
    extra_ok E (rr_text E ` set (rsn_Answer res)) (rsn_Extra res)
      (glue E (mem_content M s) z qclass (set (rsn_Answer res)))"
  by (rule mem_rr.resolve_chain_data [OF assms(2,1,3-12)])

text \<open>
  When such a chain ends at a name that has neither a CNAME record nor a record of the type in
  question, the CNAME records are the answer and the SOA record of the zone says that there is no data.
\<close>

theorem resolveAuthoritative_CNAME_no_data:
  assumes "mem_inv E M s" and "set_pkg_ok OS" and "servable E (mem_content M s)" and "normal_zone E z"
    and "NormalizeLookup E z n = Inr (z, n)" and "qclass = ClassINET \<or> qclass = ClassANY"
    and "lookup_set z n qtype qclass (mem_content M s) = {}"
    and "cname_path E (mem_content M s) z qtype qclass n cs m" and "distinct (n # map (CNAME E) cs)"
    and "cs \<noteq> []" and "lookup_set z m TypeCNAME qclass (mem_content M s) = {}" and "length cs < maxCNAMEChain"
  shows "\<exists>res. resolveAuthoritative maxCNAMEChain E OS (memory_repo E M) z n qtype qclass s = Inr res \<and>
    rsn_RCode res = RcodeSuccess \<and> rsn_Authoritative res \<and> recordsToRRs E cs = Inr (rsn_Answer res) \<and>
    rrs_of E (lookup_set z z TypeSOA qclass (mem_content M s)) (rsn_Authority res) \<and>
    extra_ok E (rr_text E ` set (rsn_Answer res)) (rsn_Extra res)
      (glue E (mem_content M s) z qclass (set (rsn_Answer res)))"
  by (rule mem_rr.resolve_chain_nodata [OF assms(2,1,3-12)])


section \<open>A zone to evaluate the properties on\<close>

definition org :: "string \<Rightarrow> uint16 \<Rightarrow> string \<Rightarrow> Record" where
  "org host t d = \<lparr>rec_Zone = ''example.org.'', rec_Name = host @ ''example.org.'', rec_TTL = 300,
     rec_Class = ClassINET, rec_Type = t, rec_Data = d\<rparr>"

definition web_writes :: "store_write list" where
  "web_writes = map WriteSaveRecord
     [org '''' TypeSOA ''ns.example.org. admin.example.org. 1 2 3 4 5'', org '''' TypeNS ''ns.example.org.'',
      org ''ns.'' TypeA ''192.0.2.2'', org ''www.'' TypeCNAME ''web.example.org.'', org ''web.'' TypeA ''192.0.2.1'',
      org ''shop.'' TypeCNAME ''www.example.org.'', org ''x.'' TypeCNAME ''y.example.org.'',
      org ''y.'' TypeCNAME ''x.example.org.'', org ''v6.'' TypeCNAME ''ns.example.org.'']"

definition web_store where
  "web_store = run_writes (repo_write (memory_repo rr_ref mapping_ref)) web_writes (NewMemoryStore mapping_ref)"

lemma web_writes_plain: "list_all plain_write web_writes"
  by code_simp

lemma web_store_inv: "mem_inv rr_ref mapping_ref web_store"
  using mem_history(1) [OF names_pkg_ok_rr_ref mapping_ref_ok web_writes_plain] by (simp add: web_store_def)

definition web_content :: abs_store where
  "web_content = run_writes (spec_write rr_ref) web_writes \<lparr>abs_zones = {}, abs_records = {}\<rparr>"

lemma web_store_content: "mem_content mapping_ref web_store = web_content"
  using mem_history(2) [OF names_pkg_ok_rr_ref mapping_ref_ok web_writes_plain]
  by (simp add: web_store_def web_content_def)

lemma web_servable: "servable rr_ref web_content"
  by code_simp

lemma web_zone: "normal_zone rr_ref ''example.org.''"
  by code_simp

lemmas web_store_facts = web_store_inv web_servable [folded web_store_content] web_zone

text \<open>The NS question at the apex: the name server's address goes along.\<close>

theorem resolveAuthoritative_answers_stored_witness:
  "\<exists>res. resolveAuthoritative 8 rr_ref set_ref (memory_repo rr_ref mapping_ref) ''example.org.'' ''example.org.''
      TypeNS ClassINET web_store = Inr res \<and>
    rrs_of rr_ref {org '''' TypeNS ''ns.example.org.''} (rsn_Answer res) \<and>
    extra_ok rr_ref (rr_text rr_ref ` set (rsn_Answer res)) (rsn_Extra res)
      (glue rr_ref web_content ''example.org.'' ClassINET (set (rsn_Answer res)))"
proof -
  have "NormalizeLookup rr_ref ''example.org.'' ''example.org.'' = Inr (''example.org.'', ''example.org.'')"
    and ns: "lookup_set ''example.org.'' ''example.org.'' TypeNS ClassINET web_content = {org '''' TypeNS ''ns.example.org.''}"
    by code_simp+
  then show ?thesis
    using resolveAuthoritative_answers_stored [OF web_store_facts(1) set_ref_ok web_store_facts(2,3), of "''example.org.''"
        ClassINET TypeNS 8] by (auto simp: web_store_content)
qed

theorem resolveAuthoritative_negative_witness:
  "\<exists>res. resolveAuthoritative 8 rr_ref set_ref (memory_repo rr_ref mapping_ref) ''example.org.'' ''no.example.org.''
      TypeA ClassINET web_store = Inr res \<and> rsn_RCode res = RcodeNameError \<and>
    rrs_of rr_ref {org '''' TypeSOA ''ns.example.org. admin.example.org. 1 2 3 4 5''} (rsn_Authority res)"
proof -
  have "NormalizeLookup rr_ref ''example.org.'' ''no.example.org.'' = Inr (''example.org.'', ''no.example.org.'')"
    and "lookup_set ''example.org.'' ''no.example.org.'' TypeA ClassINET web_content = {}"
    and "lookup_set ''example.org.'' ''no.example.org.'' TypeCNAME ClassINET web_content = {}"
    and "lookup_set ''example.org.'' ''no.example.org.'' TypeANY ClassINET web_content = {}"
    and "lookup_set ''example.org.'' ''example.org.'' TypeSOA ClassINET web_content =
      {org '''' TypeSOA ''ns.example.org. admin.example.org. 1 2 3 4 5''}"
    by code_simp+
  then show ?thesis
    using resolveAuthoritative_negative [OF web_store_facts, of "''no.example.org.''" ClassINET TypeA 8 set_ref]
    by (auto simp: web_store_content)
qed

text \<open>Two CNAME records lead from shop to the address of web.\<close>

theorem resolveAuthoritative_follows_CNAMEs_witness:
  "\<exists>res crrs drrs. resolveAuthoritative 8 rr_ref set_ref (memory_repo rr_ref mapping_ref) ''example.org.'' ''shop.example.org.''
      TypeA ClassINET web_store = Inr res \<and> rsn_Answer res = crrs @ drrs \<and>
    recordsToRRs rr_ref [org ''shop.'' TypeCNAME ''www.example.org.'', org ''www.'' TypeCNAME ''web.example.org.''] = Inr crrs \<and>
    rrs_of rr_ref {org ''web.'' TypeA ''192.0.2.1''} drrs"
proof -
  let ?look = "\<lambda>n t. lookup_set ''example.org.'' n t ClassINET web_content"
  have facts: "NormalizeLookup rr_ref ''example.org.'' ''shop.example.org.'' = Inr (''example.org.'', ''shop.example.org.'')"
    "?look ''shop.example.org.'' TypeA = {}" "?look ''www.example.org.'' TypeA = {}"
    "?look ''shop.example.org.'' TypeCNAME = {org ''shop.'' TypeCNAME ''www.example.org.''}"
    "?look ''www.example.org.'' TypeCNAME = {org ''www.'' TypeCNAME ''web.example.org.''}"
    "?look ''web.example.org.'' TypeA = {org ''web.'' TypeA ''192.0.2.1''}"
    "CNAME rr_ref (org ''shop.'' TypeCNAME ''www.example.org.'') = ''www.example.org.''"
    "CNAME rr_ref (org ''www.'' TypeCNAME ''web.example.org.'') = ''web.example.org.''"
    "IsSubDomain rr_ref ''example.org.'' ''www.example.org.''" "IsSubDomain rr_ref ''example.org.'' ''web.example.org.''"
    by code_simp+
  show ?thesis
    using resolveAuthoritative_follows_CNAMEs [OF web_store_facts(1) set_ref_ok web_store_facts(2,3) facts(1), of ClassINET TypeA
        "[org ''shop.'' TypeCNAME ''www.example.org.'']" "''www.example.org.''"
        "org ''www.'' TypeCNAME ''web.example.org.''" 8]
    by (auto simp: web_store_content facts)
qed

theorem resolveAuthoritative_CNAME_no_data_witness:
  "\<exists>res. resolveAuthoritative 8 rr_ref set_ref (memory_repo rr_ref mapping_ref) ''example.org.'' ''v6.example.org.''
      TypeAAAA ClassINET web_store = Inr res \<and> rsn_RCode res = RcodeSuccess \<and>
    recordsToRRs rr_ref [org ''v6.'' TypeCNAME ''ns.example.org.''] = Inr (rsn_Answer res)"
proof -
  let ?look = "\<lambda>n t. lookup_set ''example.org.'' n t ClassINET web_content"
  have facts: "NormalizeLookup rr_ref ''example.org.'' ''v6.example.org.'' = Inr (''example.org.'', ''v6.example.org.'')"
    "?look ''v6.example.org.'' TypeAAAA = {}" "?look ''ns.example.org.'' TypeAAAA = {}"
    "?look ''v6.example.org.'' TypeCNAME = {org ''v6.'' TypeCNAME ''ns.example.org.''}"
    "?look ''ns.example.org.'' TypeCNAME = {}"
    "CNAME rr_ref (org ''v6.'' TypeCNAME ''ns.example.org.'') = ''ns.example.org.''"
    "IsSubDomain rr_ref ''example.org.'' ''ns.example.org.''"
    by code_simp+
  show ?thesis
    using resolveAuthoritative_CNAME_no_data [OF web_store_facts(1) set_ref_ok web_store_facts(2,3) facts(1), of ClassINET TypeAAAA
        "[org ''v6.'' TypeCNAME ''ns.example.org.'']" "''ns.example.org.''" 8]
    by (auto simp: web_store_content facts)
qed


end
