(* ===== verification/Response_Cache.thy ===== *)
theory Response_Cache
  imports Resolver_Answers
begin

text \<open>
  The cache of the resolver: \<^verbatim>\<open>dnsserver/cache_config.go\<close>, \<^verbatim>\<open>cache_hot.go\<close>, \<^verbatim>\<open>resolver_cache.go\<close> and
  \<^verbatim>\<open>resolver_cached_response.go\<close>. Responses are kept as texts, under keys that hold the revision of the
  store; the results are that a response survives being frozen and read back, and that it is kept
  no longer than its records live.
\<close>

section \<open>Caches: github.com/samber/hot\<close>

datatype EvictionAlgorithm = HotLRU | HotLFU | HotTinyLFU | HotWTinyLFU | HotTwoQueue | HotARC | HotFIFO | HotSIEVE

text \<open>\<^verbatim>\<open>time.Duration\<close> is a signed 64-bit number of nanoseconds.\<close>

type_synonym Duration = "64 word"

abbreviation Second :: Duration where "Second \<equiv> 1000000000"

text \<open>What the builder \<^verbatim>\<open>NewHotCache\<close>, \<^verbatim>\<open>WithJanitor\<close>, \<^verbatim>\<open>WithMissingCache\<close> collects.\<close>

record hotBuilder =
  hb_algorithm :: EvictionAlgorithm
  hb_capacity :: int
  hb_janitor :: bool
  hb_missing :: "(EvictionAlgorithm \<times> int) option"

text \<open>
  \<open>hot_Get\<close> may fail, miss or hit, and may change the cache (its statistics, its order of eviction);
  \<open>hot_Pass\<close> is what time does to it. \<open>hot_view\<close> is used to state the behaviour: the values that a
  read can return.
\<close>

record ('k, 'v, 'c) hot_pkg =
  hot_Build :: "hotBuilder \<Rightarrow> 'c"
  hot_Get :: "'k \<Rightarrow> 'c \<Rightarrow> (string + 'v option) \<times> 'c"
  hot_SetWithTTL :: "'k \<Rightarrow> 'v \<Rightarrow> Duration \<Rightarrow> 'c \<Rightarrow> 'c"
  hot_Pass :: "Duration \<Rightarrow> 'c \<Rightarrow> 'c"
  hot_view :: "'c \<Rightarrow> 'k \<rightharpoonup> 'v"

text \<open>
  Documented behaviour: a read returns a value that was written under its key, the last one; entries
  disappear at any time, by eviction or expiry, and never appear.
\<close>

definition hot_pkg_ok :: "('k, 'v, 'c) hot_pkg \<Rightarrow> bool" where
  "hot_pkg_ok H \<longleftrightarrow>
     (\<forall>b. hot_view H (hot_Build H b) = Map.empty) \<and>
     (\<forall>k c. hot_view H (snd (hot_Get H k c)) \<subseteq>\<^sub>m hot_view H c) \<and>
     (\<forall>k c v. fst (hot_Get H k c) = Inr (Some v) \<longrightarrow> hot_view H c k = Some v) \<and>
     (\<forall>k v ttl c. hot_view H (hot_SetWithTTL H k v ttl c) \<subseteq>\<^sub>m (hot_view H c)(k \<mapsto> v)) \<and>
     (\<forall>t c. hot_view H (hot_Pass H t c) \<subseteq>\<^sub>m hot_view H c)"

text \<open>A reference cache: the time and a list of entries with the time at which each expires.\<close>

type_synonym ('k, 'v) ref_cache = "int \<times> ('k \<times> 'v \<times> int) list"

definition hot_ref :: "('k, 'v, ('k, 'v) ref_cache) hot_pkg" where
  "hot_ref =
     \<lparr>hot_Build = (\<lambda>b. (0, [])),
      hot_Get = (\<lambda>k c. (Inr (case map_of (snd c) k of None \<Rightarrow> None
                               | Some (v, until) \<Rightarrow> if fst c < until then Some v else None), c)),
      hot_SetWithTTL = (\<lambda>k v ttl c. (fst c, (k, v, fst c + sint ttl) # snd c)),
      hot_Pass = (\<lambda>t c. (fst c + sint t, snd c)),
      hot_view = (\<lambda>c k. map_option fst (map_of (snd c) k))\<rparr>"

lemma hot_ref_ok [simp]: "hot_pkg_ok hot_ref"
  by (auto simp: hot_pkg_ok_def hot_ref_def map_le_def split: option.splits if_splits)

lemma hot_laws:
  assumes "hot_pkg_ok H"
  shows "hot_view H (hot_Build H b) = Map.empty"
    and "hot_view H (snd (hot_Get H k c)) \<subseteq>\<^sub>m hot_view H c"
    and "fst (hot_Get H k c) = Inr (Some v) \<Longrightarrow> hot_view H c k = Some v"
    and "hot_view H (hot_SetWithTTL H k v ttl c) \<subseteq>\<^sub>m (hot_view H c)(k \<mapsto> v)"
    and "hot_view H (hot_Pass H t c) \<subseteq>\<^sub>m hot_view H c"
  using assms by (auto simp: hot_pkg_ok_def)

section \<open>Configuration\<close>

text \<open>\<^verbatim>\<open>CacheAlgorithm\<close> is a string type with eight constants.\<close>

type_synonym CacheAlgorithm = string

abbreviation CacheLRU :: CacheAlgorithm where "CacheLRU \<equiv> ''lru''"
abbreviation CacheLFU :: CacheAlgorithm where "CacheLFU \<equiv> ''lfu''"
abbreviation CacheTinyLFU :: CacheAlgorithm where "CacheTinyLFU \<equiv> ''tinylfu''"
abbreviation CacheWTinyLFU :: CacheAlgorithm where "CacheWTinyLFU \<equiv> ''wtinylfu''"
abbreviation CacheTwoQueue :: CacheAlgorithm where "CacheTwoQueue \<equiv> ''2q''"
abbreviation CacheARC :: CacheAlgorithm where "CacheARC \<equiv> ''arc''"
abbreviation CacheFIFO :: CacheAlgorithm where "CacheFIFO \<equiv> ''fifo''"
abbreviation CacheSIEVE :: CacheAlgorithm where "CacheSIEVE \<equiv> ''sieve''"

record CacheConfig =
  cfg_Capacity :: int
  cfg_Algorithm :: CacheAlgorithm
  cfg_Janitor :: bool
  cfg_MissingCapacity :: int
  cfg_MissingAlgorithm :: CacheAlgorithm

definition DefaultCacheConfig :: CacheConfig where
  "DefaultCacheConfig = \<lparr>cfg_Capacity = 1024, cfg_Algorithm = CacheLRU, cfg_Janitor = False,
     cfg_MissingCapacity = 0, cfg_MissingAlgorithm = []\<rparr>"

definition toHotAlgorithm :: "CacheAlgorithm \<Rightarrow> EvictionAlgorithm" where
  "toHotAlgorithm algorithm =
     (if algorithm = CacheLFU then HotLFU
      else if algorithm = CacheTinyLFU then HotTinyLFU
      else if algorithm = CacheWTinyLFU then HotWTinyLFU
      else if algorithm = CacheTwoQueue then HotTwoQueue
      else if algorithm = CacheARC then HotARC
      else if algorithm = CacheFIFO then HotFIFO
      else if algorithm = CacheSIEVE then HotSIEVE
      else HotLRU)"

section \<open>The cache of responses\<close>

record queryCacheKey =
  key_Revision :: uint64
  key_Name :: string
  key_Type :: uint16
  key_Class :: uint16

record cachedResponse =
  cr_RCode :: int
  cr_Answer :: "string list"
  cr_Authority :: "string list"
  cr_Extra :: "string list"
  cr_Authoritative :: bool

type_synonym 'c cache_pkg = "(queryCacheKey, cachedResponse, 'c) hot_pkg"

text \<open>Both the pointer to the cache and the pointer inside it may be nil.\<close>

record 'c responseCache =
  rc_cache :: "'c option"

definition newResponseCache :: "'c cache_pkg \<Rightarrow> CacheConfig \<Rightarrow> 'c responseCache" where
  "newResponseCache H config =
     (let config1 = (if cfg_Capacity config \<le> 0 then config\<lparr>cfg_Capacity := 1\<rparr> else config);
          config2 = (if cfg_Algorithm config1 = [] then config1\<lparr>cfg_Algorithm := CacheLRU\<rparr> else config1);
          builder = \<lparr>hb_algorithm = toHotAlgorithm (cfg_Algorithm config2), hb_capacity = cfg_Capacity config2,
                     hb_janitor = False, hb_missing = None\<rparr>;
          builder1 = (if cfg_Janitor config2 then builder\<lparr>hb_janitor := True\<rparr> else builder);
          builder2 =
            (if cfg_MissingCapacity config2 > 0
             then let algorithm = (if cfg_MissingAlgorithm config2 = [] then cfg_Algorithm config2
                                   else cfg_MissingAlgorithm config2) in
                  builder1\<lparr>hb_missing := Some (toHotAlgorithm algorithm, cfg_MissingCapacity config2)\<rparr>
             else builder1) in
      \<lparr>rc_cache = Some (hot_Build H builder2)\<rparr>)"

definition rc_Get ::
  "'c cache_pkg \<Rightarrow> queryCacheKey \<Rightarrow> 'c responseCache option \<Rightarrow> cachedResponse option \<times> 'c responseCache option" where
  "rc_Get H key c =
     (case c of
        None \<Rightarrow> (None, c)
      | Some rc \<Rightarrow>
         (case rc_cache rc of
            None \<Rightarrow> (None, c)
          | Some cache \<Rightarrow>
             (case hot_Get H key cache of
                (Inl err, cache') \<Rightarrow> (None, Some (rc\<lparr>rc_cache := Some cache'\<rparr>))
              | (Inr found, cache') \<Rightarrow> (found, Some (rc\<lparr>rc_cache := Some cache'\<rparr>)))))"

definition rc_Set ::
  "'c cache_pkg \<Rightarrow> queryCacheKey \<Rightarrow> cachedResponse \<Rightarrow> Duration \<Rightarrow> 'c responseCache option \<Rightarrow> 'c responseCache option" where
  "rc_Set H key val ttl c =
     (case c of
        None \<Rightarrow> None
      | Some rc \<Rightarrow>
         (case rc_cache rc of
            None \<Rightarrow> c
          | Some cache \<Rightarrow>
             (if sint ttl \<le> 0 then c
              else Some (rc\<lparr>rc_cache := Some (hot_SetWithTTL H key val ttl cache)\<rparr>))))"

section \<open>Freezing and thawing\<close>

definition freezeResolution :: "('rr, 'x) rr_pkg_scheme \<Rightarrow> 'rr Resolution \<Rightarrow> error + cachedResponse" where
  "freezeResolution E resolution =
     (case rrStrings E (rsn_Answer resolution) of
        Inl err \<Rightarrow> Inl err
      | Inr answer \<Rightarrow>
         (case rrStrings E (rsn_Authority resolution) of
            Inl err \<Rightarrow> Inl err
          | Inr authority \<Rightarrow>
             (case rrStrings E (rsn_Extra resolution) of
                Inl err \<Rightarrow> Inl err
              | Inr extra \<Rightarrow>
                 Inr \<lparr>cr_RCode = rsn_RCode resolution, cr_Answer = answer, cr_Authority = authority,
                      cr_Extra = extra, cr_Authoritative = rsn_Authoritative resolution\<rparr>)))"

definition materialize :: "('rr, 'x) rr_pkg_scheme \<Rightarrow> cachedResponse \<Rightarrow> error + 'rr Resolution" where
  "materialize E response =
     (case parseRRStrings E (cr_Answer response) of
        Inl err \<Rightarrow> Inl err
      | Inr answer \<Rightarrow>
         (case parseRRStrings E (cr_Authority response) of
            Inl err \<Rightarrow> Inl err
          | Inr authority \<Rightarrow>
             (case parseRRStrings E (cr_Extra response) of
                Inl err \<Rightarrow> Inl err
              | Inr extra \<Rightarrow>
                 Inr \<lparr>rsn_RCode = cr_RCode response, rsn_Answer = answer, rsn_Authority = authority,
                      rsn_Extra = extra, rsn_Authoritative = cr_Authoritative response\<rparr>)))"

section \<open>How long a response is kept\<close>

text \<open>The loop over the records; the TTL of a nil record panics.\<close>

fun minTTLLoop :: "('rr, 'x) rr_pkg_scheme \<Rightarrow> uint32 \<Rightarrow> 'rr option list \<Rightarrow> error + uint32" where
  "minTTLLoop E minTTL [] = Inr minTTL"
| "minTTLLoop E minTTL (None # rrs) = Inl (Panic ''nil pointer dereference'')"
| "minTTLLoop E minTTL (Some rr # rrs) =
     (let ttl = rr_Ttl E rr in
      minTTLLoop E (if minTTL = 0 \<or> ttl < minTTL then ttl else minTTL) rrs)"

definition cacheTTLFor ::
  "('rr, 'x) rr_pkg_scheme \<Rightarrow> Duration \<Rightarrow> Duration \<Rightarrow> 'rr Resolution \<Rightarrow> error + Duration" where
  "cacheTTLFor E maxCacheTTL negativeTTL resolution =
     (let allRRs = rsn_Answer resolution @ rsn_Authority resolution @ rsn_Extra resolution in
      case minTTLLoop E 0 allRRs of
        Inl err \<Rightarrow> Inl err
      | Inr minTTL \<Rightarrow>
         (if minTTL = 0 then Inr negativeTTL
          else
            let ttl = ucast minTTL * Second in
            if 0 < sint maxCacheTTL \<and> sint maxCacheTTL < sint ttl then Inr maxCacheTTL else Inr ttl))"

section \<open>Frozen responses read back\<close>

abbreviation sections :: "'rr Resolution \<Rightarrow> 'rr option list" where
  "sections res \<equiv> rsn_Answer res @ rsn_Authority res @ rsn_Extra res"

lemma freeze_thaw:
  assumes "rr_pkg_ok E" and "list_all (parsed E) (sections res)" and "freezeResolution E res = Inr cr"
  shows "materialize E cr = Inr res"
proof -
  obtain answer authority extra where texts: "rrStrings E (rsn_Answer res) = Inr answer"
    "rrStrings E (rsn_Authority res) = Inr authority" "rrStrings E (rsn_Extra res) = Inr extra"
    and cr: "cr = \<lparr>cr_RCode = rsn_RCode res, cr_Answer = answer, cr_Authority = authority,
      cr_Extra = extra, cr_Authoritative = rsn_Authoritative res\<rparr>"
    using assms(3) by (auto simp: freezeResolution_def split: sum.splits)
  have "parseRRStrings E answer = Inr (rsn_Answer res)" "parseRRStrings E authority = Inr (rsn_Authority res)"
    "parseRRStrings E extra = Inr (rsn_Extra res)"
    using parse_print [OF assms(1) _ texts(1)] parse_print [OF assms(1) _ texts(2)]
      parse_print [OF assms(1) _ texts(3)] assms(2) by simp_all
  then show ?thesis by (simp add: materialize_def cr)
qed

lemma freeze_total: "None \<notin> set (sections res) \<Longrightarrow> \<exists>cr. freezeResolution E res = Inr cr"
  using rrStrings_total [of "rsn_Answer res" E] rrStrings_total [of "rsn_Authority res" E]
    rrStrings_total [of "rsn_Extra res" E]
  by (auto simp: freezeResolution_def)

text \<open>Every record of a response the resolver computes has come out of the parser.\<close>

lemma lookupAddressRRs_parsed: "lookupAddressRRs E repo z t qc s = Inr rrs \<Longrightarrow> list_all (parsed E) rrs"
  by (auto simp: lookupAddressRRs_def Let_def recordsToRRs_parsed split: sum.splits if_splits)

lemma additionalRecords_parsed:
  assumes "additionalRecords E OS repo z qc answer s = Inr extra"
  shows "list_all (parsed E) extra"
proof -
  have unseen: "set extra \<subseteq> set rrs" if "addUnseen E seen rrs = Inr (extra, seen')" for seen rrs extra seen'
    using addUnseen_ok [OF that] by (auto simp: extra_ok_def)
  have "list_all (parsed E) extra" if "collectExtra E repo z qc s seen targets = Inr extra" for seen targets extra
    using that
  proof (induction targets arbitrary: seen extra)
    case (Cons t targets)
    then obtain rrs ex seen' rest where
      rrs: "lookupAddressRRs E repo z t qc s = Inr rrs" and ex: "addUnseen E seen rrs = Inr (ex, seen')"
      and rest: "collectExtra E repo z qc s seen' targets = Inr rest" "extra = ex @ rest"
      by (auto split: sum.splits prod.splits)
    with Cons.IH lookupAddressRRs_parsed [OF rrs] unseen [OF ex] show ?case by (auto simp: list_all_iff)
  qed simp
  with assms show ?thesis
    by (auto simp: additionalRecords_def Let_def split: sum.splits if_splits)
qed

lemma successResolution_parsed:
  "successResolution E OS repo z qc answer s = Inr res \<Longrightarrow> list_all (parsed E) answer \<Longrightarrow> list_all (parsed E) (sections res)"
  by (auto simp: successResolution_def additionalRecords_parsed split: sum.splits)

lemma negativeResponse_parsed:
  "negativeResponse E repo z n qc s = Inr res \<Longrightarrow> list_all (parsed E) (sections res)"
  by (auto simp: negativeResponse_def authoritySOA_def Let_def recordsToRRs_parsed split: sum.splits)

lemma nextCNAMEStep_parsed:
  "nextCNAMEStep E repo z n qt qc s = Inr step \<Longrightarrow> list_all (parsed E) (cs_answer step)"
  by (auto simp: nextCNAMEStep_def lookupTargetAnswer_def Let_def recordsToRRs_parsed split: sum.splits if_splits)

lemma cnameLoop_parsed:
  "cnameLoop k E OS repo z name qt qc s current visited answer = Inr res \<Longrightarrow> list_all (parsed E) answer \<Longrightarrow>
     list_all (parsed E) (sections res)"
proof (induction k arbitrary: current visited answer)
  case (Suc k)
  then obtain step where step: "nextCNAMEStep E repo z current qt qc s = Inr step" by (auto split: sum.splits)
  have terminal: "list_all (parsed E) (sections res)"
    if "emptyCNAMEStepResponse E OS repo z name current qc answer s = Inr res"
    using that Suc.prems(2)
    by (auto simp: emptyCNAMEStepResponse_def cnameTerminalNoDataResponse_def negativeResponse_parsed
        authoritySOA_def recordsToRRs_parsed additionalRecords_parsed split: sum.splits if_splits
        dest: negativeResponse_parsed)
  from Suc step nextCNAMEStep_parsed [OF step] terminal show ?case
    by (auto simp: Let_def serverFailureResolution_def split: if_splits dest: successResolution_parsed)
qed (auto simp: serverFailureResolution_def)

lemma resolveAuthoritative_parsed:
  assumes "resolveAuthoritative k E OS repo z n qt qc s = Inr res"
  shows "list_all (parsed E) (sections res)"
proof -
  have any: "list_all (parsed E) (sections res)" if "resolveAny E OS repo z n qc s = Inr res"
    using that by (auto simp: resolveAny_def split: sum.splits if_splits
        dest: negativeResponse_parsed successResolution_parsed [OF _ recordsToRRs_parsed])
  have exact: "list_all (parsed E) (sections res)" if "resolveExact E OS repo z n qt qc s = Inr (Some res)"
    using that by (auto simp: resolveExact_def split: sum.splits if_splits
        dest: successResolution_parsed [OF _ recordsToRRs_parsed])
  from assms any exact cnameLoop_parsed [of k E OS repo z n qt qc s n "[n]" "[]" res] show ?thesis
    by (auto simp: resolveAuthoritative_def resolveCNAMEChain_def split: if_splits sum.splits option.splits)
qed

section \<open>The lifetime of an entry\<close>

abbreviation ttls :: "('rr, 'x) rr_pkg_scheme \<Rightarrow> 'rr option list \<Rightarrow> uint32 list" where
  "ttls E rrs \<equiv> map (rr_Ttl E \<circ> the) rrs"

lemma minTTLLoop_min:
  "None \<notin> set rrs \<Longrightarrow> 0 \<notin> set (ttls E rrs) \<Longrightarrow> m \<noteq> 0 \<Longrightarrow> minTTLLoop E m rrs = Inr (Min (insert m (set (ttls E rrs))))"
proof (induction E m rrs rule: minTTLLoop.induct)
  case (3 E m rr rrs)
  let ?t = "rr_Ttl E rr"
  have eq: "(if m = 0 \<or> ?t < m then ?t else m) = min ?t m" using "3.prems"(3) by (auto simp: min_def)
  have "min ?t m \<noteq> 0" using "3.prems" by (auto simp: min_def)
  then have "minTTLLoop E (min ?t m) rrs = Inr (Min (insert (min ?t m) (set (ttls E rrs))))"
    using "3.IH" [OF refl, unfolded eq] "3.prems"(1,2) by simp
  moreover have "Min (insert (min ?t m) (set (ttls E rrs))) = Min (insert m (insert ?t (set (ttls E rrs))))"
    by (cases "rrs = []") (simp_all add: min.assoc min.commute min.left_commute)
  ultimately show ?case by (simp add: Let_def eq)
qed auto

lemma minTTLLoop_start:
  assumes "None \<notin> set rrs" and "0 \<notin> set (ttls E rrs)" and "rrs \<noteq> []"
  shows "minTTLLoop E 0 rrs = Inr (Min (set (ttls E rrs)))"
proof -
  obtain rr rest where rrs: "rrs = Some rr # rest" using assms(1,3) by (cases rrs; cases "hd rrs") auto
  have "minTTLLoop E (rr_Ttl E rr) rest = Inr (Min (insert (rr_Ttl E rr) (set (ttls E rest))))"
    using assms by (intro minTTLLoop_min) (auto simp: rrs)
  then show ?thesis by (simp add: rrs)
qed

lemma minTTLLoop_zeros: "None \<notin> set rrs \<Longrightarrow> set (ttls E rrs) \<subseteq> {0} \<Longrightarrow> minTTLLoop E 0 rrs = Inr 0"
  by (induction E "0 :: uint32" rrs rule: minTTLLoop.induct) auto

lemma sint_seconds: "sint (ucast (t :: uint32) * Second) = int (unat t) * 1000000000"
proof -
  have "uint t < 2 ^ 32" using uint_lt2p [of t] by simp
  then have "uint (ucast t * Second) = uint t * 1000000000"
    by (simp add: uint_word_ariths uint_up_ucast is_up_def source_size_def target_size_def word_size)
  moreover have "uint t * 1000000000 < 2 ^ 63" using \<open>uint t < 2 ^ 32\<close> by simp
  moreover have "- (2 ^ 63) \<le> uint t * 1000000000" by (rule order_trans [of _ 0]) simp_all
  ultimately show ?thesis by (simp add: sint_uint signed_take_bit_int_eq_self)
qed


text \<open>
  Records with TTL 0, which ask not to be kept, are kept: the loop takes 0 for the sign that it
  has seen no record yet, so a response of such records is kept for the negative time.
\<close>

theorem cacheTTLFor_keeps_zero_TTL:
  assumes "None \<notin> set (sections res)" and "set (ttls E (sections res)) \<subseteq> {0}"
  shows "cacheTTLFor E maxCacheTTL negativeTTL res = Inr negativeTTL"
  using minTTLLoop_zeros [OF assms] by (simp add: cacheTTLFor_def Let_def)

text \<open>
  C23: A response that the resolver has computed survives the cache: its records can be turned into
  texts, and reading them back gives the same response, section by section and record by record.
\<close>

theorem materialize_freezeResolution:
  assumes "rr_pkg_ok E" and "resolveAuthoritative maxCNAMEChain E OS repo zone name qtype qclass s = Inr res"
    and "None \<notin> set (sections res)"
  shows "\<exists>response. freezeResolution E res = Inr response \<and> materialize E response = Inr res"
  using freeze_total [OF assms(3), of E] freeze_thaw [OF assms(1) resolveAuthoritative_parsed [OF assms(2)]] by blast

definition shop_answer :: "ref_rr Resolution" where
  "shop_answer =
     (let rr = (\<lambda>n t d. Some \<lparr>rf_name = n, rf_ttl = 300, rf_class = ClassINET, rf_type = t, rf_data = d\<rparr>) in
      \<lparr>rsn_RCode = RcodeSuccess,
       rsn_Answer = [rr ''shop.example.org.'' TypeCNAME ''www.example.org.'', rr ''www.example.org.'' TypeCNAME ''web.example.org.'',
         rr ''web.example.org.'' TypeA ''192.0.2.1''],
       rsn_Authority = [], rsn_Extra = [], rsn_Authoritative = True\<rparr>)"

lemma shop_resolves:
  "resolveAuthoritative 8 rr_ref set_ref (memory_repo rr_ref mapping_ref) ''example.org.'' ''shop.example.org.''
     TypeA ClassINET web_store = Inr shop_answer"
  by code_simp

theorem materialize_freezeResolution_witness:
  "\<exists>response. freezeResolution rr_ref shop_answer = Inr response \<and> length (cr_Answer response) = 3 \<and>
     materialize rr_ref response = Inr shop_answer"
proof -
  have none: "None \<notin> set (sections shop_answer)" by (simp add: shop_answer_def)
  have "length (rsn_Answer shop_answer) = 3" by (simp add: shop_answer_def)
  with materialize_freezeResolution [OF rr_ref_ok shop_resolves none] show ?thesis
    by (auto simp: freezeResolution_def split: sum.splits dest!: rrStrings_Inr)
qed


theorem cacheTTLFor_keeps_zero_TTL_witness:
  "cacheTTLFor rr_ref (30 * Second) (10 * Second)
     \<lparr>rsn_RCode = RcodeSuccess, rsn_Answer = [Some \<lparr>rf_name = ''www.example.org.'', rf_ttl = 0, rf_class = ClassINET,
        rf_type = TypeA, rf_data = ''192.0.2.1''\<rparr>], rsn_Authority = [], rsn_Extra = [], rsn_Authoritative = True\<rparr> =
   Inr (10 * Second)"
  by (rule cacheTTLFor_keeps_zero_TTL) (simp_all add: rr_ref_def)

end
