(* ===== verification/Query.thy ===== *)
theory Query
  imports Response_Cache
begin

text \<open>
  The resolver as an object: its construction and options, the choice of the zone, the use of the
  cache and the handler that writes the reply. \<^verbatim>\<open>dnsserver/resolver.go\<close> and \<^verbatim>\<open>resolver_handler.go\<close>. The main
  result is that a resolver with its cache answers what one without a cache would.
\<close>

section \<open>The resolver\<close>

text \<open>
  The logger is left out. \<open>rsv_revisionFunc\<close> reads the store, which the methods have as an argument.
\<close>

record ('s, 'c, 'tr) Resolver =
  rsv_repo :: "'s Repository"
  rsv_cache :: "'c responseCache option"
  rsv_cacheConfig :: CacheConfig
  rsv_maxCacheTTL :: Duration
  rsv_negativeTTL :: Duration
  rsv_maxCNAMEChain :: int
  rsv_revisionFunc :: "'s \<Rightarrow> uint64"
  rsv_zones :: "'tr zoneIndex"
  rsv_zonesLoaded :: bool
  rsv_zonesVersion :: uint64

type_synonym ('s, 'c, 'tr) ResolverOption = "('s, 'c, 'tr) Resolver \<Rightarrow> ('s, 'c, 'tr) Resolver"

definition NewResolver ::
  "'c cache_pkg \<Rightarrow> 's Repository \<Rightarrow> ('s, 'c, 'tr) ResolverOption option list \<Rightarrow> ('s, 'c, 'tr) Resolver" where
  "NewResolver H repo opts =
     (let resolver =
        \<lparr>rsv_repo = repo, rsv_cache = Some (newResponseCache H DefaultCacheConfig),
         rsv_cacheConfig = DefaultCacheConfig, rsv_maxCacheTTL = 30 * Second, rsv_negativeTTL = 10 * Second,
         rsv_maxCNAMEChain = 8,
         rsv_revisionFunc = (case repo_Revision repo of None \<Rightarrow> (\<lambda>_. 0) | Some revision \<Rightarrow> revision),
         rsv_zones = \<lparr>zi_names = [], zi_trie = None\<rparr>, rsv_zonesLoaded = False, rsv_zonesVersion = 0\<rparr> in
      fold (\<lambda>opt r. case opt of None \<Rightarrow> r | Some f \<Rightarrow> f r) opts resolver)"

definition WithHotCache :: "'c cache_pkg \<Rightarrow> int \<Rightarrow> Duration \<Rightarrow> ('s, 'c, 'tr) ResolverOption" where
  "WithHotCache H capacity maxTTL resolver =
     (let config = (rsv_cacheConfig resolver)\<lparr>cfg_Capacity := capacity\<rparr>;
          resolver1 = resolver\<lparr>rsv_cacheConfig := config, rsv_cache := Some (newResponseCache H config)\<rparr> in
      if 0 < sint maxTTL then resolver1\<lparr>rsv_maxCacheTTL := maxTTL\<rparr> else resolver1)"

definition WithCache :: "'c cache_pkg \<Rightarrow> CacheConfig \<Rightarrow> ('s, 'c, 'tr) ResolverOption" where
  "WithCache H config resolver =
     (let config1 = (if cfg_Capacity config \<le> 0
                     then config\<lparr>cfg_Capacity := cfg_Capacity (rsv_cacheConfig resolver)\<rparr> else config);
          config2 = (if cfg_Algorithm config1 = []
                     then config1\<lparr>cfg_Algorithm := cfg_Algorithm (rsv_cacheConfig resolver)\<rparr> else config1) in
      resolver\<lparr>rsv_cacheConfig := config2, rsv_cache := Some (newResponseCache H config2)\<rparr>)"

definition WithMaxCacheTTL :: "Duration \<Rightarrow> ('s, 'c, 'tr) ResolverOption" where
  "WithMaxCacheTTL ttl resolver = (if 0 < sint ttl then resolver\<lparr>rsv_maxCacheTTL := ttl\<rparr> else resolver)"

definition WithNegativeCacheTTL :: "Duration \<Rightarrow> ('s, 'c, 'tr) ResolverOption" where
  "WithNegativeCacheTTL ttl resolver = (if 0 < sint ttl then resolver\<lparr>rsv_negativeTTL := ttl\<rparr> else resolver)"

definition WithMaxCNAMEChain :: "int \<Rightarrow> ('s, 'c, 'tr) ResolverOption" where
  "WithMaxCNAMEChain depth resolver = (if depth > 0 then resolver\<lparr>rsv_maxCNAMEChain := depth\<rparr> else resolver)"

section \<open>Resolution\<close>

record Question =
  q_Name :: string
  q_Qtype :: uint16
  q_Qclass :: uint16

definition rsv_listZones :: "('s, 'c, 'tr) Resolver \<Rightarrow> 's \<Rightarrow> error + Zone list" where
  "rsv_listZones r s =
     (case repo_ListZones (rsv_repo r) s of
        Inl err \<Rightarrow> Inl err
      | Inr zones \<Rightarrow> Inr zones)"

definition matchZone ::
  "('rr, 'x) rr_pkg_scheme \<Rightarrow> 'o set_pkg \<Rightarrow> 'tr trie_pkg \<Rightarrow> string \<Rightarrow> 's \<Rightarrow> ('s, 'c, 'tr) Resolver \<Rightarrow>
     (error + string option) \<times> ('s, 'c, 'tr) Resolver" where
  "matchZone E OS T name s r =
     (let revision = rsv_revisionFunc r s in
      if rsv_zonesVersion r = revision \<and> rsv_zonesLoaded r then (Inr (Match E T (rsv_zones r) name), r)
      else
        case rsv_listZones r s of
          Inl err \<Rightarrow> (Inl err, r)
        | Inr zones \<Rightarrow>
           (let index = newZoneIndex OS T zones in
            (Inr (Match E T index name), r\<lparr>rsv_zones := index, rsv_zonesLoaded := True, rsv_zonesVersion := revision\<rparr>)))"

definition refusedResolution :: "int \<Rightarrow> 'rr Resolution" where
  "refusedResolution rcode = \<lparr>rsn_RCode = rcode, rsn_Answer = [], rsn_Authority = [], rsn_Extra = [], rsn_Authoritative = False\<rparr>"

text \<open>
  Between the choice of the zone, the reading of the revision and the lookups other requests may
  write to the store. \<open>sz\<close>, \<open>sv\<close> and \<open>sr\<close> are the store as these three steps find it.
\<close>

definition ResolveAt ::
  "('rr, 'x) rr_pkg_scheme \<Rightarrow> 'o set_pkg \<Rightarrow> 'tr trie_pkg \<Rightarrow> 'c cache_pkg \<Rightarrow> Question \<Rightarrow> 's \<Rightarrow> 's \<Rightarrow> 's \<Rightarrow>
     ('s, 'c, 'tr) Resolver \<Rightarrow> (error + 'rr Resolution) \<times> ('s, 'c, 'tr) Resolver" where
  "ResolveAt E OS T H question sz sv sr r =
     (let name = fqdnTrimmed E (q_Name question) in
      if name = ''.'' then (Inr (refusedResolution RcodeFormatError), r)
      else
        case matchZone E OS T name sz r of
          (Inl err, r1) \<Rightarrow> (Inl err, r1)
        | (Inr None, r1) \<Rightarrow> (Inr (refusedResolution RcodeRefused), r1)
        | (Inr (Some zone), r1) \<Rightarrow>
           (let cacheKey = \<lparr>key_Revision = rsv_revisionFunc r1 sv, key_Name = name, key_Type = q_Qtype question,
                            key_Class = q_Qclass question\<rparr> in
            case rc_Get H cacheKey (rsv_cache r1) of
              (Some cached, c') \<Rightarrow> (materialize E cached, r1\<lparr>rsv_cache := c'\<rparr>)
            | (None, c') \<Rightarrow>
               (let r2 = r1\<lparr>rsv_cache := c'\<rparr> in
                case resolveAuthoritative (nat (rsv_maxCNAMEChain r2)) E OS (rsv_repo r2) zone name
                       (q_Qtype question) (q_Qclass question) sr of
                  Inl err \<Rightarrow> (Inl err, r2)
                | Inr resolution \<Rightarrow>
                   (case cacheTTLFor E (rsv_maxCacheTTL r2) (rsv_negativeTTL r2) resolution of
                      Inl err \<Rightarrow> (Inl err, r2)
                    | Inr cacheTTL \<Rightarrow>
                       (if 0 < sint cacheTTL
                        then
                          case freezeResolution E resolution of
                            Inl err \<Rightarrow> (Inl err, r2)
                          | Inr frozen \<Rightarrow> (Inr resolution, r2\<lparr>rsv_cache := rc_Set H cacheKey frozen cacheTTL c'\<rparr>)
                        else (Inr resolution, r2))))))"

definition Resolve ::
  "('rr, 'x) rr_pkg_scheme \<Rightarrow> 'o set_pkg \<Rightarrow> 'tr trie_pkg \<Rightarrow> 'c cache_pkg \<Rightarrow> Question \<Rightarrow> 's \<Rightarrow>
     ('s, 'c, 'tr) Resolver \<Rightarrow> (error + 'rr Resolution) \<times> ('s, 'c, 'tr) Resolver" where
  "Resolve E OS T H question s r = ResolveAt E OS T H question s s s r"

section \<open>Messages: github.com/miekg/dns\<close>

abbreviation OpcodeQuery :: int where "OpcodeQuery \<equiv> 0"
abbreviation OpcodeUpdate :: int where "OpcodeUpdate \<equiv> 5"

record 'rr Msg =
  msg_Id :: uint16
  msg_Response :: bool
  msg_Opcode :: int
  msg_Authoritative :: bool
  msg_RecursionDesired :: bool
  msg_RecursionAvailable :: bool
  msg_Rcode :: int
  msg_Question :: "Question list"
  msg_Answer :: "'rr option list"
  msg_Ns :: "'rr option list"
  msg_Extra :: "'rr option list"

text \<open>
  \<^verbatim>\<open>new(dns.Msg).SetReply(request)\<close> and \<^verbatim>\<open>SetRcode(request, rcode)\<close>: documented as the reply to a request,
  with its identifier and question, and with the response code.
\<close>

record 'rr msg_pkg =
  SetReply :: "'rr Msg \<Rightarrow> 'rr Msg"
  SetRcode :: "'rr Msg \<Rightarrow> int \<Rightarrow> 'rr Msg"

definition msg_pkg_ok :: "'rr msg_pkg \<Rightarrow> bool" where
  "msg_pkg_ok G \<longleftrightarrow>
     (\<forall>m. msg_Id (SetReply G m) = msg_Id m \<and> msg_Response (SetReply G m) \<and> msg_Answer (SetReply G m) = [] \<and>
        msg_Ns (SetReply G m) = [] \<and> msg_Extra (SetReply G m) = []) \<and>
     (\<forall>m rcode. SetRcode G m rcode = (SetReply G m)\<lparr>msg_Rcode := rcode\<rparr>)"

definition msg_ref :: "'rr msg_pkg" where
  "msg_ref =
     (let reply = (\<lambda>m. \<lparr>msg_Id = msg_Id m, msg_Response = True, msg_Opcode = msg_Opcode m, msg_Authoritative = False,
        msg_RecursionDesired = (msg_Opcode m = OpcodeQuery \<and> msg_RecursionDesired m), msg_RecursionAvailable = False,
        msg_Rcode = RcodeSuccess, msg_Question = take 1 (msg_Question m), msg_Answer = [], msg_Ns = [], msg_Extra = []\<rparr>) in
      \<lparr>SetReply = reply, SetRcode = (\<lambda>m rcode. (reply m)\<lparr>msg_Rcode := rcode\<rparr>)\<rparr>)"

lemma msg_ref_ok [simp]: "msg_pkg_ok msg_ref"
  by (simp add: msg_pkg_ok_def msg_ref_def Let_def)

section \<open>The handler\<close>

text \<open>
  The result is the message written, the only output of the handler. A panic is not an error value:
  it leaves the handler without a reply.
\<close>

definition ServeDNS ::
  "('rr, 'x) rr_pkg_scheme \<Rightarrow> 'o set_pkg \<Rightarrow> 'tr trie_pkg \<Rightarrow> 'c cache_pkg \<Rightarrow> 'rr msg_pkg \<Rightarrow> 'rr Msg \<Rightarrow> 's \<Rightarrow>
     ('s, 'c, 'tr) Resolver \<Rightarrow> (error + 'rr Msg) \<times> ('s, 'c, 'tr) Resolver" where
  "ServeDNS E OS T H G request s r =
     (let reply = (SetReply G request)\<lparr>msg_Authoritative := False, msg_RecursionAvailable := False\<rparr> in
      if msg_Opcode request \<noteq> OpcodeQuery \<or> length (msg_Question request) = 0
      then (Inr (reply\<lparr>msg_Rcode := RcodeFormatError\<rparr>), r)
      else
        case Resolve E OS T H (msg_Question request ! 0) s r of
          (Inl (Panic p), r') \<Rightarrow> (Inl (Panic p), r')
        | (Inl err, r') \<Rightarrow> (Inr (reply\<lparr>msg_Rcode := RcodeServerFailure\<rparr>), r')
        | (Inr resolution, r') \<Rightarrow>
           (Inr (reply\<lparr>msg_Rcode := rsn_RCode resolution, msg_Authoritative := rsn_Authoritative resolution,
                      msg_Answer := rsn_Answer resolution, msg_Ns := rsn_Authority resolution,
                      msg_Extra := rsn_Extra resolution\<rparr>), r'))"

section \<open>The cache does not show\<close>

text \<open>What the resolver answers when it has neither an index of zones nor a cached response.\<close>

definition directAnswer ::
  "('rr, 'x) rr_pkg_scheme \<Rightarrow> 'o set_pkg \<Rightarrow> 'tr trie_pkg \<Rightarrow> ('s, 'c, 'tr) Resolver \<Rightarrow> Question \<Rightarrow> 's \<Rightarrow> error + 'rr Resolution" where
  "directAnswer E OS T r question s =
     (let name = fqdnTrimmed E (q_Name question) in
      if name = ''.'' then Inr (refusedResolution RcodeFormatError)
      else
        case repo_ListZones (rsv_repo r) s of
          Inl err \<Rightarrow> Inl err
        | Inr zones \<Rightarrow>
           (case Match E T (newZoneIndex OS T zones) name of
              None \<Rightarrow> Inr (refusedResolution RcodeRefused)
            | Some zone \<Rightarrow>
               (case resolveAuthoritative (nat (rsv_maxCNAMEChain r)) E OS (rsv_repo r) zone name
                       (q_Qtype question) (q_Qclass question) s of
                  Inl err \<Rightarrow> Inl err
                | Inr resolution \<Rightarrow>
                   (case cacheTTLFor E (rsv_maxCacheTTL r) (rsv_negativeTTL r) resolution of
                      Inl err \<Rightarrow> Inl err
                    | Inr cacheTTL \<Rightarrow>
                       (if 0 < sint cacheTTL
                        then case freezeResolution E resolution of Inl err \<Rightarrow> Inl err | Inr _ \<Rightarrow> Inr resolution
                        else Inr resolution)))))"

definition cache_view :: "'c cache_pkg \<Rightarrow> 'c responseCache option \<Rightarrow> queryCacheKey \<rightharpoonup> cachedResponse" where
  "cache_view H c = (case c of None \<Rightarrow> Map.empty
     | Some rc \<Rightarrow> (case rc_cache rc of None \<Rightarrow> Map.empty | Some cache \<Rightarrow> hot_view H cache))"

lemma cache_view_new [simp]: "hot_pkg_ok H \<Longrightarrow> cache_view H (Some (newResponseCache H config)) = Map.empty"
  by (simp add: cache_view_def newResponseCache_def Let_def hot_laws)

lemma rc_Get_view:
  assumes "hot_pkg_ok H" and "rc_Get H k c = (found, c')"
  shows "cache_view H c' \<subseteq>\<^sub>m cache_view H c" and "found = Some v \<Longrightarrow> cache_view H c k = Some v"
proof -
  have get: "hot_view H cache' \<subseteq>\<^sub>m hot_view H cache \<and> (x = Inr (Some v) \<longrightarrow> hot_view H cache k = Some v)"
    if "hot_Get H k cache = (x, cache')" for cache x cache' v
    using hot_laws(2,3) [OF assms(1), of k cache] that by auto
  show "cache_view H c' \<subseteq>\<^sub>m cache_view H c" and "found = Some v \<Longrightarrow> cache_view H c k = Some v"
    using assms(2) get by (auto simp: rc_Get_def cache_view_def split: option.splits prod.splits sum.splits)
qed

lemma rc_Set_view:
  assumes "hot_pkg_ok H" and "0 < sint ttl"
  shows "cache_view H (rc_Set H k v ttl c) \<subseteq>\<^sub>m (cache_view H c)(k \<mapsto> v)"
  using hot_laws(4) [OF assms(1), of k v ttl] assms(2)
  by (auto simp: rc_Set_def cache_view_def map_le_def split: option.splits)

text \<open>
  The invariant of a resolver made from \<open>r0\<close>, when the store is \<open>s\<close>: the index of zones and the entries
  of the current revision are those of \<open>s\<close>, and none is of a later revision.
\<close>

definition entry_ok ::
  "('rr, 'x) rr_pkg_scheme \<Rightarrow> 'o set_pkg \<Rightarrow> 'tr trie_pkg \<Rightarrow> ('s, 'c, 'tr) Resolver \<Rightarrow> 's \<Rightarrow> queryCacheKey \<Rightarrow> cachedResponse \<Rightarrow> bool" where
  "entry_ok E OS T r0 s k response \<longleftrightarrow>
     (\<exists>zones zone res ttl. repo_ListZones (rsv_repo r0) s = Inr zones \<and>
        Match E T (newZoneIndex OS T zones) (key_Name k) = Some zone \<and>
        resolveAuthoritative (nat (rsv_maxCNAMEChain r0)) E OS (rsv_repo r0) zone (key_Name k) (key_Type k) (key_Class k) s = Inr res \<and>
        cacheTTLFor E (rsv_maxCacheTTL r0) (rsv_negativeTTL r0) res = Inr ttl \<and> freezeResolution E res = Inr response)"

definition zones_ok ::
  "'o set_pkg \<Rightarrow> 'tr trie_pkg \<Rightarrow> ('s, 'c, 'tr) Resolver \<Rightarrow> 's \<Rightarrow> ('s, 'c, 'tr) Resolver \<Rightarrow> bool" where
  "zones_ok OS T r0 s r \<longleftrightarrow>
     (rsv_zonesLoaded r \<longrightarrow> unat (rsv_zonesVersion r) \<le> unat (rsv_revisionFunc r0 s) \<and>
        (rsv_zonesVersion r = rsv_revisionFunc r0 s \<longrightarrow>
          (\<exists>zones. repo_ListZones (rsv_repo r0) s = Inr zones \<and> rsv_zones r = newZoneIndex OS T zones)))"

definition same_config :: "('s, 'c, 'tr) Resolver \<Rightarrow> ('s, 'c, 'tr) Resolver \<Rightarrow> bool" where
  "same_config r0 r \<longleftrightarrow> rsv_repo r = rsv_repo r0 \<and> rsv_maxCacheTTL r = rsv_maxCacheTTL r0 \<and>
     rsv_negativeTTL r = rsv_negativeTTL r0 \<and> rsv_maxCNAMEChain r = rsv_maxCNAMEChain r0 \<and>
     rsv_revisionFunc r = rsv_revisionFunc r0"

definition entries_ok ::
  "('rr, 'x) rr_pkg_scheme \<Rightarrow> 'o set_pkg \<Rightarrow> 'tr trie_pkg \<Rightarrow> ('s, 'c, 'tr) Resolver \<Rightarrow> 's \<Rightarrow> (queryCacheKey \<rightharpoonup> cachedResponse) \<Rightarrow> bool" where
  "entries_ok E OS T r0 s view \<longleftrightarrow>
     (\<forall>k response. view k = Some response \<longrightarrow> unat (key_Revision k) \<le> unat (rsv_revisionFunc r0 s) \<and>
        (key_Revision k = rsv_revisionFunc r0 s \<longrightarrow> entry_ok E OS T r0 s k response))"

definition resolver_ok ::
  "('rr, 'x) rr_pkg_scheme \<Rightarrow> 'o set_pkg \<Rightarrow> 'tr trie_pkg \<Rightarrow> 'c cache_pkg \<Rightarrow> ('s, 'c, 'tr) Resolver \<Rightarrow> 's \<Rightarrow> ('s, 'c, 'tr) Resolver \<Rightarrow> bool" where
  "resolver_ok E OS T H r0 s r \<longleftrightarrow>
     same_config r0 r \<and> zones_ok OS T r0 s r \<and> entries_ok E OS T r0 s (cache_view H (rsv_cache r))"

lemma entries_ok_mono: "entries_ok E OS T r0 s view \<Longrightarrow> view' \<subseteq>\<^sub>m view \<Longrightarrow> entries_ok E OS T r0 s view'"
  unfolding entries_ok_def map_le_def by (metis domI)

lemma entries_ok_upd:
  "entries_ok E OS T r0 s view \<Longrightarrow> key_Revision k = rsv_revisionFunc r0 s \<Longrightarrow> entry_ok E OS T r0 s k response \<Longrightarrow>
     entries_ok E OS T r0 s (view(k \<mapsto> response))"
  by (auto simp: entries_ok_def)

lemma matchZone_ok:
  assumes "resolver_ok E OS T H r0 s r" and "matchZone E OS T name s r = (res, r')"
  shows "resolver_ok E OS T H r0 s r' \<and> rsv_cache r' = rsv_cache r \<and>
    res = (case repo_ListZones (rsv_repo r0) s of Inl err \<Rightarrow> Inl err
      | Inr zones \<Rightarrow> Inr (Match E T (newZoneIndex OS T zones) name))"
proof (cases "rsv_zonesVersion r = rsv_revisionFunc r s \<and> rsv_zonesLoaded r")
  case True
  then show ?thesis using assms by (auto simp: matchZone_def resolver_ok_def zones_ok_def same_config_def)
next
  case False
  then show ?thesis using assms
    by (auto simp: matchZone_def Let_def rsv_listZones_def resolver_ok_def zones_ok_def same_config_def split: sum.splits)
qed

definition question_key :: "('rr, 'x) rr_pkg_scheme \<Rightarrow> ('s, 'c, 'tr) Resolver \<Rightarrow> Question \<Rightarrow> 's \<Rightarrow> queryCacheKey" where
  "question_key E r question s = \<lparr>key_Revision = rsv_revisionFunc r s, key_Name = fqdnTrimmed E (q_Name question),
     key_Type = q_Qtype question, key_Class = q_Qclass question\<rparr>"

lemma question_key_same: "same_config r0 r \<Longrightarrow> question_key E r = question_key E r0"
  by (simp add: question_key_def same_config_def fun_eq_iff)

lemma resolver_ok_Get:
  assumes "hot_pkg_ok H" and "resolver_ok E OS T H r0 s r" and "rc_Get H k (rsv_cache r) = (found, c')"
  shows "resolver_ok E OS T H r0 s (r\<lparr>rsv_cache := c'\<rparr>)"
  using assms(2) entries_ok_mono [OF _ rc_Get_view(1) [OF assms(1,3)]]
  by (auto simp: resolver_ok_def zones_ok_def same_config_def)

lemma resolver_ok_Set:
  assumes "hot_pkg_ok H" and "resolver_ok E OS T H r0 s r" and "entry_ok E OS T r0 s k frozen"
    and "key_Revision k = rsv_revisionFunc r0 s" and "0 < sint ttl"
  shows "resolver_ok E OS T H r0 s (r\<lparr>rsv_cache := rc_Set H k frozen ttl (rsv_cache r)\<rparr>)"
proof -
  have "entries_ok E OS T r0 s ((cache_view H (rsv_cache r))(k \<mapsto> frozen))"
    by (rule entries_ok_upd [OF _ assms(4,3)]) (use assms(2) in \<open>simp add: resolver_ok_def\<close>)
  from entries_ok_mono [OF this rc_Set_view [OF assms(1,5)]] assms(2) show ?thesis
    by (simp add: resolver_ok_def zones_ok_def same_config_def)
qed

lemma entry_direct:
  assumes "rr_pkg_ok E" and "entry_ok E OS T r0 s (question_key E r question s) cached"
    and "fqdnTrimmed E (q_Name question) \<noteq> ''.''"
  shows "materialize E cached = directAnswer E OS T r0 question s"
proof -
  obtain zones zone resolution ttl where entry: "repo_ListZones (rsv_repo r0) s = Inr zones"
    "Match E T (newZoneIndex OS T zones) (fqdnTrimmed E (q_Name question)) = Some zone"
    and res: "resolveAuthoritative (nat (rsv_maxCNAMEChain r0)) E OS (rsv_repo r0) zone (fqdnTrimmed E (q_Name question))
      (q_Qtype question) (q_Qclass question) s = Inr resolution"
    and frozen: "cacheTTLFor E (rsv_maxCacheTTL r0) (rsv_negativeTTL r0) resolution = Inr ttl"
      "freezeResolution E resolution = Inr cached"
    using assms(2) by (auto simp: entry_ok_def question_key_def)
  have "materialize E cached = Inr resolution"
    using freeze_thaw [OF assms(1) resolveAuthoritative_parsed [OF res] frozen(2)] .
  with entry res frozen assms(3) show ?thesis by (simp add: directAnswer_def)
qed

text \<open>What \<^verbatim>\<open>Resolve\<close> does after it has found the zone.\<close>

lemma Resolve_zone:
  assumes ok: "resolver_ok E OS T H r0 s r1" and E: "rr_pkg_ok E" and H: "hot_pkg_ok H"
    and name: "fqdnTrimmed E (q_Name question) \<noteq> ''.''"
    and m: "matchZone E OS T (fqdnTrimmed E (q_Name question)) s r = (Inr (Some zone), r1)"
    and zones: "repo_ListZones (rsv_repo r0) s = Inr zones"
    and zone: "Match E T (newZoneIndex OS T zones) (fqdnTrimmed E (q_Name question)) = Some zone"
  shows "resolver_ok E OS T H r0 s (snd (Resolve E OS T H question s r)) \<and>
    fst (Resolve E OS T H question s r) = directAnswer E OS T r0 question s"
proof -
  let ?k = "question_key E r0 question s"
  have conf: "same_config r0 r1" using ok by (simp add: resolver_ok_def)
  have key: "\<lparr>key_Revision = rsv_revisionFunc r1 s, key_Name = fqdnTrimmed E (q_Name question),
      key_Type = q_Qtype question, key_Class = q_Qclass question\<rparr> = ?k"
    using conf by (simp add: same_config_def question_key_def)
  obtain found c' where get: "rc_Get H ?k (rsv_cache r1) = (found, c')" by (cases "rc_Get H ?k (rsv_cache r1)")
  note ok2 = resolver_ok_Get [OF H ok get]
  let ?resolve = "resolveAuthoritative (nat (rsv_maxCNAMEChain r0)) E OS (rsv_repo r0) zone (fqdnTrimmed E (q_Name question))
    (q_Qtype question) (q_Qclass question) s"
  consider (hit) cached where "found = Some cached"
    | (stored) resolution ttl frozen where "found = None" "?resolve = Inr resolution"
        "cacheTTLFor E (rsv_maxCacheTTL r0) (rsv_negativeTTL r0) resolution = Inr ttl" "0 < sint ttl"
        "freezeResolution E resolution = Inr frozen"
    | (missed) "found = None" "\<nexists>resolution ttl frozen. ?resolve = Inr resolution \<and>
        cacheTTLFor E (rsv_maxCacheTTL r0) (rsv_negativeTTL r0) resolution = Inr ttl \<and> 0 < sint ttl \<and>
        freezeResolution E resolution = Inr frozen" by blast
  then show ?thesis
  proof cases
    case hit
    then have "entry_ok E OS T r0 s ?k cached"
      using ok rc_Get_view(2) [OF H get] by (auto simp: resolver_ok_def entries_ok_def question_key_def)
    with entry_direct [OF E this name] ok2 hit m get key name show ?thesis
      by (simp add: Resolve_def ResolveAt_def Let_def)
  next
    case stored
    have "entry_ok E OS T r0 s ?k frozen"
      unfolding entry_ok_def using stored zones zone by (auto simp: question_key_def)
    from resolver_ok_Set [OF H ok2 this _ stored(4)]
    have "resolver_ok E OS T H r0 s (r1\<lparr>rsv_cache := rc_Set H ?k frozen ttl c'\<rparr>)" by (simp add: question_key_def)
    moreover have "directAnswer E OS T r0 question s = Inr resolution"
      using stored zones zone name by (simp add: directAnswer_def)
    moreover have "Resolve E OS T H question s r = (Inr resolution, r1\<lparr>rsv_cache := rc_Set H ?k frozen ttl c'\<rparr>)"
      using stored m get key conf name by (simp add: Resolve_def ResolveAt_def Let_def same_config_def)
    ultimately show ?thesis by simp
  next
    case missed
    then have "Resolve E OS T H question s r = (directAnswer E OS T r0 question s, r1\<lparr>rsv_cache := c'\<rparr>)"
      using m get key conf name zones zone
      by (auto simp: Resolve_def ResolveAt_def directAnswer_def Let_def same_config_def split: sum.splits if_splits)
    with ok2 show ?thesis by simp
  qed
qed

lemma Resolve_ok:
  assumes E: "rr_pkg_ok E" and H: "hot_pkg_ok H" and ok: "resolver_ok E OS T H r0 s r"
  shows "resolver_ok E OS T H r0 s (snd (Resolve E OS T H question s r)) \<and>
    fst (Resolve E OS T H question s r) = directAnswer E OS T r0 question s"
proof -
  let ?name = "fqdnTrimmed E (q_Name question)"
  obtain m r1 where m: "matchZone E OS T ?name s r = (m, r1)" by (cases "matchZone E OS T ?name s r")
  note matched = matchZone_ok [OF ok m]
  show ?thesis
  proof (cases "?name = ''.'' \<or> (\<forall>zone. m \<noteq> Inr (Some zone))")
    case True
    then show ?thesis using m matched ok
      by (auto simp: Resolve_def ResolveAt_def directAnswer_def Let_def split: sum.splits option.splits)
  next
    case False
    then obtain zones zone where zones: "repo_ListZones (rsv_repo r0) s = Inr zones"
      "Match E T (newZoneIndex OS T zones) ?name = Some zone" and mz: "m = Inr (Some zone)" "?name \<noteq> ''.''"
      using matched by (auto split: sum.splits)
    from Resolve_zone [OF _ E H mz(2) m [unfolded mz(1)] zones] matched show ?thesis by simp
  qed
qed

section \<open>Serving while the store changes\<close>

text \<open>
  What the cache relies on: a write that changes the store advances its revision, by one or two.
\<close>

locale revisioned =
  fixes R :: "'s Repository" and rev :: "'s \<Rightarrow> uint64" and invar :: "'s \<Rightarrow> bool"
  assumes Revision: "repo_Revision R = Some rev"
    and write_revision: "invar s \<Longrightarrow> repo_write R w s = (x, s') \<Longrightarrow> s' = s \<or> rev s' = rev s + 1 \<or> rev s' = rev s + 2"
    and write_invar: "invar s \<Longrightarrow> repo_write R w s = (x, s') \<Longrightarrow> invar s'"

text \<open>
  The states a resolver and its store can reach: questions, writes, and time passing in the
  cache, in any order, as long as the revision does not wrap around.
\<close>

inductive serving ::
  "('rr, 'x) rr_pkg_scheme \<Rightarrow> 'o set_pkg \<Rightarrow> 'tr trie_pkg \<Rightarrow> 'c cache_pkg \<Rightarrow> ('s, 'c, 'tr) Resolver \<Rightarrow> 's \<Rightarrow>
     ('s, 'c, 'tr) Resolver \<times> 's \<Rightarrow> bool"
  for E :: "('rr, 'x) rr_pkg_scheme" and OS :: "'o set_pkg" and T :: "'tr trie_pkg" and H :: "'c cache_pkg"
    and r0 :: "('s, 'c, 'tr) Resolver" and s0 :: 's
where
  serving_start: "serving E OS T H r0 s0 (r0, s0)"
| serving_query: "serving E OS T H r0 s0 (r, s) \<Longrightarrow> serving E OS T H r0 s0 (snd (Resolve E OS T H question s r), s)"
| serving_write: "serving E OS T H r0 s0 (r, s) \<Longrightarrow> unat (rsv_revisionFunc r0 s) + 2 < 2 ^ 64 \<Longrightarrow>
    serving E OS T H r0 s0 (r, snd (repo_write (rsv_repo r0) w s))"
| serving_time: "serving E OS T H r0 s0 (r, s) \<Longrightarrow> rsv_cache r = Some rc \<Longrightarrow> rc_cache rc = Some cache \<Longrightarrow>
    serving E OS T H r0 s0 (r\<lparr>rsv_cache := Some (rc\<lparr>rc_cache := Some (hot_Pass H t cache)\<rparr>)\<rparr>, s)"

text \<open>A resolver that has not been used.\<close>

definition unused :: "'c cache_pkg \<Rightarrow> ('s, 'c, 'tr) Resolver \<Rightarrow> bool" where
  "unused H r \<longleftrightarrow> \<not> rsv_zonesLoaded r \<and> cache_view H (rsv_cache r) = Map.empty"

lemma unused_ok: "unused H r0 \<Longrightarrow> resolver_ok E OS T H r0 s r0"
  by (simp add: unused_def resolver_ok_def same_config_def zones_ok_def entries_ok_def)

lemma unat_add_small: "unat (v :: uint64) + k < 2 ^ 64 \<Longrightarrow> unat (v + of_nat k) = unat v + k"
  by (simp add: unat_word_ariths unat_of_nat take_bit_eq_mod)

lemma resolver_ok_later:
  assumes "resolver_ok E OS T H r0 s r" and "unat (rsv_revisionFunc r0 s) < unat (rsv_revisionFunc r0 s')"
  shows "resolver_ok E OS T H r0 s' r"
  using assms by (fastforce simp: resolver_ok_def zones_ok_def entries_ok_def)

context revisioned
begin

lemma serving_ok:
  assumes E: "rr_pkg_ok E" and H: "hot_pkg_ok H" and r0: "unused H r0" "rsv_repo r0 = R" "rsv_revisionFunc r0 = rev"
    and s0: "invar s0" and reach: "serving E OS T H r0 s0 (r, s)"
  shows "resolver_ok E OS T H r0 s r \<and> invar s"
  using reach
proof (induction "(r, s)" arbitrary: r s rule: serving.induct)
  case serving_start
  then show ?case using unused_ok [OF r0(1)] s0 by simp
next
  case (serving_query r s question)
  then show ?case using Resolve_ok [OF E H, of OS T r0 s r question] by auto
next
  case (serving_write r s w)
  obtain x s' where w: "repo_write R w s = (x, s')" by (cases "repo_write R w s")
  have "s' = s \<or> unat (rev s) < unat (rev s')"
    using write_revision [OF _ w] serving_write unat_add_small [of "rev s" 1] unat_add_small [of "rev s" 2]
    by (auto simp: r0)
  then show ?case
    using serving_write resolver_ok_later [of E OS T H r0 s r s'] write_invar [OF _ w] by (auto simp: r0 w)
next
  case (serving_time r s rc cache t)
  then have "cache_view H (Some (rc\<lparr>rc_cache := Some (hot_Pass H t cache)\<rparr>)) \<subseteq>\<^sub>m cache_view H (rsv_cache r)"
    using hot_laws(5) [OF H] by (simp add: cache_view_def)
  then show ?case using serving_time entries_ok_mono
    by (fastforce simp: resolver_ok_def zones_ok_def same_config_def)
qed

lemma Resolve_transparent:
  assumes "rr_pkg_ok E" and "hot_pkg_ok H" and "unused H r0" "rsv_repo r0 = R" "rsv_revisionFunc r0 = rev"
    and "invar s0" and "serving E OS T H r0 s0 (r, s)"
  shows "fst (Resolve E OS T H question s r) = fst (Resolve E OS T H question s r0)"
  using serving_ok [OF assms] Resolve_ok [OF assms(1,2)] unused_ok [OF assms(3)] by metis

end

text \<open>Every resolver that \<^verbatim>\<open>NewResolver\<close> makes with the options of the package is unused.\<close>

definition library_option :: "'c cache_pkg \<Rightarrow> ('s, 'c, 'tr) ResolverOption \<Rightarrow> bool" where
  "library_option H opt \<longleftrightarrow> (\<exists>capacity ttl. opt = WithHotCache H capacity ttl) \<or> (\<exists>config. opt = WithCache H config) \<or>
     (\<exists>ttl. opt = WithMaxCacheTTL ttl) \<or> (\<exists>ttl. opt = WithNegativeCacheTTL ttl) \<or> (\<exists>depth. opt = WithMaxCNAMEChain depth)"

lemmas option_defs = WithHotCache_def WithCache_def WithMaxCacheTTL_def WithNegativeCacheTTL_def WithMaxCNAMEChain_def

lemma library_option_keeps:
  assumes "hot_pkg_ok H" and "library_option H opt"
  shows "unused H r \<Longrightarrow> unused H (opt r)" and "rsv_repo (opt r) = rsv_repo r" and "rsv_revisionFunc (opt r) = rsv_revisionFunc r"
    and "0 < sint (rsv_maxCacheTTL r) \<and> 0 < sint (rsv_negativeTTL r) \<and> 0 < rsv_maxCNAMEChain r \<Longrightarrow>
      0 < sint (rsv_maxCacheTTL (opt r)) \<and> 0 < sint (rsv_negativeTTL (opt r)) \<and> 0 < rsv_maxCNAMEChain (opt r)"
  using assms by (auto simp: library_option_def option_defs unused_def Let_def split: if_splits)

lemma NewResolver_options:
  assumes H: "hot_pkg_ok H" and opts: "list_all (library_option H) opts"
  shows "unused H (NewResolver H repo (map Some opts)) \<and> rsv_repo (NewResolver H repo (map Some opts)) = repo \<and>
    rsv_revisionFunc (NewResolver H repo (map Some opts)) =
      (case repo_Revision repo of None \<Rightarrow> (\<lambda>_. 0) | Some revision \<Rightarrow> revision) \<and>
    0 < sint (rsv_maxCacheTTL (NewResolver H repo (map Some opts))) \<and>
    0 < sint (rsv_negativeTTL (NewResolver H repo (map Some opts))) \<and> 0 < rsv_maxCNAMEChain (NewResolver H repo (map Some opts))"
proof -
  have "unused H (fold (\<lambda>opt r. case opt of None \<Rightarrow> r | Some f \<Rightarrow> f r) (map Some opts) r) \<and>
      rsv_repo (fold (\<lambda>opt r. case opt of None \<Rightarrow> r | Some f \<Rightarrow> f r) (map Some opts) r) = rsv_repo r \<and>
      rsv_revisionFunc (fold (\<lambda>opt r. case opt of None \<Rightarrow> r | Some f \<Rightarrow> f r) (map Some opts) r) = rsv_revisionFunc r \<and>
      0 < sint (rsv_maxCacheTTL (fold (\<lambda>opt r. case opt of None \<Rightarrow> r | Some f \<Rightarrow> f r) (map Some opts) r)) \<and>
      0 < sint (rsv_negativeTTL (fold (\<lambda>opt r. case opt of None \<Rightarrow> r | Some f \<Rightarrow> f r) (map Some opts) r)) \<and>
      0 < rsv_maxCNAMEChain (fold (\<lambda>opt r. case opt of None \<Rightarrow> r | Some f \<Rightarrow> f r) (map Some opts) r)"
    if "unused H r" "0 < sint (rsv_maxCacheTTL r) \<and> 0 < sint (rsv_negativeTTL r) \<and> 0 < rsv_maxCNAMEChain r" for r
    using that opts
  proof (induction opts arbitrary: r)
    case (Cons opt opts)
    have "library_option H opt" using Cons.prems by simp
    note keeps = library_option_keeps [OF H this]
    from Cons.IH [of "opt r"] Cons.prems keeps(1) [of r] keeps(2,3) [of r] keeps(4) [of r] show ?case by simp
  qed simp
  then show ?thesis using H by (simp add: NewResolver_def unused_def Let_def)
qed

interpretation mem_rev: revisioned "memory_repo E M" "\<lambda>s. ms_Revision (Some s)" "\<lambda>_. True" for E M
proof
  fix w s x s'
  assume "repo_write (memory_repo E M) w s = (x, s')"
  then show "s' = s \<or> ms_Revision (Some s') = ms_Revision (Some s) + 1 \<or> ms_Revision (Some s') = ms_Revision (Some s) + 2"
    by (cases w) (auto simp: memory_repo_def ms_SaveZone_def ms_DeleteZone_def ms_SaveRecord_def ms_DeleteRecord_def
        ms_Revision_def split: sum.splits)
qed (simp_all add: memory_repo_def)

section \<open>Properties\<close>

text \<open>
  C8: The cache and the zone index do not show. In every state that a resolver on a memory store
  can reach, by questions, writes to the store and time passing in any order, it answers a question as
  a resolver would that is made anew on the same store.
\<close>

theorem Resolve_cache_transparent:
  assumes "rr_pkg_ok E" and "hot_pkg_ok H" and "list_all (library_option H) opts"
    and "serving E OS T H (NewResolver H (memory_repo E M) (map Some opts)) (NewMemoryStore M) (r, s)"
  shows "fst (Resolve E OS T H question s r) =
    fst (Resolve E OS T H question s (NewResolver H (memory_repo E M) (map Some opts)))"
  by (rule mem_rev.Resolve_transparent [OF assms(1,2) _ _ _ _ assms(4)])
    (use NewResolver_options [OF assms(2,3), of "memory_repo E M"] in \<open>simp_all add: memory_repo_def\<close>)

definition www_question :: Question where
  "www_question = \<lparr>q_Name = ''WWW.sub.Example.org'', q_Qtype = TypeA, q_Qclass = ClassINET\<rparr>"

definition sub_record :: "string \<Rightarrow> string \<Rightarrow> Record" where
  "sub_record zone address = \<lparr>rec_Zone = zone, rec_Name = ''www.sub.example.org.'', rec_TTL = 300, rec_Class = ClassINET,
     rec_Type = TypeA, rec_Data = address\<rparr>"

abbreviation ref_resolver :: "(_, (queryCacheKey, cachedResponse) ref_cache, (string \<times> string) list) Resolver" where
  "ref_resolver \<equiv> NewResolver hot_ref (memory_repo rr_ref mapping_ref) []"

definition store1 where
  "store1 = snd (repo_write (memory_repo rr_ref mapping_ref) (WriteSaveRecord (sub_record ''example.org.'' ''192.0.2.1''))
     (NewMemoryStore mapping_ref))"

definition store2 where
  "store2 = snd (repo_write (memory_repo rr_ref mapping_ref) (WriteSaveRecord (sub_record ''sub.example.org.'' ''192.0.2.2'')) store1)"

abbreviation ref_Resolve where "ref_Resolve \<equiv> Resolve rr_ref set_ref trie_ref hot_ref"

definition www_answer :: "string \<Rightarrow> ref_rr Resolution" where
  "www_answer address = \<lparr>rsn_RCode = RcodeSuccess, rsn_Answer = [Some \<lparr>rf_name = ''www.sub.example.org.'', rf_ttl = 300,
     rf_class = ClassINET, rf_type = TypeA, rf_data = address\<rparr>], rsn_Authority = [], rsn_Extra = [], rsn_Authoritative = True\<rparr>"

text \<open>A question, a write that puts a new zone below the old one, and the question again.\<close>

theorem Resolve_cache_transparent_witness:
  "fst (ref_Resolve www_question store1 (snd (ref_Resolve www_question store1 ref_resolver))) = Inr (www_answer ''192.0.2.1'') \<and>
   fst (ref_Resolve www_question store2 (snd (ref_Resolve www_question store1 ref_resolver))) = Inr (www_answer ''192.0.2.2'')"
proof -
  let ?R = "NewResolver hot_ref (memory_repo rr_ref mapping_ref) (map Some [])"
  have small: "unat (rsv_revisionFunc ?R (NewMemoryStore mapping_ref)) + 2 < 2 ^ 64" "unat (rsv_revisionFunc ?R store1) + 2 < 2 ^ 64"
  proof -
    have rev: "rsv_revisionFunc ?R s = ms_revision s" for s
      by (simp add: NewResolver_def memory_repo_def ms_Revision_def Let_def)
    have "ms_revision (NewMemoryStore mapping_ref) = 0" by (simp add: NewMemoryStore_def)
    moreover have "ms_revision store1 = 1" by code_simp
    ultimately show "unat (rsv_revisionFunc ?R (NewMemoryStore mapping_ref)) + 2 < 2 ^ 64" "unat (rsv_revisionFunc ?R store1) + 2 < 2 ^ 64"
      unfolding rev by simp_all
  qed
  have repo: "rsv_repo ?R = memory_repo rr_ref mapping_ref" by (simp add: NewResolver_def)
  have "serving rr_ref set_ref trie_ref hot_ref ?R (NewMemoryStore mapping_ref) (?R, store1)"
    by (rule serving_write [OF serving_start small(1), where w = "WriteSaveRecord (sub_record ''example.org.'' ''192.0.2.1'')",
          unfolded repo, folded store1_def])
  then have after_query: "serving rr_ref set_ref trie_ref hot_ref ?R (NewMemoryStore mapping_ref)
      (snd (ref_Resolve www_question store1 ?R), store1)" by (rule serving_query)
  have after_write: "serving rr_ref set_ref trie_ref hot_ref ?R (NewMemoryStore mapping_ref)
      (snd (ref_Resolve www_question store1 ?R), store2)"
    by (rule serving_write [OF after_query small(2), where w = "WriteSaveRecord (sub_record ''sub.example.org.'' ''192.0.2.2'')",
          unfolded repo, folded store2_def])
  have fresh: "fst (ref_Resolve www_question store1 ref_resolver) = Inr (www_answer ''192.0.2.1'')"
    "fst (ref_Resolve www_question store2 ref_resolver) = Inr (www_answer ''192.0.2.2'')" by code_simp+
  have no_opts: "list_all (library_option hot_ref) []" by simp
  from Resolve_cache_transparent [OF rr_ref_ok hot_ref_ok no_opts after_query, of www_question]
    Resolve_cache_transparent [OF rr_ref_ok hot_ref_ok no_opts after_write, of www_question] fresh
  show ?thesis by simp
qed

text \<open>
  \<^verbatim>\<open>Resolve\<close> reads the store more than once, and a write in between can poison the cache: when a
  zone is added after the zone of the name was chosen and before the revision is read, the answer from
  the old zone is kept under the new revision, and the next question gets it although the
  resolver is asked after the write.
\<close>

theorem Resolve_race_serves_stale_zone:
  "let r = snd (ResolveAt rr_ref set_ref trie_ref hot_ref www_question store1 store2 store2 ref_resolver) in
   fst (ref_Resolve www_question store2 r) = Inr (www_answer ''192.0.2.1'') \<and>
   fst (ref_Resolve www_question store2 ref_resolver) = Inr (www_answer ''192.0.2.2'')"
  by code_simp

lemma minTTLLoop_total: "None \<notin> set rrs \<Longrightarrow> \<exists>m. minTTLLoop E t rrs = Inr m"
  by (induction E t rrs rule: minTTLLoop.induct) (auto simp: Let_def)

lemma cacheTTLFor_total: "None \<notin> set (sections res) \<Longrightarrow> \<exists>ttl. cacheTTLFor E maxTTL negTTL res = Inr ttl"
  using minTTLLoop_total [of "sections res" E 0] by (auto simp: cacheTTLFor_def Let_def)

lemma directAnswer_zone:
  assumes "fqdnTrimmed E (q_Name question) = n" and "n \<noteq> ''.''" and "repo_ListZones (rsv_repo r) s = Inr zones"
  shows "case Match E T (newZoneIndex OS T zones) n of
      None \<Rightarrow> directAnswer E OS T r question s = Inr (refusedResolution RcodeRefused)
    | Some z \<Rightarrow>
       (case resolveAuthoritative (nat (rsv_maxCNAMEChain r)) E OS (rsv_repo r) z n (q_Qtype question) (q_Qclass question) s of
          Inl err \<Rightarrow> directAnswer E OS T r question s = Inl err
        | Inr res \<Rightarrow> None \<notin> set (sections res) \<longrightarrow> directAnswer E OS T r question s = Inr res)"
proof -
  have "directAnswer E OS T r question s = Inr res"
    if none: "None \<notin> set (sections res)" and z: "Match E T (newZoneIndex OS T zones) n = Some z"
      "resolveAuthoritative (nat (rsv_maxCNAMEChain r)) E OS (rsv_repo r) z n (q_Qtype question) (q_Qclass question) s = Inr res" for z res
  proof -
    obtain ttl cr where "cacheTTLFor E (rsv_maxCacheTTL r) (rsv_negativeTTL r) res = Inr ttl" "freezeResolution E res = Inr cr"
      using cacheTTLFor_total [OF none] freeze_total [OF none] by blast
    with assms z show ?thesis by (auto simp: directAnswer_def)
  qed
  then show ?thesis using assms by (auto simp: directAnswer_def split: option.split sum.split)
qed

context repository
begin

text \<open>The index over the zones that a back end lists finds the longest zone of its content.\<close>

lemma Match_zones:
  assumes "invar s" and "set_pkg_ok OS" and "trie_pkg_ok T" and "plain name" and "fqdnName E name \<noteq> ''.''"
  shows "\<exists>zs. repo_ListZones R s = Inr zs \<and>
    (case Match E T (newZoneIndex OS T zs) (fqdnName E name) of
       None \<Rightarrow> {z \<in> abs_zones (content s). in_zone z (fqdnName E name)} = {}
     | Some z \<Rightarrow> z \<in> abs_zones (content s) \<and> in_zone z (fqdnName E name) \<and>
         (\<forall>z' \<in> abs_zones (content s). in_zone z' (fqdnName E name) \<longrightarrow> length z' \<le> length z))"
proof -
  note E = names_ok [OF assms(1)]
  obtain zs where zs: "repo_ListZones R s = Inr zs" "map zone_Name zs = sorted_list_of_set (abs_zones (content s))"
    using ListZones [OF assms(1)] by blast
  then have set_zs: "zone_Name ` set zs = abs_zones (content s)"
    using finite_zones [OF assms(1)] by (metis list.set_map set_sorted_list_of_set)
  have normal: "dns_name z \<and> z \<noteq> ''.''" if "z \<in> zone_Name ` set zs" for z
  proof -
    have "normal_zone E z" using that set_zs abs_wf [OF assms(1)] by (auto simp: abs_wf_def)
    then have "plain z" "fqdnName E z = z" "z \<noteq> ''.''" by (auto simp: normal_zone_def NormalizeZoneName_Inr)
    with fqdnName_plain(1) [OF E, of z] show ?thesis by simp
  qed
  from Match_newZoneIndex [where zones = zs, OF E assms(2,3) normal fqdnName_plain(1) [OF E assms(4)] assms(5)] zs(1)
  show ?thesis by (auto simp: is_zone_of_def set_zs split: option.splits)
qed

end

text \<open>
  C22: \<^verbatim>\<open>Resolve\<close> answers the root name with FORMERR, a name outside every zone of the store with
  REFUSED and no authority, and every other name from the zone with the longest name that contains
  it, whatever the state of the cache.
\<close>

theorem Resolve_uses_longest_zone:
  assumes "rr_pkg_ok E" and "hot_pkg_ok H" and "set_pkg_ok OS" and "trie_pkg_ok T" and "list_all (library_option H) opts"
    and "serving E OS T H (NewResolver H (memory_repo E M) (map Some opts)) (NewMemoryStore M) (r, s)"
    and "mem_inv E M s" and "plain (q_Name question)"
  shows "let n = fqdnName E (q_Name question); zones = {z \<in> abs_zones (mem_content M s). in_zone z n};
      answer = fst (Resolve E OS T H question s r) in
    if n = ''.'' then answer = Inr (refusedResolution RcodeFormatError)
    else if zones = {} then answer = Inr (refusedResolution RcodeRefused)
    else \<exists>z \<in> zones. (\<forall>z' \<in> zones. length z' \<le> length z) \<and>
      (case resolveAuthoritative (nat (rsv_maxCNAMEChain (NewResolver H (memory_repo E M) (map Some opts)))) E OS
              (memory_repo E M) z n (q_Qtype question) (q_Qclass question) s of
         Inl err \<Rightarrow> answer = Inl err
       | Inr res \<Rightarrow> None \<notin> set (sections res) \<longrightarrow> answer = Inr res)"
proof -
  let ?r0 = "NewResolver H (memory_repo E M) (map Some opts)" and ?n = "fqdnName E (q_Name question)"
  note r0 = NewResolver_options [OF assms(2,5), of "memory_repo E M"]
  have name: "fqdnTrimmed E (q_Name question) = ?n" by (rule fqdnTrimmed_fqdnName [OF assms(8)])
  have "resolver_ok E OS T H ?r0 s r"
    by (rule mem_rev.serving_ok [OF assms(1,2) _ _ _ _ assms(6), THEN conjunct1])
      (use r0 in \<open>simp_all add: memory_repo_def\<close>)
  then have answer: "fst (Resolve E OS T H question s r) = directAnswer E OS T ?r0 question s"
    by (rule Resolve_ok [OF assms(1,2), THEN conjunct2])
  show ?thesis
  proof (cases "?n = ''.''")
    case True
    then show ?thesis using name by (simp add: answer directAnswer_def)
  next
    case False
    obtain zs where zs: "repo_ListZones (memory_repo E M) s = Inr zs" and
      Match: "case Match E T (newZoneIndex OS T zs) ?n of
        None \<Rightarrow> {z \<in> abs_zones (mem_content M s). in_zone z ?n} = {}
      | Some z \<Rightarrow> z \<in> abs_zones (mem_content M s) \<and> in_zone z ?n \<and>
          (\<forall>z' \<in> abs_zones (mem_content M s). in_zone z' ?n \<longrightarrow> length z' \<le> length z)"
      using mem.Match_zones [OF assms(7,3,4,8) False] by blast
    then have "repo_ListZones (rsv_repo ?r0) s = Inr zs" using r0 by simp
    note direct = directAnswer_zone [OF name False this, where OS = OS and T = T]
    show ?thesis
    proof (cases "Match E T (newZoneIndex OS T zs) ?n")
      case None
      with Match direct False show ?thesis unfolding Let_def by (simp add: answer)
    next
      case (Some z)
      then have z: "z \<in> {z \<in> abs_zones (mem_content M s). in_zone z ?n}"
        "\<forall>z' \<in> {z \<in> abs_zones (mem_content M s). in_zone z ?n}. length z' \<le> length z" using Match by auto
      then have "{z \<in> abs_zones (mem_content M s). in_zone z ?n} \<noteq> {}" by blast
      with z direct r0 False Some show ?thesis
        unfolding Let_def answer if_not_P [OF False] by (simp only: if_False) (rule bexI [of _ z], simp_all)
    qed
  qed
qed

theorem Resolve_uses_longest_zone_witness:
  "fst (ref_Resolve \<lparr>q_Name = ''www.example.com'', q_Qtype = TypeA, q_Qclass = ClassINET\<rparr> (NewMemoryStore mapping_ref) ref_resolver) =
     Inr (refusedResolution RcodeRefused)"
proof -
  let ?q = "\<lparr>q_Name = ''www.example.com'', q_Qtype = TypeA, q_Qclass = ClassINET\<rparr>"
  have facts: "plain (q_Name ?q)" "fqdnName rr_ref (q_Name ?q) \<noteq> ''.''" by code_simp+
  have inv: "mem_inv rr_ref mapping_ref (NewMemoryStore mapping_ref)" by (simp add: mem_inv_New)
  have empty: "abs_zones (mem_content mapping_ref (NewMemoryStore mapping_ref)) = {}" by (simp add: mem_content_New)
  have no_opts: "list_all (library_option hot_ref) []" by simp
  have "serving rr_ref set_ref trie_ref hot_ref (NewResolver hot_ref (memory_repo rr_ref mapping_ref) (map Some []))
      (NewMemoryStore mapping_ref) (ref_resolver, NewMemoryStore mapping_ref)" using serving_start by simp
  from Resolve_uses_longest_zone [OF rr_ref_ok hot_ref_ok set_ref_ok trie_ref_ok no_opts this inv facts(1)] facts(2)
  show ?thesis by (simp add: empty)
qed

end
