(* ===== verification/Bbolt_Store.thy ===== *)
theory Bbolt_Store
  imports Query
begin

text \<open>
  The store on a bbolt database: \<^verbatim>\<open>dnsserver/store/bbolt/store.go\<close> and \<^verbatim>\<open>records.go\<close>. It meets the same
  contract as the memory store, so the lemmas about managers and resolvers hold for it too.
\<close>

section \<open>Buckets: github.com/arcgolabs/storx/bboltx\<close>

text \<open>
  The functions of the two typed buckets of a database \<open>'d\<close>: the keys are strings, the values zones and
  records, stored as JSON; \<open>rb_codec\<close> is a record after it was encoded and decoded. \<open>rb_Update\<close> runs a function on a
  transaction \<open>'t\<close> and commits what it did unless it returns an error. \<open>db_usable\<close> says that the
  database is open and its file can be read and written; \<open>zb_view\<close>, \<open>rb_view\<close> and \<open>tx_view\<close> are used
  to state the behaviour.
\<close>

record ('d, 't) bolt_pkg =
  zb_Put :: "string \<Rightarrow> Zone \<Rightarrow> 'd \<Rightarrow> (string + unit) \<times> 'd"
  zb_Delete :: "string \<Rightarrow> 'd \<Rightarrow> (string + unit) \<times> 'd"
  zb_ForEach :: "'d \<Rightarrow> string + (string \<times> Zone) list"
  rb_Put :: "string \<Rightarrow> Record \<Rightarrow> 'd \<Rightarrow> (string + unit) \<times> 'd"
  rb_Delete :: "string \<Rightarrow> 'd \<Rightarrow> (string + unit) \<times> 'd"
  rb_Values :: "string option \<Rightarrow> 'd \<Rightarrow> string + Record list"
  rb_Update :: "('t \<Rightarrow> (error + unit) \<times> 't) \<Rightarrow> 'd \<Rightarrow> (error + unit) \<times> 'd"
  tx_ScanPrefix :: "string \<Rightarrow> 't \<Rightarrow> string + (string \<times> Record) list"
  tx_Delete :: "string \<Rightarrow> 't \<Rightarrow> (string + unit) \<times> 't"
  db_Close :: "'d \<Rightarrow> (string + unit) \<times> 'd"
  rb_codec :: "Record \<Rightarrow> Record"
  db_usable :: "'d \<Rightarrow> bool"
  zb_view :: "'d \<Rightarrow> string \<rightharpoonup> Zone"
  rb_view :: "'d \<Rightarrow> string \<rightharpoonup> Record"
  tx_view :: "'t \<Rightarrow> string \<rightharpoonup> Record"

text \<open>A list of the entries of a finite map, each once.\<close>

definition entries_of :: "('k \<times> 'v) list \<Rightarrow> ('k \<rightharpoonup> 'v) \<Rightarrow> bool" where
  "entries_of kvs m \<longleftrightarrow> distinct (map fst kvs) \<and> map_of kvs = m"

text \<open>
  Documented behaviour of a usable database: the buckets are maps, a committed transaction is
  what the function left, one that fails changes nothing, and a scan sees the entries whose keys
  have the prefix.
\<close>

definition bolt_pkg_ok :: "('d, 't) bolt_pkg \<Rightarrow> bool" where
  "bolt_pkg_ok B \<longleftrightarrow>
     (\<forall>d. db_usable B d \<longrightarrow>
        (\<forall>k v. \<exists>d'. zb_Put B k v d = (Inr (), d') \<and> db_usable B d' \<and> zb_view B d' = (zb_view B d)(k \<mapsto> v) \<and> rb_view B d' = rb_view B d) \<and>
        (\<forall>k. \<exists>d'. zb_Delete B k d = (Inr (), d') \<and> db_usable B d' \<and> zb_view B d' = (zb_view B d)(k := None) \<and> rb_view B d' = rb_view B d) \<and>
        (\<exists>kvs. zb_ForEach B d = Inr kvs \<and> entries_of kvs (zb_view B d)) \<and>
        (\<forall>k v. \<exists>d'. rb_Put B k v d = (Inr (), d') \<and> db_usable B d' \<and> rb_view B d' = (rb_view B d)(k \<mapsto> rb_codec B v) \<and> zb_view B d' = zb_view B d) \<and>
        (\<forall>k. \<exists>d'. rb_Delete B k d = (Inr (), d') \<and> db_usable B d' \<and> rb_view B d' = (rb_view B d)(k := None) \<and> zb_view B d' = zb_view B d) \<and>
        (\<forall>p. \<exists>kvs. entries_of kvs (rb_view B d) \<and>
           rb_Values B p d = Inr (map snd (filter (\<lambda>kv. case p of None \<Rightarrow> True | Some pre \<Rightarrow> prefix pre (fst kv)) kvs))) \<and>
        (\<forall>f. \<exists>t. tx_view B t = rb_view B d \<and>
           (case f t of
              (Inl err, _) \<Rightarrow> rb_Update B f d = (Inl err, d)
            | (Inr _, t') \<Rightarrow> \<exists>d'. rb_Update B f d = (Inr (), d') \<and> db_usable B d' \<and> rb_view B d' = tx_view B t' \<and> zb_view B d' = zb_view B d))) \<and>
     (\<forall>t p. \<exists>kvs. entries_of kvs (tx_view B t) \<and> tx_ScanPrefix B p t = Inr (filter (\<lambda>kv. prefix p (fst kv)) kvs)) \<and>
     (\<forall>t k. \<exists>t'. tx_Delete B k t = (Inr (), t') \<and> tx_view B t' = (tx_view B t)(k := None))"

text \<open>The codec reproduces records: JSON does when their strings are valid UTF-8.\<close>

definition lossless_codec :: "('d, 't) bolt_pkg \<Rightarrow> bool" where
  "lossless_codec B \<longleftrightarrow> (\<forall>r. rb_codec B r = r)"

section \<open>The store\<close>

record 'd Store =
  bs_db :: 'd
  bs_closed :: bool
  bs_revision :: uint64

definition bs_New :: "'d \<Rightarrow> 'd Store" where
  "bs_New db = \<lparr>bs_db = db, bs_closed = False, bs_revision = 0\<rparr>"

definition bs_Revision :: "'d Store option \<Rightarrow> uint64" where
  "bs_Revision s = (case s of None \<Rightarrow> 0 | Some st \<Rightarrow> bs_revision st)"

definition bs_Close :: "('d, 't) bolt_pkg \<Rightarrow> (error, unit, 'd Store) action" where
  "bs_Close B s =
     (if bs_closed s then (Inr (), s)
      else
        case db_Close B (bs_db s) of
          (Inl err, d') \<Rightarrow> (Inl (External err), s\<lparr>bs_closed := True, bs_db := d'\<rparr>)
        | (Inr _, d') \<Rightarrow> (Inr (), s\<lparr>bs_closed := True, bs_db := d'\<rparr>))"

definition bs_SaveZone :: "'x names_pkg_scheme \<Rightarrow> ('d, 't) bolt_pkg \<Rightarrow> Zone \<Rightarrow> (error, unit, 'd Store) action" where
  "bs_SaveZone E B zone s =
     (case NormalizeZoneName E (zone_Name zone) of
        Inl err \<Rightarrow> (Inl err, s)
      | Inr normalized \<Rightarrow>
         (case zb_Put B normalized \<lparr>zone_Name = normalized\<rparr> (bs_db s) of
            (Inl err, d') \<Rightarrow> (Inl (External err), s\<lparr>bs_db := d'\<rparr>)
          | (Inr _, d') \<Rightarrow> (Inr (), s\<lparr>bs_db := d', bs_revision := bs_revision s + 1\<rparr>)))"

text \<open>The function \<^verbatim>\<open>DeleteZone\<close> runs in a transaction: collect the keys, then delete them.\<close>

fun deleteKeys :: "('d, 't) bolt_pkg \<Rightarrow> string list \<Rightarrow> (error, unit, 't) action" where
  "deleteKeys B [] t = (Inr (), t)"
| "deleteKeys B (key # keys) t =
     (case tx_Delete B key t of
        (Inl err, t') \<Rightarrow> (Inl (External err), t')
      | (Inr _, t') \<Rightarrow> deleteKeys B keys t')"

definition deleteZoneRecords :: "('d, 't) bolt_pkg \<Rightarrow> string \<Rightarrow> (error, unit, 't) action" where
  "deleteZoneRecords B pre t =
     (case tx_ScanPrefix B pre t of
        Inl err \<Rightarrow> (Inl (External err), t)
      | Inr kvs \<Rightarrow> deleteKeys B (map fst kvs) t)"

definition bs_DeleteZone :: "'x names_pkg_scheme \<Rightarrow> ('d, 't) bolt_pkg \<Rightarrow> string \<Rightarrow> (error, unit, 'd Store) action" where
  "bs_DeleteZone E B zone s =
     (case NormalizeZoneName E zone of
        Inl err \<Rightarrow> (Inl err, s)
      | Inr normalized \<Rightarrow>
         (case zb_Delete B normalized (bs_db s) of
            (Inl err, d') \<Rightarrow> (Inl (External err), s\<lparr>bs_db := d'\<rparr>)
          | (Inr _, d') \<Rightarrow>
             (case rb_Update B (deleteZoneRecords B (normalized @ ''|'')) d' of
                (Inl err, d'') \<Rightarrow> (Inl err, s\<lparr>bs_db := d''\<rparr>)
              | (Inr _, d'') \<Rightarrow> (Inr (), s\<lparr>bs_db := d'', bs_revision := bs_revision s + 1\<rparr>))))"

definition bs_ListZones :: "('d, 't) bolt_pkg \<Rightarrow> 'd Store \<Rightarrow> error + Zone list" where
  "bs_ListZones B s =
     (case zb_ForEach B (bs_db s) of
        Inl err \<Rightarrow> Inl (External err)
      | Inr kvs \<Rightarrow> Inr (SortFunc (\<lambda>left right. three_way (zone_Name left) (zone_Name right)) (map snd kvs)))"

definition bs_SaveRecord :: "'x names_pkg_scheme \<Rightarrow> ('d, 't) bolt_pkg \<Rightarrow> Record \<Rightarrow> (error, unit, 'd Store) action" where
  "bs_SaveRecord E B record s =
     (case NormalizeRecord E record of
        Inl err \<Rightarrow> (Inl err, s)
      | Inr normalized \<Rightarrow>
         (case bs_SaveZone E B \<lparr>zone_Name = rec_Zone normalized\<rparr> s of
            (Inl err, s1) \<Rightarrow> (Inl err, s1)
          | (Inr _, s1) \<Rightarrow>
             (case rb_Put B (Key E normalized) normalized (bs_db s1) of
                (Inl err, d') \<Rightarrow> (Inl (External err), s1\<lparr>bs_db := d'\<rparr>)
              | (Inr _, d') \<Rightarrow> (Inr (), s1\<lparr>bs_db := d', bs_revision := bs_revision s1 + 1\<rparr>))))"

definition bs_DeleteRecord :: "'x names_pkg_scheme \<Rightarrow> ('d, 't) bolt_pkg \<Rightarrow> Record \<Rightarrow> (error, unit, 'd Store) action" where
  "bs_DeleteRecord E B record s =
     (case NormalizeRecord E record of
        Inl err \<Rightarrow> (Inl err, s)
      | Inr normalized \<Rightarrow>
         (case rb_Delete B (Key E normalized) (bs_db s) of
            (Inl err, d') \<Rightarrow> (Inl (External err), s\<lparr>bs_db := d'\<rparr>)
          | (Inr _, d') \<Rightarrow> (Inr (), s\<lparr>bs_db := d', bs_revision := bs_revision s + 1\<rparr>)))"

section \<open>Reads\<close>

definition scanRecordsByPrefix :: "('d, 't) bolt_pkg \<Rightarrow> string \<Rightarrow> 'd Store \<Rightarrow> error + Record list" where
  "scanRecordsByPrefix B pre s =
     (case rb_Values B (if pre \<noteq> [] then Some pre else None) (bs_db s) of
        Inl err \<Rightarrow> Inl (External err)
      | Inr records \<Rightarrow> Inr records)"

definition filterAndSortRecords :: "Record list \<Rightarrow> RecordFilter \<Rightarrow> Record list" where
  "filterAndSortRecords records filt =
     SortFunc CompareRecords (filter (\<lambda>record. RecordMatchesFilter record filt) records)"

definition bs_ListRecords :: "'x names_pkg_scheme \<Rightarrow> ('d, 't) bolt_pkg \<Rightarrow> RecordFilter \<Rightarrow> 'd Store \<Rightarrow> error + Record list" where
  "bs_ListRecords E B filt s =
     (case NormalizeRecordFilter E filt of
        Inl err \<Rightarrow> Inl err
      | Inr normalizedFilter \<Rightarrow>
         (case scanRecordsByPrefix B (RecordListPrefix normalizedFilter) s of
            Inl err \<Rightarrow> Inl err
          | Inr records \<Rightarrow> Inr (filterAndSortRecords records normalizedFilter)))"

definition lookupByPrefix :: "('d, 't) bolt_pkg \<Rightarrow> string \<Rightarrow> uint16 \<Rightarrow> 'd Store \<Rightarrow> error + Record list" where
  "lookupByPrefix B pre qclass s =
     (case scanRecordsByPrefix B pre s of
        Inl err \<Rightarrow> Inl err
      | Inr records \<Rightarrow>
         Inr (SortFunc CompareRecordsByData (filter (\<lambda>record. qclass = ClassANY \<or> rec_Class record = qclass) records)))"

definition bs_Lookup ::
  "'x names_pkg_scheme \<Rightarrow> ('d, 't) bolt_pkg \<Rightarrow> string \<Rightarrow> string \<Rightarrow> uint16 \<Rightarrow> uint16 \<Rightarrow> 'd Store \<Rightarrow> error + Record list" where
  "bs_Lookup E B zone name qtype qclass s =
     (case NormalizeLookup E zone name of
        Inl err \<Rightarrow> Inl err
      | Inr (z, n) \<Rightarrow> lookupByPrefix B (RecordPrefix z n qtype) qclass s)"

definition bs_LookupAll ::
  "'x names_pkg_scheme \<Rightarrow> ('d, 't) bolt_pkg \<Rightarrow> string \<Rightarrow> string \<Rightarrow> uint16 \<Rightarrow> 'd Store \<Rightarrow> error + Record list" where
  "bs_LookupAll E B zone name qclass s =
     (case NormalizeLookup E zone name of
        Inl err \<Rightarrow> Inl err
      | Inr (z, n) \<Rightarrow> lookupByPrefix B (RecordPrefix z n TypeANY) qclass s)"

definition bbolt_repo :: "'x names_pkg_scheme \<Rightarrow> ('d, 't) bolt_pkg \<Rightarrow> 'd Store Repository" where
  "bbolt_repo E B =
     \<lparr>repo_SaveZone = bs_SaveZone E B, repo_DeleteZone = bs_DeleteZone E B, repo_ListZones = bs_ListZones B,
      repo_SaveRecord = bs_SaveRecord E B, repo_DeleteRecord = bs_DeleteRecord E B,
      repo_ListRecords = bs_ListRecords E B, repo_Lookup = bs_Lookup E B, repo_LookupAll = bs_LookupAll E B,
      repo_Revision = Some (\<lambda>s. bs_Revision (Some s))\<rparr>"

section \<open>Prefixes of keys\<close>

lemma hexDigit_no_bar: "n < 16 \<Longrightarrow> hexDigit n \<noteq> CHR ''|''"
proof
  assume n: "n < 16" and eq: "hexDigit n = CHR ''|''"
  from eq have "(of_char (hexDigit n) :: nat) = of_char (CHR ''|'')" by simp
  with n show False by (simp add: hexDigit_def split: if_splits)
qed

lemma fingerprint_no_bar: "CHR ''|'' \<notin> set (fingerprint E r)"
proof -
  have "hexDigit (of_char c div 16) \<noteq> CHR ''|''" "hexDigit (of_char c mod 16) \<noteq> CHR ''|''" for c :: char
  proof -
    have "(of_char c :: nat) < 16 * 16" using nat_of_char_less_256 [of c] by simp
    then show "hexDigit (of_char c div 16) \<noteq> CHR ''|''"
      by (intro hexDigit_no_bar less_mult_imp_div_less)
    show "hexDigit (of_char c mod 16) \<noteq> CHR ''|''" by (intro hexDigit_no_bar) simp
  qed
  then have "CHR ''|'' \<notin> set (hexEncode s)" for s by (fastforce simp: hexEncode_def)
  then show ?thesis by (simp add: fingerprint_def)
qed

lemma dec_pad_not_Nil [simp]: "dec_pad w n \<noteq> []"
  by (simp add: dec_pad_def)

lemma dec_pad_no_dot: "\<not> suffix ''.'' (dec_pad w n)"
proof -
  have "CHR ''.'' \<notin> set (dec_pad w n)" by (rule digits_no_char [OF dec_pad_digits]) (simp add: isDigit_def)
  then show ?thesis by (auto simp: suffix_def)
qed

lemma dec_pad_end_no_dot: "\<not> suffix ''.'' (s @ dec_pad w n)"
proof
  assume "suffix ''.'' (s @ dec_pad w n)"
  then have "last (dec_pad w n) = CHR ''.''" by (auto simp: suffix_def) (metis dec_pad_not_Nil last_appendR last_snoc)
  then have "suffix ''.'' (dec_pad w n)" by (metis append_butlast_last_id dec_pad_not_Nil suffixI)
  then show False using dec_pad_no_dot by blast
qed

text \<open>
  A key has three bars. A name that ends in a dot cannot reach into the digits of the type, so a
  prefix made of a zone and such a name selects the records of that zone and name, even where zone or
  name contain bars.
\<close>

lemma split_Key:
  assumes "plain_record r"
  shows "split_on (CHR ''|'') (Key E r) = [rec_Zone r, rec_Name r, dec_pad 5 (unat (rec_Type r)), fingerprint E r]"
  using assms fingerprint_no_bar [of E r]
  by (simp add: Key_def plain_record_def split_on_append_sep split_on_no_sep)

lemma prefix_row_key_Key:
  assumes "plain_record r" and "suffix ''.'' n"
  shows "prefix (row_key z n) (Key E r) \<longleftrightarrow> rec_Zone r = z \<and> rec_Name r = n"
proof
  assume "prefix (row_key z n) (Key E r)"
  then obtain w where "Key E r = z @ CHR ''|'' # n @ CHR ''|'' # w" by (auto simp: prefix_def row_key_def)
  then have parts: "split_on (CHR ''|'') z @ split_on (CHR ''|'') n @ split_on (CHR ''|'') w =
      [rec_Zone r, rec_Name r, dec_pad 5 (unat (rec_Type r)), fingerprint E r]"
    using split_Key [OF assms(1), of E] by (simp add: split_on_append_sep)
  obtain zs ns ws where s: "split_on (CHR ''|'') z = zs" "split_on (CHR ''|'') n = ns" "split_on (CHR ''|'') w = ws" by blast
  have ne: "zs \<noteq> []" "ns \<noteq> []" "ws \<noteq> []" using split_on_not_Nil s by blast+
  have joined: "Join zs ''|'' = z" "Join ns ''|'' = n" using Join_split_on s by auto
  have last: "\<not> suffix ''.'' (Join ns ''|'')" if "ns = [dec_pad 5 (unat (rec_Type r))] \<or> ns = [rec_Name r, dec_pad 5 (unat (rec_Type r))]"
    using that dec_pad_no_dot [of 5 "unat (rec_Type r)"]
      dec_pad_end_no_dot [of "rec_Name r @ ''|''" 5 "unat (rec_Type r)"] by auto
  from parts ne last joined assms(2) s show "rec_Zone r = z \<and> rec_Name r = n"
    by (auto simp: append_eq_Cons_conv)
qed (auto simp: prefix_def row_key_def Key_def)

lemma prefix_RecordPrefix_Key:
  assumes "plain_record r" and "suffix ''.'' n"
  shows "prefix (RecordPrefix z n qt) (Key E r) \<longleftrightarrow>
    rec_Zone r = z \<and> rec_Name r = n \<and> (qt = TypeANY \<or> rec_Type r = qt)"
proof (cases "qt = TypeANY")
  case True
  then show ?thesis using prefix_row_key_Key [OF assms] by (simp add: RecordPrefix_ANY)
next
  case False
  have pre: "RecordPrefix z n qt = row_key z n @ dec_pad 5 (unat qt) @ ''|''"
    using False by (simp add: RecordPrefix_def row_key_def Let_def)
  have "prefix (row_key z n) (Key E r)" if "prefix (RecordPrefix z n qt) (Key E r)"
    using that by (auto simp: pre prefix_def)
  moreover have "prefix (RecordPrefix z n qt) (Key E r) \<longleftrightarrow> rec_Type r = qt" if "rec_Zone r = z" "rec_Name r = n"
  proof -
    have "Key E r = row_key z n @ dec_pad 5 (unat (rec_Type r)) @ CHR ''|'' # fingerprint E r"
      using that by (simp add: Key_def row_key_def)
    then show ?thesis by (auto simp: pre prefix_append_sep word_unat_eq_iff)
  qed
  ultimately show ?thesis using prefix_row_key_Key [OF assms, of z E] False by blast
qed

lemma suffix_fqdnName: "names_pkg_ok E \<Longrightarrow> suffix ''.'' (fqdnName E s)"
  by (simp add: fqdnName_def suffix_Fqdn)

section \<open>The invariant\<close>

lemma bolt_laws:
  assumes "bolt_pkg_ok B" and "db_usable B d"
  shows "\<exists>d'. zb_Put B k z d = (Inr (), d') \<and> db_usable B d' \<and> zb_view B d' = (zb_view B d)(k \<mapsto> z) \<and> rb_view B d' = rb_view B d"
    and "\<exists>d'. zb_Delete B k d = (Inr (), d') \<and> db_usable B d' \<and> zb_view B d' = (zb_view B d)(k := None) \<and> rb_view B d' = rb_view B d"
    and "\<exists>kvs. zb_ForEach B d = Inr kvs \<and> entries_of kvs (zb_view B d)"
    and "\<exists>d'. rb_Put B k r d = (Inr (), d') \<and> db_usable B d' \<and> rb_view B d' = (rb_view B d)(k \<mapsto> rb_codec B r) \<and> zb_view B d' = zb_view B d"
    and "\<exists>d'. rb_Delete B k d = (Inr (), d') \<and> db_usable B d' \<and> rb_view B d' = (rb_view B d)(k := None) \<and> zb_view B d' = zb_view B d"
    and "\<exists>kvs. entries_of kvs (rb_view B d) \<and>
      rb_Values B p d = Inr (map snd (filter (\<lambda>kv. case p of None \<Rightarrow> True | Some pre \<Rightarrow> prefix pre (fst kv)) kvs))"
    and "\<exists>t. tx_view B t = rb_view B d \<and>
      (case f t of
         (Inl err, _) \<Rightarrow> rb_Update B f d = (Inl err, d)
       | (Inr _, t') \<Rightarrow> \<exists>d'. rb_Update B f d = (Inr (), d') \<and> db_usable B d' \<and> rb_view B d' = tx_view B t' \<and> zb_view B d' = zb_view B d)"
  using assms unfolding bolt_pkg_ok_def by blast+

lemma tx_laws:
  assumes "bolt_pkg_ok B"
  shows "\<exists>kvs. entries_of kvs (tx_view B t) \<and> tx_ScanPrefix B p t = Inr (filter (\<lambda>kv. prefix p (fst kv)) kvs)"
    and "\<exists>t'. tx_Delete B k t = (Inr (), t') \<and> tx_view B t' = (tx_view B t)(k := None)"
  using assms unfolding bolt_pkg_ok_def by blast+

definition bolt_inv :: "'x names_pkg_scheme \<Rightarrow> ('d, 't) bolt_pkg \<Rightarrow> 'd Store \<Rightarrow> bool" where
  "bolt_inv E B s \<longleftrightarrow> names_pkg_ok E \<and> bolt_pkg_ok B \<and> lossless_codec B \<and> db_usable B (bs_db s) \<and>
     (\<forall>k z. zb_view B (bs_db s) k = Some z \<longrightarrow> zone_Name z = k \<and> normal_zone E k) \<and>
     (\<forall>k r. rb_view B (bs_db s) k = Some r \<longrightarrow> k = Key E r \<and> normal_record E r \<and> rec_Zone r \<in> dom (zb_view B (bs_db s)))"

definition bolt_content :: "('d, 't) bolt_pkg \<Rightarrow> 'd Store \<Rightarrow> abs_store" where
  "bolt_content B s = \<lparr>abs_zones = dom (zb_view B (bs_db s)), abs_records = ran (rb_view B (bs_db s))\<rparr>"

lemma bolt_invD:
  assumes "bolt_inv E B s"
  shows "names_pkg_ok E" and "bolt_pkg_ok B" and "rb_codec B r = r" and "db_usable B (bs_db s)"
    and "zb_view B (bs_db s) k = Some z \<Longrightarrow> zone_Name z = k \<and> normal_zone E k"
    and "rb_view B (bs_db s) k = Some r \<Longrightarrow> k = Key E r \<and> normal_record E r \<and> rec_Zone r \<in> dom (zb_view B (bs_db s))"
  using assms by (auto simp: bolt_inv_def lossless_codec_def)

lemma bolt_content_iff:
  "bolt_inv E B s \<Longrightarrow> r \<in> abs_records (bolt_content B s) \<longleftrightarrow> rb_view B (bs_db s) (Key E r) = Some r"
  by (auto simp: bolt_content_def ran_def dest: bolt_invD(6))

lemma entries_of_set: "entries_of kvs m \<Longrightarrow> set kvs = {(k, v). m k = Some v}"
  by (auto simp: entries_of_def map_of_eq_Some_iff)

lemma entries_of_finite: "entries_of kvs m \<Longrightarrow> finite (dom m)"
  by (auto simp: entries_of_def finite_dom_map_of)

lemma bolt_abs_wf:
  assumes "bolt_inv E B s"
  shows "abs_wf E (bolt_content B s)"
proof -
  note inv = bolt_invD [OF assms]
  have "finite (dom (zb_view B (bs_db s)))" "finite (dom (rb_view B (bs_db s)))"
    using bolt_laws(3) [OF inv(2,4)] bolt_laws(6) [OF inv(2,4)] entries_of_finite by blast+
  moreover from this(2) have "finite (ran (rb_view B (bs_db s)))" by (rule finite_ran)
  moreover have "inj_on (Key E) (abs_records (bolt_content B s))"
    by (rule inj_onI) (simp add: bolt_content_iff [OF assms])
  moreover have "normal_record E r \<and> rec_Zone r \<in> dom (zb_view B (bs_db s))" if "r \<in> ran (rb_view B (bs_db s))" for r
    using that inv(6) unfolding ran_def by blast
  ultimately show ?thesis using inv(5) by (auto simp: abs_wf_def bolt_content_def)
qed

section \<open>Simulation\<close>

lemma bolt_SaveZone_step:
  assumes "bolt_inv E B s" and "plain (zone_Name z)" and "NormalizeZoneName E (zone_Name z) = Inr n"
  shows "\<exists>s'. bs_SaveZone E B z s = (Inr (), s') \<and> bolt_inv E B s' \<and> zb_view B (bs_db s') = (zb_view B (bs_db s))(n \<mapsto> \<lparr>zone_Name = n\<rparr>) \<and>
    rb_view B (bs_db s') = rb_view B (bs_db s) \<and> bs_revision s' = bs_revision s + 1"
proof -
  note inv = bolt_invD [OF assms(1)]
  obtain d' where d': "zb_Put B n \<lparr>zone_Name = n\<rparr> (bs_db s) = (Inr (), d')" "db_usable B d'"
    "zb_view B d' = (zb_view B (bs_db s))(n \<mapsto> \<lparr>zone_Name = n\<rparr>)" "rb_view B d' = rb_view B (bs_db s)"
    using bolt_laws(1) [OF inv(2,4)] by blast
  have "normal_zone E n" by (rule normal_zone_NormalizeZoneName [OF inv(1) assms(2,3)])
  with assms(1) d' have "bolt_inv E B (s\<lparr>bs_db := d', bs_revision := bs_revision s + 1\<rparr>)"
    unfolding bolt_inv_def by (auto split: if_splits)
  with d' assms(3) show ?thesis by (simp add: bs_SaveZone_def)
qed

lemma bolt_SaveZone_refines:
  assumes "plain (zone_Name z)"
  shows "refines (bolt_inv E B) (bolt_content B) (bs_SaveZone E B z) (spec_SaveZone E z)"
proof (rule refinesI)
  fix s assume inv: "bolt_inv E B s"
  show "bolt_inv E B (snd (bs_SaveZone E B z s))"
    using bolt_SaveZone_step [OF inv assms] inv by (cases "NormalizeZoneName E (zone_Name z)") (auto simp: bs_SaveZone_def)
  show "spec_SaveZone E z (bolt_content B s) = (fst (bs_SaveZone E B z s), bolt_content B (snd (bs_SaveZone E B z s)))"
  proof (cases "NormalizeZoneName E (zone_Name z)")
    case (Inr n)
    from bolt_SaveZone_step [OF inv assms this] Inr show ?thesis by (auto simp: spec_SaveZone_def bolt_content_def)
  qed (simp add: spec_SaveZone_def bs_SaveZone_def)
qed

lemma deleteKeys_view:
  assumes "bolt_pkg_ok B"
  shows "\<exists>t'. deleteKeys B ks t = (Inr (), t') \<and> tx_view B t' = (\<lambda>k. if k \<in> set ks then None else tx_view B t k)"
proof (induction ks arbitrary: t)
  case (Cons k ks)
  obtain t1 where t1: "tx_Delete B k t = (Inr (), t1)" "tx_view B t1 = (tx_view B t)(k := None)" using tx_laws(2) [OF assms] by blast
  obtain t' where "deleteKeys B ks t1 = (Inr (), t')" "tx_view B t' = (\<lambda>k. if k \<in> set ks then None else tx_view B t1 k)"
    using Cons.IH by blast
  with t1 show ?case by (auto simp: fun_eq_iff)
qed simp

lemma deleteZoneRecords_view:
  assumes "bolt_pkg_ok B"
  shows "\<exists>t'. deleteZoneRecords B pre t = (Inr (), t') \<and> tx_view B t' = (\<lambda>k. if prefix pre k then None else tx_view B t k)"
proof -
  obtain kvs where kvs: "entries_of kvs (tx_view B t)" "tx_ScanPrefix B pre t = Inr (filter (\<lambda>kv. prefix pre (fst kv)) kvs)"
    using tx_laws(1) [OF assms] by blast
  let ?ks = "map fst (filter (\<lambda>kv. prefix pre (fst kv)) kvs)"
  obtain t' where t': "deleteKeys B ?ks t = (Inr (), t')" "tx_view B t' = (\<lambda>k. if k \<in> set ?ks then None else tx_view B t k)"
    using deleteKeys_view [OF assms] by blast
  have "k \<in> set ?ks \<longleftrightarrow> prefix pre k \<and> tx_view B t k \<noteq> None" for k
    by (force simp: entries_of_set [OF kvs(1)])
  then have "tx_view B t' = (\<lambda>k. if prefix pre k then None else tx_view B t k)" by (auto simp: t'(2) fun_eq_iff)
  with t'(1) kvs(2) show ?thesis by (simp add: deleteZoneRecords_def)
qed

lemma bolt_DeleteZone_step:
  assumes "bolt_inv E B s" and "NormalizeZoneName E zn = Inr n"
  shows "\<exists>d'. bs_DeleteZone E B zn s = (Inr (), s\<lparr>bs_db := d', bs_revision := bs_revision s + 1\<rparr>) \<and> db_usable B d' \<and>
    zb_view B d' = (zb_view B (bs_db s))(n := None) \<and>
    rb_view B d' = (\<lambda>k. if prefix (n @ ''|'') k then None else rb_view B (bs_db s) k)"
proof -
  note inv = bolt_invD [OF assms(1)]
  obtain d1 where d1: "zb_Delete B n (bs_db s) = (Inr (), d1)" "db_usable B d1"
    "zb_view B d1 = (zb_view B (bs_db s))(n := None)" "rb_view B d1 = rb_view B (bs_db s)"
    using bolt_laws(2) [OF inv(2,4)] by blast
  let ?f = "deleteZoneRecords B (n @ ''|'')"
  obtain t where t: "tx_view B t = rb_view B d1" and commit: "case ?f t of
      (Inl err, _) \<Rightarrow> rb_Update B ?f d1 = (Inl err, d1)
    | (Inr _, t') \<Rightarrow> \<exists>d'. rb_Update B ?f d1 = (Inr (), d') \<and> db_usable B d' \<and> rb_view B d' = tx_view B t' \<and> zb_view B d' = zb_view B d1"
    by (rule exE [OF bolt_laws(7) [OF inv(2) d1(2), of ?f]]) (erule conjE, rule that)
  obtain t' where t': "?f t = (Inr (), t')" "tx_view B t' = (\<lambda>k. if prefix (n @ ''|'') k then None else tx_view B t k)"
    using deleteZoneRecords_view [OF inv(2), of "n @ ''|''" t] by blast
  have "\<exists>d'. rb_Update B ?f d1 = (Inr (), d') \<and> db_usable B d' \<and> rb_view B d' = tx_view B t' \<and> zb_view B d' = zb_view B d1"
    using commit by (simp only: t'(1) prod.case sum.case)
  then obtain d' where d': "rb_Update B ?f d1 = (Inr (), d')" "db_usable B d'" "rb_view B d' = tx_view B t'"
    "zb_view B d' = zb_view B d1" by (elim exE conjE)
  then have "bs_DeleteZone E B zn s = (Inr (), s\<lparr>bs_db := d', bs_revision := bs_revision s + 1\<rparr>)"
    by (simp add: bs_DeleteZone_def assms(2) d1(1))
  moreover have "rb_view B d' = (\<lambda>k. if prefix (n @ ''|'') k then None else rb_view B (bs_db s) k)"
    unfolding d'(3) t'(2) t d1(4) ..
  ultimately show ?thesis using d'(2,4) d1(3) by (intro exI [of _ d'] conjI) simp_all
qed

lemma bolt_DeleteZone_refines:
  assumes "plain zn"
  shows "refines (bolt_inv E B) (bolt_content B) (bs_DeleteZone E B zn) (spec_DeleteZone E zn)"
proof -
  have step: "bolt_inv E B (snd (bs_DeleteZone E B zn s)) \<and>
      spec_DeleteZone E zn (bolt_content B s) = (fst (bs_DeleteZone E B zn s), bolt_content B (snd (bs_DeleteZone E B zn s)))"
    if inv: "bolt_inv E B s" for s
  proof (cases "NormalizeZoneName E zn")
    case (Inr n)
    from bolt_DeleteZone_step [OF inv Inr] obtain d' where
      op: "bs_DeleteZone E B zn s = (Inr (), s\<lparr>bs_db := d', bs_revision := bs_revision s + 1\<rparr>)" and usable: "db_usable B d'"
      and views: "zb_view B d' = (zb_view B (bs_db s))(n := None)"
        "rb_view B d' = (\<lambda>k. if prefix (n @ ''|'') k then None else rb_view B (bs_db s) k)" by blast
    have "plain n" using normal_zone_NormalizeZoneName [OF bolt_invD(1) [OF inv] assms Inr] by (simp add: normal_zone_def)
    then have pre: "prefix (n @ ''|'') k \<longleftrightarrow> rec_Zone r = n" if "rb_view B (bs_db s) k = Some r" for k r
    proof -
      have r: "k = Key E r" "plain (rec_Zone r)" using bolt_invD(6) [OF inv that] normal_recordD(2) by auto
      with prefix_append_sep [of "CHR ''|''" n "rec_Zone r"] \<open>plain n\<close> show ?thesis by (auto simp: Key_def)
    qed
    have "bolt_inv E B (s\<lparr>bs_db := d', bs_revision := bs_revision s + 1\<rparr>)"
      using inv usable pre unfolding bolt_inv_def by (auto simp: views split: if_splits)
    moreover have "ran (rb_view B d') = {r \<in> ran (rb_view B (bs_db s)). rec_Zone r \<noteq> n}"
      using pre by (auto simp: views ran_def split: if_splits)
    ultimately show ?thesis by (simp add: op Inr spec_DeleteZone_def bolt_content_def views)
  qed (use inv in \<open>simp add: spec_DeleteZone_def bs_DeleteZone_def\<close>)
  then show ?thesis by (intro refinesI) auto
qed

lemma bolt_put_content:
  assumes "bolt_inv E B s" and "plain_record r" and "normal_record E n"
  shows "ran ((rb_view B (bs_db s))(Key E n \<mapsto> n)) = put_record E n (ran (rb_view B (bs_db s)))"
    and "ran ((rb_view B (bs_db s))(Key E n := None)) = del_record E n (ran (rb_view B (bs_db s)))"
proof -
  have key: "k = Key E v" if "rb_view B (bs_db s) k = Some v" for k v using bolt_invD(6) [OF assms(1) that] by simp
  show "ran ((rb_view B (bs_db s))(Key E n \<mapsto> n)) = put_record E n (ran (rb_view B (bs_db s)))"
    by (auto simp: ran_def put_record_def dest: key)
  show "ran ((rb_view B (bs_db s))(Key E n := None)) = del_record E n (ran (rb_view B (bs_db s)))"
    by (auto simp: ran_def del_record_def dest: key)
qed

lemma bolt_SaveRecord_step:
  assumes "bolt_inv E B s" and "plain_record r" and "NormalizeRecord E r = Inr n"
  shows "\<exists>s'. bs_SaveRecord E B r s = (Inr (), s') \<and> bolt_inv E B s' \<and> bs_revision s' = bs_revision s + 2 \<and>
    bolt_content B s' = \<lparr>abs_zones = insert (rec_Zone n) (abs_zones (bolt_content B s)),
      abs_records = put_record E n (abs_records (bolt_content B s))\<rparr>"
proof -
  have n: "normal_record E n" by (rule normal_record_NormalizeRecord [OF bolt_invD(1) [OF assms(1)] assms(2,3)])
  have z: "plain (zone_Name \<lparr>zone_Name = rec_Zone n\<rparr>)" "NormalizeZoneName E (zone_Name \<lparr>zone_Name = rec_Zone n\<rparr>) = Inr (rec_Zone n)"
    using n normal_record_zone [OF n] by (simp_all add: normal_zone_def)
  obtain s1 where s1: "bs_SaveZone E B \<lparr>zone_Name = rec_Zone n\<rparr> s = (Inr (), s1)" "bolt_inv E B s1"
    "zb_view B (bs_db s1) = (zb_view B (bs_db s))(rec_Zone n \<mapsto> \<lparr>zone_Name = rec_Zone n\<rparr>)"
    "rb_view B (bs_db s1) = rb_view B (bs_db s)" "bs_revision s1 = bs_revision s + 1"
    using bolt_SaveZone_step [OF assms(1) z] by blast
  note inv = bolt_invD [OF s1(2)]
  obtain d' where d': "rb_Put B (Key E n) n (bs_db s1) = (Inr (), d')" "db_usable B d'"
    "rb_view B d' = (rb_view B (bs_db s1))(Key E n \<mapsto> n)" "zb_view B d' = zb_view B (bs_db s1)"
    using bolt_laws(4) [OF inv(2,4), of "Key E n" n] inv(3) by auto
  let ?s' = "s1\<lparr>bs_db := d', bs_revision := bs_revision s1 + 1\<rparr>"
  have "bolt_inv E B ?s'"
    using s1(2,3) d' n unfolding bolt_inv_def by (auto split: if_splits)
  moreover have "bs_SaveRecord E B r s = (Inr (), ?s')" by (simp add: bs_SaveRecord_def assms(3) s1(1) d'(1))
  moreover have "bolt_content B ?s' = \<lparr>abs_zones = insert (rec_Zone n) (abs_zones (bolt_content B s)),
      abs_records = put_record E n (abs_records (bolt_content B s))\<rparr>"
    using bolt_put_content(1) [OF assms(1,2) n] by (simp add: bolt_content_def d' s1)
  ultimately show ?thesis using s1(5) by (intro exI [of _ ?s'] conjI) simp_all
qed

lemma bolt_DeleteRecord_step:
  assumes "bolt_inv E B s" and "plain_record r" and "NormalizeRecord E r = Inr n"
  shows "\<exists>s'. bs_DeleteRecord E B r s = (Inr (), s') \<and> bolt_inv E B s' \<and> bs_revision s' = bs_revision s + 1 \<and>
    bolt_content B s' = (bolt_content B s)\<lparr>abs_records := del_record E n (abs_records (bolt_content B s))\<rparr>"
proof -
  have n: "normal_record E n" by (rule normal_record_NormalizeRecord [OF bolt_invD(1) [OF assms(1)] assms(2,3)])
  note inv = bolt_invD [OF assms(1)]
  obtain d' where d': "rb_Delete B (Key E n) (bs_db s) = (Inr (), d')" "db_usable B d'"
    "rb_view B d' = (rb_view B (bs_db s))(Key E n := None)" "zb_view B d' = zb_view B (bs_db s)"
    using bolt_laws(5) [OF inv(2,4)] by blast
  let ?s' = "s\<lparr>bs_db := d', bs_revision := bs_revision s + 1\<rparr>"
  have "bolt_inv E B ?s'" using assms(1) d' unfolding bolt_inv_def by (auto split: if_splits)
  moreover have "bs_DeleteRecord E B r s = (Inr (), ?s')" by (simp add: bs_DeleteRecord_def assms(3) d'(1))
  moreover have "bolt_content B ?s' = (bolt_content B s)\<lparr>abs_records := del_record E n (abs_records (bolt_content B s))\<rparr>"
    using bolt_put_content(2) [OF assms(1,2) n] by (simp add: bolt_content_def d')
  ultimately show ?thesis by (intro exI [of _ ?s'] conjI) simp_all
qed

lemma bolt_record_refines:
  assumes "plain_record r"
  shows "refines (bolt_inv E B) (bolt_content B) (bs_SaveRecord E B r) (spec_SaveRecord E r)"
    and "refines (bolt_inv E B) (bolt_content B) (bs_DeleteRecord E B r) (spec_DeleteRecord E r)"
proof -
  have "bolt_inv E B (snd (bs_SaveRecord E B r s)) \<and>
      spec_SaveRecord E r (bolt_content B s) = (fst (bs_SaveRecord E B r s), bolt_content B (snd (bs_SaveRecord E B r s)))"
    if "bolt_inv E B s" for s
    using bolt_SaveRecord_step [OF that assms] that
    by (cases "NormalizeRecord E r") (auto simp: spec_SaveRecord_def bs_SaveRecord_def)
  then show "refines (bolt_inv E B) (bolt_content B) (bs_SaveRecord E B r) (spec_SaveRecord E r)" by (intro refinesI) auto
  have "bolt_inv E B (snd (bs_DeleteRecord E B r s)) \<and>
      spec_DeleteRecord E r (bolt_content B s) = (fst (bs_DeleteRecord E B r s), bolt_content B (snd (bs_DeleteRecord E B r s)))"
    if "bolt_inv E B s" for s
    using bolt_DeleteRecord_step [OF that assms] that
    by (cases "NormalizeRecord E r") (auto simp: spec_DeleteRecord_def bs_DeleteRecord_def)
  then show "refines (bolt_inv E B) (bolt_content B) (bs_DeleteRecord E B r) (spec_DeleteRecord E r)" by (intro refinesI) auto
qed

section \<open>Reads\<close>

lemma bolt_ListZones:
  assumes "bolt_inv E B s"
  shows "\<exists>zs. bs_ListZones B s = Inr zs \<and> map zone_Name zs = sorted_list_of_set (abs_zones (bolt_content B s))"
proof -
  obtain kvs where kvs: "zb_ForEach B (bs_db s) = Inr kvs" "entries_of kvs (zb_view B (bs_db s))"
    using bolt_laws(3) [OF bolt_invD(2,4) [OF assms]] by blast
  have names: "map zone_Name (map snd kvs) = map fst kvs"
    using entries_of_set [OF kvs(2)] bolt_invD(5) [OF assms] by auto
  have dom: "set (map fst kvs) = dom (zb_view B (bs_db s))" using entries_of_set [OF kvs(2)] by force
  let ?zs = "SortFunc (\<lambda>left right. three_way (zone_Name left) (zone_Name right)) (map snd kvs)"
  have "mset (map zone_Name ?zs) = mset (map fst kvs)" using names by (metis by_zone.mset_SortFunc mset_map)
  then have "map zone_Name ?zs = sorted_list_of_set (set (map fst kvs))"
    using kvs(2) by_zone.sorted_SortFunc [of "map snd kvs"] unfolding entries_of_def
    by (metis mset_eq_imp_distinct_iff mset_eq_setD sorted_list_of_set.idem_if_sorted_distinct)
  then show ?thesis using kvs(1) by (simp only: bs_ListZones_def dom bolt_content_def) simp
qed

lemma bolt_scan:
  assumes "bolt_inv E B s"
  shows "\<exists>rs. scanRecordsByPrefix B p s = Inr rs \<and> distinct rs \<and>
    set rs = {r \<in> abs_records (bolt_content B s). prefix p (Key E r)}"
proof -
  let ?p = "if p \<noteq> [] then Some p else None" and ?ok = "\<lambda>kv :: string \<times> Record. case (if p \<noteq> [] then Some p else None) of None \<Rightarrow> True | Some pre \<Rightarrow> prefix pre (fst kv)"
  obtain kvs where kvs: "entries_of kvs (rb_view B (bs_db s))" "rb_Values B ?p (bs_db s) = Inr (map snd (filter ?ok kvs))"
    using bolt_laws(6) [OF bolt_invD(2,4) [OF assms], of ?p] by blast
  have ok: "?ok kv \<longleftrightarrow> prefix p (fst kv)" for kv by simp
  have key: "fst kv = Key E (snd kv)" if "kv \<in> set kvs" for kv
  proof -
    have "kv \<in> {(k, v). rb_view B (bs_db s) k = Some v}" using that unfolding entries_of_set [OF kvs(1)] .
    then show ?thesis using bolt_invD(6) [OF assms] by auto
  qed
  have "distinct kvs" using kvs(1) by (auto simp: entries_of_def distinct_map)
  moreover have "inj_on snd (set kvs)" by (rule inj_onI) (metis key prod_eqI)
  ultimately have "distinct (map snd (filter ?ok kvs))" by (simp add: distinct_map inj_on_subset)
  moreover have "set (map snd (filter ?ok kvs)) = {r \<in> abs_records (bolt_content B s). prefix p (Key E r)}"
  proof (rule set_eqI)
    fix r
    have "r \<in> set (map snd (filter ?ok kvs)) \<longleftrightarrow> (\<exists>k. (k, r) \<in> set kvs \<and> prefix p k)" by (force simp: ok)
    also have "\<dots> \<longleftrightarrow> (\<exists>k. rb_view B (bs_db s) k = Some r \<and> prefix p k)" by (simp add: entries_of_set [OF kvs(1)])
    also have "\<dots> \<longleftrightarrow> rb_view B (bs_db s) (Key E r) = Some r \<and> prefix p (Key E r)" using bolt_invD(6) [OF assms] by blast
    finally show "r \<in> set (map snd (filter ?ok kvs)) \<longleftrightarrow> r \<in> {r \<in> abs_records (bolt_content B s). prefix p (Key E r)}"
      by (simp add: bolt_content_iff [OF assms])
  qed
  ultimately show ?thesis using kvs(2) by (simp add: scanRecordsByPrefix_def)
qed

lemma bolt_lookup:
  assumes "bolt_inv E B s" and "suffix ''.'' n"
  shows "\<exists>xs. lookupByPrefix B (RecordPrefix z n qt) qc s = Inr xs \<and> sorted (map rec_Data xs) \<and>
    enumerates xs (lookup_set z n qt qc (bolt_content B s))"
proof -
  obtain rs where rs: "scanRecordsByPrefix B (RecordPrefix z n qt) s = Inr rs" "distinct rs"
    "set rs = {r \<in> abs_records (bolt_content B s). prefix (RecordPrefix z n qt) (Key E r)}"
    using bolt_scan [OF assms(1)] by blast
  have "plain_record r" if "r \<in> abs_records (bolt_content B s)" for r
    using that bolt_abs_wf [OF assms(1)] by (auto simp: abs_wf_def normal_record_def)
  then have "set rs = {r \<in> abs_records (bolt_content B s). rec_Zone r = z \<and> rec_Name r = n \<and> (qt = TypeANY \<or> rec_Type r = qt)}"
    using prefix_RecordPrefix_Key [OF _ assms(2), of _ z qt E] by (auto simp: rs(3))
  then show ?thesis using rs(1,2)
    by (auto simp: lookupByPrefix_def enumerates_def lookup_set_def by_data.sorted_SortFunc by_data.distinct_SortFunc)
qed

lemma bolt_ListRecords:
  assumes "bolt_inv E B s" and "NormalizeRecordFilter E f = Inr g"
  shows "\<exists>xs. bs_ListRecords E B f s = Inr xs \<and> sorted (map record_key xs) \<and>
    enumerates xs {r \<in> abs_records (bolt_content B s). RecordMatchesFilter r g}"
proof -
  obtain rs where rs: "scanRecordsByPrefix B (RecordListPrefix g) s = Inr rs" "distinct rs"
    "set rs = {r \<in> abs_records (bolt_content B s). prefix (RecordListPrefix g) (Key E r)}"
    using bolt_scan [OF assms(1)] by blast
  have "prefix (RecordListPrefix g) (Key E r)" if "RecordMatchesFilter r g" for r
    using that by (auto simp: RecordMatchesFilter_iff RecordListPrefix_def RecordPrefix_def Key_def Let_def)
  then have "set (filter (\<lambda>r. RecordMatchesFilter r g) rs) = {r \<in> abs_records (bolt_content B s). RecordMatchesFilter r g}"
    by (auto simp: rs(3))
  then show ?thesis using rs(1,2) assms(2)
    by (auto simp: bs_ListRecords_def filterAndSortRecords_def enumerates_def by_record.sorted_SortFunc by_record.distinct_SortFunc)
qed

lemma bolt_read_errors:
  "NormalizeRecordFilter E f = Inl err \<Longrightarrow> bs_ListRecords E B f s = Inl err"
  "NormalizeLookup E zn n = Inl err \<Longrightarrow> bs_Lookup E B zn n qt qc s = Inl err"
  "NormalizeLookup E zn n = Inl err \<Longrightarrow> bs_LookupAll E B zn n qc s = Inl err"
  by (simp_all add: bs_ListRecords_def bs_Lookup_def bs_LookupAll_def)

section \<open>The store meets the contract\<close>

interpretation bolt: repository E "bbolt_repo E B" "bolt_inv E B" "bolt_content B" for E B
proof
  fix s zn n z' n' qt qc
  assume inv: "bolt_inv E B s" and l: "NormalizeLookup E zn n = Inr (z', n')"
  then have "suffix ''.'' n'"
    using suffix_fqdnName [OF bolt_invD(1) [OF inv]] by (auto simp: NormalizeLookup_def Let_def split: sum.splits if_splits)
  with bolt_lookup [OF inv] l
  show "\<exists>xs. repo_Lookup (bbolt_repo E B) zn n qt qc s = Inr xs \<and> sorted (map rec_Data xs) \<and>
      enumerates xs (lookup_set z' n' qt qc (bolt_content B s))"
    and "\<exists>xs. repo_LookupAll (bbolt_repo E B) zn n qc s = Inr xs \<and> sorted (map rec_Data xs) \<and>
      enumerates xs (lookup_set z' n' TypeANY qc (bolt_content B s))"
    by (simp_all add: bbolt_repo_def bs_Lookup_def bs_LookupAll_def)
qed (simp_all add: bbolt_repo_def bolt_invD(1) bolt_abs_wf bolt_SaveZone_refines bolt_DeleteZone_refines bolt_record_refines
    bolt_ListZones bolt_ListRecords bolt_read_errors)

interpretation bolt_rr: rr_repository E "bbolt_repo E B" "bolt_inv E B" "bolt_content B" for E B
  by unfold_locales

text \<open>A write on a usable database advances the revision by one, and by two when it saves a record.\<close>

definition bolt_usable :: "('d, 't) bolt_pkg \<Rightarrow> 'd Store \<Rightarrow> bool" where
  "bolt_usable B s \<longleftrightarrow> bolt_pkg_ok B \<and> db_usable B (bs_db s)"

definition advances :: "('d, 't) bolt_pkg \<Rightarrow> 'd Store \<Rightarrow> uint64 \<Rightarrow> 'd Store \<Rightarrow> bool" where
  "advances B s k s' \<longleftrightarrow> (s' = s \<or> bs_revision s' = bs_revision s + k) \<and> bolt_usable B s'"

lemma SaveZone_advances:
  assumes "bolt_usable B s"
  shows "advances B s 1 (snd (bs_SaveZone E B z s))"
proof (cases "NormalizeZoneName E (zone_Name z)")
  case (Inr n)
  note usable = assms [unfolded bolt_usable_def, THEN conjunct1] assms [unfolded bolt_usable_def, THEN conjunct2]
  obtain d' where "zb_Put B n \<lparr>zone_Name = n\<rparr> (bs_db s) = (Inr (), d')" "db_usable B d'"
    using bolt_laws(1) [OF usable] by blast
  with Inr assms show ?thesis by (simp add: bs_SaveZone_def advances_def bolt_usable_def)
qed (use assms in \<open>simp add: bs_SaveZone_def advances_def\<close>)

lemma DeleteZone_advances:
  assumes "bolt_usable B s"
  shows "advances B s 1 (snd (bs_DeleteZone E B zn s))"
proof (cases "NormalizeZoneName E zn")
  case (Inr n)
  note usable = assms [unfolded bolt_usable_def, THEN conjunct1] assms [unfolded bolt_usable_def, THEN conjunct2]
  note B = usable(1)
  obtain d1 where d1: "zb_Delete B n (bs_db s) = (Inr (), d1)" "db_usable B d1"
    using bolt_laws(2) [OF usable] by blast
  let ?f = "deleteZoneRecords B (n @ ''|'')"
  obtain t where commit: "case ?f t of (Inl err, _) \<Rightarrow> rb_Update B ?f d1 = (Inl err, d1)
      | (Inr _, t') \<Rightarrow> \<exists>d'. rb_Update B ?f d1 = (Inr (), d') \<and> db_usable B d' \<and> rb_view B d' = tx_view B t' \<and> zb_view B d' = zb_view B d1"
    by (rule exE [OF bolt_laws(7) [OF B d1(2), of ?f]]) (erule conjE, rule that)
  obtain t' where "?f t = (Inr (), t')" using deleteZoneRecords_view [OF B, of "n @ ''|''" t] by blast
  with commit have "\<exists>d'. rb_Update B ?f d1 = (Inr (), d') \<and> db_usable B d'" by (auto simp only: prod.case sum.case)
  with Inr d1 B show ?thesis by (auto simp: bs_DeleteZone_def advances_def bolt_usable_def)
qed (use assms in \<open>simp add: bs_DeleteZone_def advances_def\<close>)

lemma SaveRecord_advances:
  assumes "bolt_usable B s"
  shows "\<exists>k \<in> {1, 2}. advances B s k (snd (bs_SaveRecord E B r s))"
proof (cases "NormalizeRecord E r")
  case (Inr n)
  obtain y s1 where s1: "bs_SaveZone E B \<lparr>zone_Name = rec_Zone n\<rparr> s = (y, s1)"
    by (cases "bs_SaveZone E B \<lparr>zone_Name = rec_Zone n\<rparr> s")
  then have z: "advances B s 1 s1" using SaveZone_advances [OF assms, of E "\<lparr>zone_Name = rec_Zone n\<rparr>"] by simp
  then obtain d' where "rb_Put B (Key E n) n (bs_db s1) = (Inr (), d')" "db_usable B d'"
    using bolt_laws(4) [of B "bs_db s1" "Key E n" n] by (auto simp: advances_def bolt_usable_def)
  with Inr s1 z show ?thesis by (auto simp: bs_SaveRecord_def advances_def bolt_usable_def split: sum.splits)
qed (use assms in \<open>auto simp: bs_SaveRecord_def advances_def\<close>)

lemma DeleteRecord_advances:
  assumes "bolt_usable B s"
  shows "advances B s 1 (snd (bs_DeleteRecord E B r s))"
proof (cases "NormalizeRecord E r")
  case (Inr n)
  note usable = assms [unfolded bolt_usable_def, THEN conjunct1] assms [unfolded bolt_usable_def, THEN conjunct2]
  obtain d' where "rb_Delete B (Key E n) (bs_db s) = (Inr (), d')" "db_usable B d'"
    using bolt_laws(5) [OF usable] by blast
  with Inr assms show ?thesis by (simp add: bs_DeleteRecord_def advances_def bolt_usable_def)
qed (use assms in \<open>simp add: bs_DeleteRecord_def advances_def\<close>)

interpretation bolt_rev: revisioned "bbolt_repo E B" "\<lambda>s. bs_Revision (Some s)" "bolt_usable B" for E B
proof -
  have step: "\<exists>k \<in> {1, 2}. advances B s k s'" if "bolt_usable B s" "repo_write (bbolt_repo E B) w s = (x, s')" for w s x s'
    using that SaveZone_advances [OF that(1), of E] DeleteZone_advances [OF that(1), of E] SaveRecord_advances [OF that(1), of E]
      DeleteRecord_advances [OF that(1), of E]
    by (cases w) (simp_all add: bbolt_repo_def; metis snd_conv)+
  show "revisioned (bbolt_repo E B) (\<lambda>s. bs_Revision (Some s)) (bolt_usable B)"
  proof
    show "repo_Revision (bbolt_repo E B) = Some (\<lambda>s. bs_Revision (Some s))" by (simp add: bbolt_repo_def)
  qed (use step in \<open>fastforce simp: bs_Revision_def advances_def\<close>)+
qed

section \<open>A reference database\<close>

definition ref_entries :: "('k \<times> 'v) list \<Rightarrow> ('k \<times> 'v) list" where
  "ref_entries m = map (\<lambda>k. (k, the (map_of m k))) (remdups (map fst m))"

type_synonym ref_db = "(string \<times> Zone) list \<times> (string \<times> Record) list"

definition bolt_ref :: "(ref_db, (string \<times> Record) list) bolt_pkg" where
  "bolt_ref =
     \<lparr>zb_Put = (\<lambda>k v d. (Inr (), ((k, v) # fst d, snd d))),
      zb_Delete = (\<lambda>k d. (Inr (), (filter (\<lambda>e. fst e \<noteq> k) (fst d), snd d))),
      zb_ForEach = (\<lambda>d. Inr (ref_entries (fst d))),
      rb_Put = (\<lambda>k v d. (Inr (), (fst d, (k, v) # snd d))),
      rb_Delete = (\<lambda>k d. (Inr (), (fst d, filter (\<lambda>e. fst e \<noteq> k) (snd d)))),
      rb_Values = (\<lambda>p d. Inr (map snd (filter (\<lambda>kv. case p of None \<Rightarrow> True | Some pre \<Rightarrow> prefix pre (fst kv)) (ref_entries (snd d))))),
      rb_Update = (\<lambda>f d. case f (snd d) of (Inl err, _) \<Rightarrow> (Inl err, d) | (Inr _, t') \<Rightarrow> (Inr (), (fst d, t'))),
      tx_ScanPrefix = (\<lambda>p t. Inr (filter (\<lambda>kv. prefix p (fst kv)) (ref_entries t))),
      tx_Delete = (\<lambda>k t. (Inr (), filter (\<lambda>e. fst e \<noteq> k) t)),
      db_Close = (\<lambda>d. (Inr (), d)), rb_codec = (\<lambda>r. r), db_usable = (\<lambda>d. True),
      zb_view = (\<lambda>d. map_of (fst d)), rb_view = (\<lambda>d. map_of (snd d)), tx_view = map_of\<rparr>"

lemma entries_of_ref: "entries_of (ref_entries m) (map_of m)"
proof -
  have "map_of (map (\<lambda>k. (k, the (map_of m k))) ks) k = (if k \<in> set ks then Some (the (map_of m k)) else None)" for ks k
    by (induction ks) auto
  moreover have "k \<in> fst ` set m \<longleftrightarrow> map_of m k \<noteq> None" for k by (simp add: map_of_eq_None_iff)
  ultimately have "map_of (ref_entries m) = map_of m" by (auto simp: ref_entries_def fun_eq_iff)
  moreover have "map fst (ref_entries m) = remdups (map fst m)" by (simp add: ref_entries_def comp_def)
  ultimately show ?thesis by (simp add: entries_of_def)
qed

lemma map_of_filter_key: "map_of (filter (\<lambda>e. fst e \<noteq> k) m) = (map_of m)(k := None)"
  by (induction m) (auto simp: fun_eq_iff)

lemma bolt_ref_ok [simp]: "bolt_pkg_ok bolt_ref"
proof -
  have update: "\<exists>t. tx_view bolt_ref t = rb_view bolt_ref d \<and>
      (case f t of
         (Inl err, _) \<Rightarrow> rb_Update bolt_ref f d = (Inl err, d)
       | (Inr _, t') \<Rightarrow> \<exists>d'. rb_Update bolt_ref f d = (Inr (), d') \<and> db_usable bolt_ref d' \<and>
           rb_view bolt_ref d' = tx_view bolt_ref t' \<and> zb_view bolt_ref d' = zb_view bolt_ref d)" for d f
    by (intro exI [of _ "snd d"]) (simp add: bolt_ref_def split: prod.split sum.split)
  have "entries_of (ref_entries m) (map_of m)" for m :: "(string \<times> Zone) list" by (rule entries_of_ref)
  moreover have "entries_of (ref_entries m) (map_of m)" for m :: "(string \<times> Record) list" by (rule entries_of_ref)
  ultimately show ?thesis
    unfolding bolt_pkg_ok_def
    by (intro conjI allI impI update) (auto simp: bolt_ref_def map_of_filter_key)
qed

lemma lossless_ref [simp]: "lossless_codec bolt_ref"
  by (simp add: lossless_codec_def bolt_ref_def)

section \<open>Properties\<close>

definition empty_bolt :: "('d, 't) bolt_pkg \<Rightarrow> 'd \<Rightarrow> bool" where
  "empty_bolt B d \<longleftrightarrow> db_usable B d \<and> zb_view B d = Map.empty \<and> rb_view B d = Map.empty"

lemma bolt_history:
  assumes "names_pkg_ok E" and "bolt_pkg_ok B" and "lossless_codec B" and "empty_bolt B d" and "list_all plain_write ws"
  shows "bolt_inv E B (run_writes (repo_write (bbolt_repo E B)) ws (bs_New d))"
    and "bolt_content B (run_writes (repo_write (bbolt_repo E B)) ws (bs_New d)) =
      run_writes (spec_write E) ws \<lparr>abs_zones = {}, abs_records = {}\<rparr>"
proof -
  have inv: "bolt_inv E B (bs_New d)" using assms by (simp add: bolt_inv_def bs_New_def empty_bolt_def)
  have content: "bolt_content B (bs_New d) = \<lparr>abs_zones = {}, abs_records = {}\<rparr>"
    using assms(4) by (simp add: bolt_content_def bs_New_def empty_bolt_def)
  from bolt.history_refines [OF inv assms(5)] content
  show "bolt_inv E B (run_writes (repo_write (bbolt_repo E B)) ws (bs_New d))"
    and "bolt_content B (run_writes (repo_write (bbolt_repo E B)) ws (bs_New d)) =
      run_writes (spec_write E) ws \<lparr>abs_zones = {}, abs_records = {}\<rparr>" by simp_all
qed

lemma same_zone_names: "map zone_Name zs = map zone_Name zs' \<Longrightarrow> zs = zs'" for zs :: "Zone list"
  by (rule map_injective [of zone_Name]) (auto intro: injI)



text \<open>
  When the second transaction of \<^verbatim>\<open>DeleteZone\<close> fails, the zone is gone although the call reports an
  error, and the revision has not moved: a resolver keeps serving the zone from its index.
\<close>

lemma bs_DeleteZone_partial:
  assumes "NormalizeZoneName E zone = Inr n" and "zb_Delete B n (bs_db s) = (Inr (), d1)"
    and "rb_Update B (deleteZoneRecords B (n @ ''|'')) d1 = (Inl err, d1)"
  shows "bs_DeleteZone E B zone s = (Inl err, s\<lparr>bs_db := d1\<rparr>) \<and> bs_Revision (Some (s\<lparr>bs_db := d1\<rparr>)) = bs_Revision (Some s)"
  using assms by (simp add: bs_DeleteZone_def bs_Revision_def)

text \<open>\<^verbatim>\<open>Close\<close> closes the database once.\<close>

lemma bs_Close_once: "bs_Close B (snd (bs_Close B s)) = (Inr (), snd (bs_Close B s))"
  by (auto simp: bs_Close_def split: prod.splits sum.splits)

end
