(* ===== verification/Admin_Facts.thy ===== *)
theory Admin_Facts
  imports Admin_Http Bbolt_Store
begin

text \<open>
  What the HTTP interface of the administrator guarantees: reading numbers, the effect of each handler on the content of the
  store through every back end that meets the contract, and the routes that lead to the handlers.
\<close>

section \<open>Numbers\<close>

lemma parseUintLoop_digits:
  "list_all isDigit s \<Longrightarrow> n \<le> 65535 \<Longrightarrow>
     (if foldl (\<lambda>n c. 10 * n + (of_char c - 48)) n s \<le> 65535
      then parseUintLoop n s = Inr (foldl (\<lambda>n c. 10 * n + (of_char c - 48)) n s)
      else parseUintLoop n s = Inl ''value out of range'')"
proof (induction s arbitrary: n)
  case (Cons c s)
  have grow: "m \<le> foldl (\<lambda>n c. 10 * n + (of_char c - 48)) m s" for m :: nat
  proof (induction s arbitrary: m)
    case (Cons c s)
    have "m \<le> 10 * m + (of_char c - 48)" by simp
    also have "\<dots> \<le> foldl (\<lambda>n c. 10 * n + (of_char c - 48)) (10 * m + (of_char c - 48)) s" by (rule Cons.IH)
    finally show ?case by simp
  qed simp
  let ?n = "10 * n + (of_char c - 48 :: nat)"
  show ?case
  proof (cases "?n \<le> 65535")
    case True
    with Cons.IH [of ?n] Cons.prems(1) show ?thesis by (simp add: Let_def mult.commute [of n 10])
  next
    case False
    with grow [of ?n] Cons.prems(1) show ?thesis by (auto simp: Let_def mult.commute [of n 10])
  qed
qed simp

lemma ParseUint16_digits:
  "list_all isDigit s \<Longrightarrow> s \<noteq> [] \<Longrightarrow>
     ParseUint16 s = (if undec s \<le> 65535 then Inr (undec s) else Inl ''value out of range'')"
  using parseUintLoop_digits [of s 0] by (simp add: ParseUint16_def undec_def split: if_split_asm)

lemma ParseUint16_other: "\<not> list_all isDigit s \<Longrightarrow> \<exists>err. ParseUint16 s = Inl err"
proof -
  have "\<exists>err. parseUintLoop n s = Inl err" if "\<not> list_all isDigit s" for n
    using that by (induction n s rule: parseUintLoop.induct) (auto simp: Let_def)
  then show "\<not> list_all isDigit s \<Longrightarrow> \<exists>err. ParseUint16 s = Inl err" by (simp add: ParseUint16_def)
qed

lemma digit_facts:
  assumes "list_all isDigit s"
  shows "ascii s" and "map upperByte s = s" and "s \<noteq> [] \<Longrightarrow> TrimSpace s = s"
proof -
  have "(of_char c :: nat) < 128" "upperByte c = c" if "isDigit c" for c
    using that by (auto simp: isDigit_def upperByte_def)
  then show "ascii s" "map upperByte s = s" using assms by (auto simp: ascii_def list_all_iff intro: map_idI)
  have "\<not> prefix w s \<and> \<not> suffix w s" if "w \<in> set spaceRunes" for w
  proof -
    have "\<exists>c \<in> set w. \<not> isDigit c" using that by (auto simp: spaceRunes_def isDigit_def)
    then show ?thesis using assms set_mono_prefix set_mono_suffix by (fastforce simp: list_all_iff)
  qed
  then have "trimmed s" by (simp add: trimmed_def)
  then show "s \<noteq> [] \<Longrightarrow> TrimSpace s = s" by simp
qed

section \<open>Handlers\<close>

text \<open>What the requests carry is made of plain names.\<close>

definition plain_admin_request :: "'p http_pkg_scheme \<Rightarrow> Request \<Rightarrow> bool" where
  "plain_admin_request P request \<longleftrightarrow> plain (req_Path request) \<and>
     (case decodeJSONBody (UnmarshalRecord P) request of Inl _ \<Rightarrow> True | Inr record \<Rightarrow> plain_record record) \<and>
     (case decodeJSONBody (UnmarshalSeed P) request of Inl _ \<Rightarrow> True | Inr seed \<Rightarrow> plain_seed seed)"

lemma plain_zone_path:
  "plain (req_Path request) \<Longrightarrow> plain (TrimSpace (TrimPrefix (req_Path request) ''/zones/''))"
proof -
  have "set (TrimSpace (TrimPrefix p ''/zones/'')) \<subseteq> set p" for p
    using set_TrimSpace [of "TrimPrefix p ''/zones/''"] set_drop_subset [of "length ''/zones/''" p]
    by (auto simp: TrimPrefix_def split: if_split_asm)
  then show "plain (req_Path request) \<Longrightarrow> plain (TrimSpace (TrimPrefix (req_Path request) ''/zones/''))"
    by (rule plain_subset [rotated])
qed

lemma writeError_status: "writeError status err = Inr rsp \<Longrightarrow> rsp_Status rsp = status"
  by (cases err) (auto simp: writeError_def writeJSON_def)

text \<open>What a handler may do to the store: nothing unless it answers 200.\<close>

definition refusal_safe :: "('s \<Rightarrow> bool) \<Rightarrow> ('s \<Rightarrow> abs_store) \<Rightarrow> 's \<Rightarrow> (error + Response) \<times> 's \<Rightarrow> bool" where
  "refusal_safe invar content s res \<longleftrightarrow> invar (snd res) \<and>
     (content (snd res) \<noteq> content s \<longrightarrow> (\<exists>rsp. fst res = Inr rsp \<and> rsp_Status rsp = StatusOK))"

lemma refusal_safe_same: "invar s \<Longrightarrow> refusal_safe invar content s (res, s)"
  by (simp add: refusal_safe_def)

lemma refusal_safe_OK: "invar s' \<Longrightarrow> refusal_safe invar content s (Inr (writeJSON StatusOK body), s')"
  by (simp add: refusal_safe_def writeJSON_def)

lemmas refusal_safe_intros = refusal_safe_same refusal_safe_OK

context repository
begin

lemma handleZone_safe:
  assumes "invar s" and "plain (req_Path request)"
  shows "refusal_safe invar content s (handleZone E (Some \<lparr>adm_manager = mgr_of R\<rparr>) request s)"
proof -
  define zone where "zone = TrimSpace (TrimPrefix (req_Path request) ''/zones/'')"
  have p: "plain zone" using plain_zone_path [OF assms(2)] by (simp add: zone_def)
  then have pz: "plain (zone_Name \<lparr>zone_Name = zone\<rparr>)" by simp
  have put: "refusal_safe invar content s (case mgr_UpsertZone E (mgr_of R) \<lparr>zone_Name = zone\<rparr> s of
      (Inl err, s') \<Rightarrow> (writeError StatusBadRequest err, s')
    | (Inr savedZone, s') \<Rightarrow> (Inr (writeJSON StatusOK (JsonZone savedZone)), s'))"
  proof (cases "NormalizeZoneName E zone")
    case (Inl err)
    then show ?thesis using assms(1) by (simp add: mgr_errors refusal_safe_intros)
  next
    case (Inr z)
    then have Inr': "NormalizeZoneName E (zone_Name \<lparr>zone_Name = zone\<rparr>) = Inr z" by simp
    show ?thesis by (rule UpsertZone_spec [OF assms(1) pz Inr']) (simp add: refusal_safe_intros)
  qed
  have del: "refusal_safe invar content s (case mgr_DeleteZone E (mgr_of R) zone s of
      (Inl err, s') \<Rightarrow> (writeError StatusBadRequest err, s')
    | (Inr u, s') \<Rightarrow> (Inr (writeJSON StatusOK (JsonDeletedZone zone)), s'))"
  proof (cases "NormalizeZoneName E zone")
    case (Inl err)
    then show ?thesis using assms(1) by (simp add: mgr_errors refusal_safe_intros)
  next
    case (Inr z)
    show ?thesis by (rule DeleteZone_spec [OF assms(1) p Inr]) (simp add: refusal_safe_intros)
  qed
  show ?thesis using put del assms(1)
    by (simp add: handleZone_def requireManager_def handler_manager_def zone_def [symmetric] Let_def refusal_safe_intros)
qed

lemma UpsertRecord_safe:
  assumes "invar s" and "set_pkg_ok OS" and "plain_record r" and "mgr_UpsertRecord E OS (mgr_of R) r s = (res, s')"
  shows "invar s'" and "isl res \<Longrightarrow> s' = s"
proof -
  show "invar s'" using UpsertRecord_invar [OF assms] by simp
  show "s' = s" if "isl res"
  proof (cases "NormalizeRecord E r")
    case (Inl err)
    then show ?thesis using assms(4) by (simp add: mgr_UpsertRecord_def)
  next
    case (Inr n)
    show ?thesis
    proof (cases "zone_valid (rec_Zone n) False (zone_records (rec_Zone n) (put_content E n (content s)))")
      case True
      obtain s1 where "mgr_UpsertRecord E OS (mgr_of R) r s = (Inr n, s1)"
        using UpsertRecord_accepts [OF assms(1-3) Inr True] by blast
      with assms(4) that show ?thesis by auto
    next
      case False
      from UpsertRecord_rejects [OF assms(1-3) Inr False] assms(4) show ?thesis by auto
    qed
  qed
qed

lemma handleRecords_safe:
  assumes "invar s" and "set_pkg_ok OS"
    and "case decodeJSONBody (UnmarshalRecord P) request of Inl _ \<Rightarrow> True | Inr record \<Rightarrow> plain_record record"
  shows "refusal_safe invar content s (handleRecords E OS P (Some \<lparr>adm_manager = mgr_of R\<rparr>) request s)"
proof -
  have get: "refusal_safe invar content s (handleGetRecords E P (Some \<lparr>adm_manager = mgr_of R\<rparr>) request s)"
    using assms(1) by (simp add: handleGetRecords_def refusal_safe_intros split: sum.split)
  have put: "refusal_safe invar content s (handlePutRecord E OS P (Some \<lparr>adm_manager = mgr_of R\<rparr>) request s)"
  proof (cases "decodeJSONBody (UnmarshalRecord P) request")
    case (Inl err)
    then show ?thesis using assms(1) by (simp add: handlePutRecord_def refusal_safe_intros)
  next
    case (Inr r)
    then have p: "plain_record r" using assms(3) by simp
    obtain res s' where op: "mgr_UpsertRecord E OS (mgr_of R) r s = (res, s')" by (cases "mgr_UpsertRecord E OS (mgr_of R) r s")
    from UpsertRecord_safe [OF assms(1,2) p op] show ?thesis
      by (cases res) (simp_all add: handlePutRecord_def Inr handler_manager_def op refusal_safe_intros)
  qed
  have del: "refusal_safe invar content s (handleDeleteRecord E P (Some \<lparr>adm_manager = mgr_of R\<rparr>) request s)"
  proof (cases "decodeJSONBody (UnmarshalRecord P) request")
    case (Inl err)
    then show ?thesis using assms(1) by (simp add: handleDeleteRecord_def refusal_safe_intros)
  next
    case r: (Inr r)
    then have p: "plain_record r" using assms(3) by simp
    show ?thesis
    proof (cases "NormalizeRecord E r")
      case (Inl err)
      then show ?thesis using assms(1) by (simp add: handleDeleteRecord_def r handler_manager_def mgr_errors refusal_safe_intros)
    next
      case (Inr n)
      show ?thesis by (rule DeleteRecord_spec [OF assms(1) p Inr])
          (simp add: handleDeleteRecord_def r handler_manager_def refusal_safe_intros)
    qed
  qed
  show ?thesis using get put del assms(1) by (simp add: handleRecords_def requireManager_def refusal_safe_intros)
qed

lemma handleSeedImport_safe:
  assumes "invar s" and "set_pkg_ok OS"
    and "case decodeJSONBody (UnmarshalSeed P) request of Inl _ \<Rightarrow> True | Inr seed \<Rightarrow> plain_seed seed"
  shows "refusal_safe invar content s (handleSeedImport E OS P (Some \<lparr>adm_manager = mgr_of R\<rparr>) request s)"
proof (cases "decodeJSONBody (UnmarshalSeed P) request")
  case (Inl err)
  then show ?thesis using assms(1) by (simp add: handleSeedImport_def requireManager_def refusal_safe_intros)
next
  case (Inr seed)
  then have p: "plain_seed seed" using assms(3) by simp
  obtain res s' where op: "ImportSeedData E OS (mgr_of R) seed s = (res, s')" by (cases "ImportSeedData E OS (mgr_of R) seed s")
  show ?thesis by (rule ImportSeedData_cases [OF assms(1,2) p op])
      (use assms(1) in \<open>simp_all add: handleSeedImport_def requireManager_def Inr handler_manager_def op refusal_safe_intros\<close>)
qed

lemma newAdminHandler_safe:
  assumes "invar s" and "set_pkg_ok OS" and "plain_admin_request P request"
  shows "refusal_safe invar content s (newAdminHandler E OS P (mgr_of R) request s)"
proof -
  have p: "plain (req_Path request)"
    "case decodeJSONBody (UnmarshalRecord P) request of Inl _ \<Rightarrow> True | Inr record \<Rightarrow> plain_record record"
    "case decodeJSONBody (UnmarshalSeed P) request of Inl _ \<Rightarrow> True | Inr seed \<Rightarrow> plain_seed seed"
    using assms(3) by (simp_all add: plain_admin_request_def)
  have health: "refusal_safe invar content s (handleHealth request s)"
    using assms(1) by (simp add: handleHealth_def refusal_safe_intros)
  have zones: "refusal_safe invar content s (handleZones (Some \<lparr>adm_manager = mgr_of R\<rparr>) request s)"
    using assms(1) by (simp add: handleZones_def requireManager_def refusal_safe_intros split: sum.split)
  show ?thesis
    using health zones handleZone_safe [OF assms(1) p(1)] handleRecords_safe [OF assms(1,2) p(2)]
      handleSeedImport_safe [OF assms(1,2) p(3)] refusal_safe_same [of invar s content, OF assms(1)]
    by (cases "muxRoute request") (simp_all add: newAdminHandler_def Let_def)
qed

end

section \<open>Which routes and methods there are\<close>

fun allowed_methods :: "route \<Rightarrow> string list" where
  "allowed_methods RouteHealth = [''GET'']"
| "allowed_methods RouteZones = [''GET'']"
| "allowed_methods RouteZone = [''PUT'', ''DELETE'']"
| "allowed_methods RouteRecords = [''GET'', ''PUT'', ''DELETE'']"
| "allowed_methods RouteSeedImport = [''POST'']"
| "allowed_methods RouteRedirect = []"
| "allowed_methods RouteNotFound = []"

text \<open>A segment that cleaning and unescaping leave as it is.\<close>

definition plain_segment :: "string \<Rightarrow> bool" where
  "plain_segment seg \<longleftrightarrow> seg \<notin> {[], ''.'', ''..''} \<and> CHR ''/'' \<notin> set seg \<and> CHR ''%'' \<notin> set seg"

lemma pathUnescape_Cons: "c \<noteq> CHR ''%'' \<Longrightarrow> pathUnescape (c # cs) = c # pathUnescape cs"
  by (simp split: list.split option.split)

lemma pathUnescape_plain: "CHR ''%'' \<notin> set s \<Longrightarrow> pathUnescape s = s"
  by (induction s) (simp_all add: pathUnescape_Cons [OF not_sym] del: pathUnescape.simps(2))

lemma muxRoute_zone:
  assumes "plain_segment z" and "req_EscapedPath request = ''/zones/'' @ z"
  shows "muxRoute request = RouteZone"
proof -
  have z: "z \<noteq> []" "z \<noteq> ''.''" "z \<noteq> ''..''" "CHR ''/'' \<notin> set z" "CHR ''%'' \<notin> set z" using assms(1) by (simp_all add: plain_segment_def)
  have split: "split_on (CHR ''/'') (''/zones/'' @ z) = [[], ''zones'', z]"
    using split_on_append_sep [of "CHR ''/''" "''/zones''" z] by (simp add: split_on_no_sep [OF z(4)])
  have "last (''/zones/'' @ z) \<noteq> CHR ''/''" using z(1,4) by (metis last_appendR last_in_set)
  then have "cleanPath (''/zones/'' @ z) = ''/zones/'' @ z"
    unfolding cleanPath_def split using z by (simp add: split [simplified])
  moreover have "map pathUnescape (tl [[], ''zones'', z]) = [''zones'', z]" using z(5) by (simp add: pathUnescape_plain del: pathUnescape.simps(2))
  moreover have "routeSegments [''zones'', z] = RouteZone" by (simp add: routeSegments_def)
  ultimately show ?thesis unfolding muxRoute_def Let_def assms(2) split by simp
qed

lemma muxRoute_records: "req_EscapedPath request = ''/records'' \<Longrightarrow> muxRoute request = RouteRecords"
proof -
  have "cleanPath ''/records'' = ''/records''" "routeSegments (map pathUnescape (tl (split_on (CHR ''/'') ''/records''))) = RouteRecords"
    by code_simp+
  then show "req_EscapedPath request = ''/records'' \<Longrightarrow> muxRoute request = RouteRecords" by (simp add: muxRoute_def Let_def)
qed

lemma newAdminHandler_routes:
  "muxRoute request = RouteHealth \<Longrightarrow> newAdminHandler E OS P m request s = handleHealth request s"
  "muxRoute request = RouteZones \<Longrightarrow> newAdminHandler E OS P m request s = handleZones (Some \<lparr>adm_manager = m\<rparr>) request s"
  "muxRoute request = RouteZone \<Longrightarrow> newAdminHandler E OS P m request s = handleZone E (Some \<lparr>adm_manager = m\<rparr>) request s"
  "muxRoute request = RouteRecords \<Longrightarrow> newAdminHandler E OS P m request s = handleRecords E OS P (Some \<lparr>adm_manager = m\<rparr>) request s"
  "muxRoute request = RouteSeedImport \<Longrightarrow> newAdminHandler E OS P m request s = handleSeedImport E OS P (Some \<lparr>adm_manager = m\<rparr>) request s"
  by (simp_all add: newAdminHandler_def)

section \<open>Requests as calls of the manager\<close>

lemma snd_reply [simp]: "snd (case res of (Inl err, s') \<Rightarrow> (f err, s') | (Inr x, s') \<Rightarrow> (g x, s')) = snd res"
  by (simp split: prod.split sum.split)

text \<open>Every request but the import of a seed is one call of the manager or none.\<close>

lemma request_is_call:
  assumes "plain_admin_request P request" and "muxRoute request \<noteq> RouteSeedImport" and "mgr_reach E OS m s0 s"
  shows "mgr_reach E OS m s0 (snd (newAdminHandler E OS P m request s))"
proof -
  have p: "plain (TrimSpace (TrimPrefix (req_Path request) ''/zones/''))"
    by (rule plain_zone_path) (use assms(1) in \<open>simp add: plain_admin_request_def\<close>)
  then have zone: "mgr_reach E OS m s0 (snd (handleZone E (Some \<lparr>adm_manager = m\<rparr>) request s))"
    using mgr_reach.upsert_zone [OF assms(3), of "\<lparr>zone_Name = TrimSpace (TrimPrefix (req_Path request) ''/zones/'')\<rparr>"]
      mgr_reach.delete_zone [OF assms(3) p] assms(3) p
    by (simp add: handleZone_def handler_manager_def Let_def split: sum.split)
  have records: "mgr_reach E OS m s0 (snd (handleRecords E OS P (Some \<lparr>adm_manager = m\<rparr>) request s))"
  proof (cases "decodeJSONBody (UnmarshalRecord P) request")
    case (Inl err)
    then show ?thesis using assms(3)
      by (simp add: handleRecords_def handleGetRecords_def handlePutRecord_def handleDeleteRecord_def split: sum.split)
  next
    case (Inr r)
    then have "plain_record r" using assms(1) by (simp add: plain_admin_request_def)
    from mgr_reach.upsert_record [OF assms(3) this] mgr_reach.delete_record [OF assms(3) this] Inr assms(3) show ?thesis
      by (simp add: handleRecords_def handleGetRecords_def handlePutRecord_def handleDeleteRecord_def handler_manager_def
          split: sum.split)
  qed
  show ?thesis
    using zone records assms(2,3)
    by (cases "muxRoute request")
      (simp_all add: newAdminHandler_def Let_def handleHealth_def handleZones_def split: sum.split)
qed

lemma parseOptional_empty [simp]: "parseOptionalUint16 P [] named = Inr None"
proof -
  have "TrimSpace [] = []" using set_TrimSpace [of "[]"] by simp
  then show ?thesis by (simp add: parseOptionalUint16_def ToUpper_def ascii_def)
qed

context repository
begin

lemma newAdminHandler_valid:
  assumes "invar s" and "set_pkg_ok OS" and "all_valid (content s)" and "plain_admin_request P request"
    and "muxRoute request \<noteq> RouteSeedImport"
  shows "invar (snd (newAdminHandler E OS P (mgr_of R) request s)) \<and>
    all_valid (content (snd (newAdminHandler E OS P (mgr_of R) request s)))"
  by (rule mgr_reach_valid [OF assms(1-3) request_is_call [OF assms(4,5) mgr_reach.start]])

lemma put_zone:
  assumes "invar s" and "muxRoute request = RouteZone" and "req_Method request = ''PUT''"
    and "TrimSpace (TrimPrefix (req_Path request) ''/zones/'') = z" and "z \<noteq> []" and "plain z" and "NormalizeZoneName E z = Inr n"
  shows "\<exists>s'. newAdminHandler E OS P (mgr_of R) request s = (Inr (writeJSON StatusOK (JsonZone \<lparr>zone_Name = n\<rparr>)), s') \<and> invar s' \<and>
    content s' = (content s)\<lparr>abs_zones := insert n (abs_zones (content s))\<rparr>"
proof -
  obtain s' where "mgr_UpsertZone E (mgr_of R) \<lparr>zone_Name = z\<rparr> s = (Inr \<lparr>zone_Name = n\<rparr>, s')" "invar s'"
    "content s' = (content s)\<lparr>abs_zones := insert n (abs_zones (content s))\<rparr>"
    using UpsertZone_spec [OF assms(1), of "\<lparr>zone_Name = z\<rparr>" n] assms(6,7) by auto
  then show ?thesis
    by (simp add: newAdminHandler_routes(3) [OF assms(2)] handleZone_def requireManager_def handler_manager_def assms(3-5))
qed

lemma put_then_get:
  assumes "invar s" and "set_pkg_ok OS" and "plain_admin_request P put"
    and "muxRoute put = RouteRecords" and "req_Method put = ''PUT''"
    and "newAdminHandler E OS P (mgr_of R) put s = (Inr rsp, s')" and "rsp_Status rsp = StatusOK"
  obtains r n where "decodeJSONBody (UnmarshalRecord P) put = Inr r" and "NormalizeRecord E r = Inr n"
    and "rsp_Body rsp = JsonRecord n" and "invar s'" and "content s' = put_content E n (content s)"
proof (cases "decodeJSONBody (UnmarshalRecord P) put")
  case (Inl err)
  then have "fst (newAdminHandler E OS P (mgr_of R) put s) = writeError StatusBadRequest err"
    using assms(4,5) by (simp add: newAdminHandler_routes handleRecords_def requireManager_def handlePutRecord_def)
  then show ?thesis using writeError_status [of StatusBadRequest err rsp] assms(6,7) by simp
next
  case (Inr r)
  have run: "newAdminHandler E OS P (mgr_of R) put s =
      (case mgr_UpsertRecord E OS (mgr_of R) r s of
         (Inl err, s') \<Rightarrow> (writeError StatusBadRequest err, s')
       | (Inr savedRecord, s') \<Rightarrow> (Inr (writeJSON StatusOK (JsonRecord savedRecord)), s'))"
    using assms(4,5) Inr
    by (simp add: newAdminHandler_routes handleRecords_def requireManager_def handlePutRecord_def handler_manager_def)
  have p: "plain_record r" using assms(3) Inr by (simp add: plain_admin_request_def)
  obtain res s1 where op: "mgr_UpsertRecord E OS (mgr_of R) r s = (res, s1)" by (cases "mgr_UpsertRecord E OS (mgr_of R) r s")
  show ?thesis
  proof (cases res)
    case (Inl err)
    then show ?thesis using writeError_status [of StatusBadRequest err rsp] assms(6,7) run op by simp
  next
    case saved: (Inr m)
    then obtain n where n: "NormalizeRecord E r = Inr n" using op by (auto simp: mgr_UpsertRecord_def split: sum.splits)
    have "zone_valid (rec_Zone n) False (zone_records (rec_Zone n) (put_content E n (content s)))"
      using UpsertRecord_rejects [OF assms(1,2) p n] op saved by auto
    then obtain s2 where s2: "mgr_UpsertRecord E OS (mgr_of R) r s = (Inr n, s2)" "invar s2" "content s2 = put_content E n (content s)"
      using UpsertRecord_accepts [OF assms(1,2) p n] by blast
    then have "rsp_Body rsp = JsonRecord n" "s' = s2" using assms(6) run by (auto simp: writeJSON_def)
    with s2 Inr n that show ?thesis by blast
  qed
qed

end

section \<open>Reference functions for the examples\<close>

definition http_ref :: http_pkg where
  "http_ref =
     \<lparr>StringToType = map_of [(''A'', TypeA), (''NS'', TypeNS), (''CNAME'', TypeCNAME), (''SOA'', TypeSOA), (''ANY'', TypeANY)],
      StringToClass = map_of [(''IN'', ClassINET), (''NONE'', ClassNONE), (''ANY'', ClassANY)],
      unicodeUpper = id, RedirectStatus = 307,
      UnmarshalRecord = (\<lambda>body. case split_on (CHR '' '') body of
          [zone, name, data] \<Rightarrow> Inr \<lparr>rec_Zone = zone, rec_Name = name, rec_TTL = 60, rec_Class = 0, rec_Type = TypeA, rec_Data = data\<rparr>
        | _ \<Rightarrow> Inl ''unexpected end of JSON input''),
      UnmarshalSeed = (\<lambda>body. if body = [] then Inl ''unexpected end of JSON input'' else Inr sample_seed)\<rparr>"

definition no_query :: "string \<Rightarrow> string" where
  "no_query key = []"

definition admin_request :: "string \<Rightarrow> string \<Rightarrow> string \<Rightarrow> Request" where
  "admin_request method path body =
     \<lparr>req_Method = method, req_Path = path, req_EscapedPath = path, req_Query = no_query, req_Body = (body, None)\<rparr>"

definition www_put :: Request where
  "www_put = admin_request ''PUT'' ''/records'' ''Example.org www.example.org 192.0.2.1''"

lemma decodeJSONBody_short:
  "length body \<le> bodyLimit \<Longrightarrow> decodeJSONBody unmarshal (admin_request method path body) =
     (case unmarshal body of Inl err \<Rightarrow> Inl (External err) | Inr value \<Rightarrow> Inr value)"
  by (simp add: decodeJSONBody_def readLimited_def admin_request_def)

abbreviation ref_admin where
  "ref_admin \<equiv> newAdminHandler names_ref set_ref http_ref sample_mgr"

section \<open>Properties\<close>

text \<open>
  C37: Types and classes of a query are read by name or as a decimal number. Blanks around the value are
  ignored and an empty value is no value; a number is accepted exactly up to 65535 and keeps its value in 16
  bits, everything else is an error.
\<close>

theorem parseOptionalUint16_cases:
  assumes "ascii value"
  shows "let n = map upperByte (TrimSpace value); res = parseOptionalUint16 P value named in
    (if n = [] then res = Inr None
     else case named n of
       Some t \<Rightarrow> res = Inr (Some t)
     | None \<Rightarrow>
         (if list_all isDigit n \<and> undec n \<le> 65535
          then \<exists>t. res = Inr (Some t) \<and> unat t = undec n
          else \<exists>err. res = Inl (External err)))"
proof -
  let ?n = "map upperByte (TrimSpace value)"
  have upper: "ToUpper (unicodeUpper P) (TrimSpace value) = ?n"
    using ascii_subset [OF assms set_TrimSpace] by (simp add: ToUpper_def)
  have number: "if list_all isDigit ?n \<and> undec ?n \<le> 65535
      then \<exists>t. parseOptionalUint16 P value named = Inr (Some t) \<and> unat t = undec ?n
      else \<exists>err. parseOptionalUint16 P value named = Inl (External err)" if "?n \<noteq> []" "named ?n = None"
  proof (cases "list_all isDigit ?n")
    case True
    from ParseUint16_digits [OF True that(1)] that show ?thesis
      by (auto simp: parseOptionalUint16_def upper Let_def True unat_of_nat take_bit_nat_eq_self)
  next
    case False
    from ParseUint16_other [OF False] that show ?thesis
      by (auto simp: parseOptionalUint16_def upper Let_def False)
  qed
  show ?thesis
  proof (cases "?n = []")
    case True
    then show ?thesis unfolding parseOptionalUint16_def upper Let_def by simp
  next
    case False
    show ?thesis
    proof (cases "named ?n")
      case None
      with False number show ?thesis by simp
    next
      case (Some t)
      with False show ?thesis by (simp add: parseOptionalUint16_def upper Let_def)
    qed
  qed
qed

theorem parseOptionalUint16_cases_witness:
  "(\<exists>t. parseOptionalUint16 http_ref '' 65535 '' (StringToType http_ref) = Inr (Some t) \<and> unat t = 65535) \<and>
   (\<exists>err. parseOptionalUint16 http_ref ''65536'' (StringToType http_ref) = Inl (External err)) \<and>
   parseOptionalUint16 http_ref ''cname'' (StringToType http_ref) = Inr (Some TypeCNAME)"
proof (intro conjI)
  have a: "ascii '' 65535 ''" "ascii ''65536''" "ascii ''cname''" by code_simp+
  have n: "map upperByte (TrimSpace '' 65535 '') = ''65535''" "map upperByte (TrimSpace ''65536'') = ''65536''"
    "map upperByte (TrimSpace ''cname'') = ''CNAME''" by code_simp+
  have d: "list_all isDigit ''65535''" "undec ''65535'' = 65535" "undec ''65536'' = 65536"
    "StringToType http_ref ''65535'' = None" "StringToType http_ref ''65536'' = None" "StringToType http_ref ''CNAME'' = Some TypeCNAME"
    by (simp_all add: isDigit_def undec_def http_ref_def)
  note c = parseOptionalUint16_cases [where P = http_ref and named = "StringToType http_ref", unfolded Let_def]
  show "\<exists>t. parseOptionalUint16 http_ref '' 65535 '' (StringToType http_ref) = Inr (Some t) \<and> unat t = 65535"
    using c [OF a(1)] unfolding n d by (simp add: isDigit_def)
  show "\<exists>err. parseOptionalUint16 http_ref ''65536'' (StringToType http_ref) = Inl (External err)"
    using c [OF a(2)] unfolding n d by simp
  show "parseOptionalUint16 http_ref ''cname'' (StringToType http_ref) = Inr (Some TypeCNAME)"
    using c [OF a(3)] unfolding n d by simp
qed



lemma refused_method:
  "req_Method request \<notin> set (allowed_methods (muxRoute request)) \<Longrightarrow>
   muxRoute request \<notin> {RouteRedirect, RouteNotFound} \<Longrightarrow> manager \<noteq> None \<or> muxRoute request = RouteHealth \<Longrightarrow>
   TrimSpace (TrimPrefix (req_Path request) ''/zones/'') \<noteq> [] \<Longrightarrow>
   \<exists>rsp. newAdminHandler E OS P manager request s = (Inr rsp, s) \<and> rsp_Status rsp = StatusMethodNotAllowed \<and>
     rsp_Allow rsp = Some (Join (allowed_methods (muxRoute request)) '', '')"
  by (cases "muxRoute request"; force simp: newAdminHandler_def Let_def handleHealth_def handleZones_def handleZone_def
        handleRecords_def handleSeedImport_def requireManager_def writeMethodNotAllowed_def writeJSON_def writeError_def)

lemma refused_manager:
  "muxRoute request \<notin> {RouteHealth, RouteRedirect, RouteNotFound} \<Longrightarrow>
   \<exists>rsp. newAdminHandler E OS P None request s = (Inr rsp, s) \<and> rsp_Status rsp = StatusServiceUnavailable"
  by (cases "muxRoute request"; force simp: newAdminHandler_def Let_def handleZones_def handleZone_def
        handleRecords_def handleSeedImport_def requireManager_def writeJSON_def writeError_def)

text \<open>
  C36: Every path has its methods: a request with another method is answered with 405 and the
  list of the path's methods in the header, and without a manager every path but the health check answers 503;
  neither touches the store.
\<close>

theorem Admin_refuses:
  "(req_Method request \<notin> set (allowed_methods (muxRoute request)) \<and> muxRoute request \<notin> {RouteRedirect, RouteNotFound} \<and>
      (manager \<noteq> None \<or> muxRoute request = RouteHealth) \<and> TrimSpace (TrimPrefix (req_Path request) ''/zones/'') \<noteq> [] \<longrightarrow>
    (\<exists>rsp. newAdminHandler E OS P manager request s = (Inr rsp, s) \<and> rsp_Status rsp = StatusMethodNotAllowed \<and>
      rsp_Allow rsp = Some (Join (allowed_methods (muxRoute request)) '', ''))) \<and>
   (muxRoute request \<notin> {RouteHealth, RouteRedirect, RouteNotFound} \<longrightarrow>
    (\<exists>rsp. newAdminHandler E OS P None request s = (Inr rsp, s) \<and> rsp_Status rsp = StatusServiceUnavailable))"
  using refused_method [of request manager E OS P s] refused_manager [of request E OS P s] by blast

theorem Admin_refuses_witness:
  "(\<exists>rsp. ref_admin (admin_request ''POST'' ''/records'' []) sample_state = (Inr rsp, sample_state) \<and>
     rsp_Status rsp = StatusMethodNotAllowed \<and> rsp_Allow rsp = Some ''GET, PUT, DELETE'') \<and>
   (\<exists>rsp. newAdminHandler names_ref set_ref http_ref None (admin_request ''GET'' ''/zones'' []) sample_state = (Inr rsp, sample_state) \<and>
     rsp_Status rsp = StatusServiceUnavailable)"
proof -
  have r: "muxRoute (admin_request ''POST'' ''/records'' []) = RouteRecords" "muxRoute (admin_request ''GET'' ''/zones'' []) = RouteZones"
    "req_Method (admin_request ''POST'' ''/records'' []) = ''POST''"
    "TrimSpace (TrimPrefix (req_Path (admin_request ''POST'' ''/records'' [])) ''/zones/'') \<noteq> []"
    by code_simp+
  from Admin_refuses [of "admin_request ''POST'' ''/records'' []" sample_mgr names_ref set_ref http_ref sample_state]
    Admin_refuses [of "admin_request ''GET'' ''/zones'' []" sample_mgr names_ref set_ref http_ref sample_state]
  show ?thesis by (simp add: r)
qed


definition www_get :: Request where
  "www_get = (admin_request ''GET'' ''/records'' [])\<lparr>req_Query := (no_query(''zone'' := ''example.org.''))(''name'' := ''www.example.org.'')\<rparr>"

definition www_saved :: Record where
  "www_saved = sample_record\<lparr>rec_TTL := 60\<rparr>"


text \<open>
  A PUT on the path of a zone stores the zone, with the name in lower case and fully qualified, and
  keeps all other content; a DELETE on the same path removes the zone with its records and nothing else.
\<close>

theorem Admin_zone_path:
  assumes "mem_inv E M s" and "plain z" and "plain_segment z" and "NormalizeZoneName E z = Inr n" and "TrimSpace z = z"
    and "req_Path request = ''/zones/'' @ z" and "req_EscapedPath request = ''/zones/'' @ z"
  shows "req_Method request = ''PUT'' \<Longrightarrow>
      \<exists>s'. newAdminHandler E OS P (mem_mgr E M) request s = (Inr (writeJSON StatusOK (JsonZone \<lparr>zone_Name = n\<rparr>)), s') \<and> mem_inv E M s' \<and>
        mem_content M s' = (mem_content M s)\<lparr>abs_zones := insert n (abs_zones (mem_content M s))\<rparr>"
    and "req_Method request = ''DELETE'' \<Longrightarrow>
      \<exists>s'. newAdminHandler E OS P (mem_mgr E M) request s = (Inr (writeJSON StatusOK (JsonDeletedZone z)), s') \<and> mem_inv E M s' \<and>
        mem_content M s' = \<lparr>abs_zones = abs_zones (mem_content M s) - {n},
                            abs_records = {r \<in> abs_records (mem_content M s). rec_Zone r \<noteq> n}\<rparr>"
proof -
  have z: "TrimSpace (TrimPrefix (''/zones/'' @ z) ''/zones/'') = z" "z \<noteq> []"
    using assms(3,5) by (simp_all add: TrimPrefix_def plain_segment_def)
  note run = newAdminHandler_routes(3) [OF muxRoute_zone [OF assms(3,7)]]
  show "req_Method request = ''PUT'' \<Longrightarrow>
      \<exists>s'. newAdminHandler E OS P (mem_mgr E M) request s = (Inr (writeJSON StatusOK (JsonZone \<lparr>zone_Name = n\<rparr>)), s') \<and> mem_inv E M s' \<and>
        mem_content M s' = (mem_content M s)\<lparr>abs_zones := insert n (abs_zones (mem_content M s))\<rparr>"
    by (rule mem.put_zone [OF assms(1) muxRoute_zone [OF assms(3,7)]]) (use assms(2,4,6) z in simp_all)
  show "req_Method request = ''DELETE'' \<Longrightarrow>
      \<exists>s'. newAdminHandler E OS P (mem_mgr E M) request s = (Inr (writeJSON StatusOK (JsonDeletedZone z)), s') \<and> mem_inv E M s' \<and>
        mem_content M s' = \<lparr>abs_zones = abs_zones (mem_content M s) - {n},
                            abs_records = {r \<in> abs_records (mem_content M s). rec_Zone r \<noteq> n}\<rparr>"
    by (rule mem.DeleteZone_spec [OF assms(1,2,4)])
      (use z in \<open>simp_all add: run handleZone_def requireManager_def handler_manager_def assms(6)\<close>)
qed

theorem Admin_zone_path_witness:
  "\<exists>s'. ref_admin (admin_request ''PUT'' ''/zones/Example.NET'' []) sample_state =
     (Inr (writeJSON StatusOK (JsonZone \<lparr>zone_Name = ''example.net.''\<rparr>)), s') \<and>
     abs_zones (mem_content mapping_ref s') = insert ''example.net.'' (abs_zones (mem_content mapping_ref sample_state))"
  "\<exists>s'. ref_admin (admin_request ''DELETE'' ''/zones/example.org'' []) sample_state =
     (Inr (writeJSON StatusOK (JsonDeletedZone ''example.org'')), s') \<and>
     ''example.org.'' \<notin> abs_zones (mem_content mapping_ref s')"
proof -
  have n: "plain ''Example.NET''" "plain_segment ''Example.NET''" "NormalizeZoneName names_ref ''Example.NET'' = Inr ''example.net.''"
    "TrimSpace ''Example.NET'' = ''Example.NET''" by code_simp+
  have o: "plain ''example.org''" "plain_segment ''example.org''" "NormalizeZoneName names_ref ''example.org'' = Inr ''example.org.''"
    "TrimSpace ''example.org'' = ''example.org''" by code_simp+
  have p: "req_Path (admin_request m (''/zones/'' @ z) []) = ''/zones/'' @ z" "req_Method (admin_request m path []) = m"
    "req_EscapedPath (admin_request m (''/zones/'' @ z) []) = ''/zones/'' @ z" for m z path by (simp_all add: admin_request_def)
  show "\<exists>s'. ref_admin (admin_request ''PUT'' ''/zones/Example.NET'' []) sample_state =
     (Inr (writeJSON StatusOK (JsonZone \<lparr>zone_Name = ''example.net.''\<rparr>)), s') \<and>
     abs_zones (mem_content mapping_ref s') = insert ''example.net.'' (abs_zones (mem_content mapping_ref sample_state))"
    using Admin_zone_path(1) [OF sample_state_inv n p(1,3) p(2), of set_ref http_ref] by fastforce
  show "\<exists>s'. ref_admin (admin_request ''DELETE'' ''/zones/example.org'' []) sample_state =
     (Inr (writeJSON StatusOK (JsonDeletedZone ''example.org'')), s') \<and>
     ''example.org.'' \<notin> abs_zones (mem_content mapping_ref s')"
    using Admin_zone_path(2) [OF sample_state_inv o p(1,3) p(2), of set_ref http_ref] by fastforce
qed

section \<open>Behaviour a reader may not expect\<close>

text \<open>
  The pattern \<^verbatim>\<open>/zones/\<close> takes all paths below it and the handler takes what follows as the name: a
  slash at the end becomes part of the name of a zone, which no DELETE without the slash removes.
\<close>

lemma handleZone_slash:
  "map_sum id rsp_Body (fst (ref_admin (admin_request ''PUT'' ''/zones/example.net/'' []) (NewMemoryStore mapping_ref))) =
     Inr (JsonZone \<lparr>zone_Name = ''example.net/.''\<rparr>)"
proof -
  have path: "cleanPath ''/zones/example.net/'' = ''/zones/example.net/''" "tl (split_on (CHR ''/'') ''/zones/example.net/'') = [''zones'', ''example.net'', []]"
    by code_simp+
  have "map pathUnescape [''zones'', ''example.net'', []] = [''zones'', ''example.net'', []]"
    by (simp add: pathUnescape_plain del: pathUnescape.simps(2))
  then have route: "muxRoute (admin_request ''PUT'' ''/zones/example.net/'' []) = RouteZone"
    by (simp add: muxRoute_def admin_request_def path [simplified] routeSegments_def Let_def)
  have z: "TrimSpace (TrimPrefix (req_Path (admin_request ''PUT'' ''/zones/example.net/'' [])) ''/zones/'') = ''example.net/''"
    "req_Method (admin_request ''PUT'' ''/zones/example.net/'' []) = ''PUT''"
    "''example.net/'' \<noteq> []" "plain ''example.net/''" "NormalizeZoneName names_ref ''example.net/'' = Inr ''example.net/.''"
    by code_simp+
  from mem.put_zone [OF mem_inv_New [OF names_ref_ok mapping_ref_ok] route z(2,1,3-5), of set_ref http_ref]
  show ?thesis by (elim exE conjE) (simp add: writeJSON_def)
qed

text \<open>A body longer than 1 MiB is cut without an error: what is decoded is its beginning.\<close>

lemma decodeJSONBody_cuts:
  "decodeJSONBody unmarshal (request\<lparr>req_Body := (body, None)\<rparr>) =
   decodeJSONBody unmarshal (request\<lparr>req_Body := (take bodyLimit body, None)\<rparr>)"
  by (simp add: decodeJSONBody_def readLimited_def)

end
