(* ===== verification/Command_Config.thy ===== *)
theory Command_Config
  imports Go_Std
begin

text \<open>
  The configuration of the command: \<^verbatim>\<open>cmd/server/config.go\<close>, the logger of \<^verbatim>\<open>cmd/server/app.go\<close> and the exit code of
  \<^verbatim>\<open>cmd/server/main.go\<close>. Reading files and the environment into the structure and checking the tags of its
  fields is work of \<^verbatim>\<open>configx\<close>, parsing flags of \<^verbatim>\<open>pflag\<close>; both are parameters.
\<close>

section \<open>The configuration\<close>

text \<open>The record \<open>Cmd_Config\<close> is \<^verbatim>\<open>Config\<close>, \<open>Cmd_CacheConfig\<close> is \<^verbatim>\<open>CacheConfig\<close> of the command.\<close>

record ServerConfig = sc_Listen :: string

record HTTPConfig = hc_Listen :: string

record StorageConfig = st_Path :: string

record SeedConfig = sd_File :: string

record LogConfig =
  lc_Console :: bool
  lc_Level :: string
  lc_File :: string

record Cmd_CacheConfig =
  cc_Capacity :: int
  cc_Algorithm :: string
  cc_Janitor :: bool
  cc_MissingCapacity :: int
  cc_MissingAlgorithm :: string

record Cmd_Config =
  cmd_Config :: string
  cmd_Server :: ServerConfig
  cmd_HTTP :: HTTPConfig
  cmd_Storage :: StorageConfig
  cmd_Seed :: SeedConfig
  cmd_Log :: LogConfig
  cmd_Cache :: Cmd_CacheConfig

definition defaultConfig :: Cmd_Config where
  "defaultConfig =
     \<lparr>cmd_Config = [], cmd_Server = \<lparr>sc_Listen = '':5354''\<rparr>, cmd_HTTP = \<lparr>hc_Listen = []\<rparr>, cmd_Storage = \<lparr>st_Path = ''dnsx.db''\<rparr>,
      cmd_Seed = \<lparr>sd_File = []\<rparr>, cmd_Log = \<lparr>lc_Console = True, lc_Level = ''info'', lc_File = []\<rparr>,
      cmd_Cache = \<lparr>cc_Capacity = 1024, cc_Algorithm = ''lru'', cc_Janitor = False, cc_MissingCapacity = 0, cc_MissingAlgorithm = []\<rparr>\<rparr>"

text \<open>What the tags \<^verbatim>\<open>validate\<close> of the fields ask for.\<close>

definition algorithms :: "string list" where
  "algorithms = [''lru'', ''lfu'', ''tinylfu'', ''wtinylfu'', ''2q'', ''arc'', ''fifo'', ''sieve'']"

definition levels :: "string list" where
  "levels = [''trace'', ''debug'', ''info'', ''warn'', ''error'', ''fatal'', ''panic'']"

definition valid_config :: "Cmd_Config \<Rightarrow> bool" where
  "valid_config cfg \<longleftrightarrow>
     sc_Listen (cmd_Server cfg) \<noteq> [] \<and> st_Path (cmd_Storage cfg) \<noteq> [] \<and> lc_Level (cmd_Log cfg) \<in> set levels \<and>
     1 \<le> cc_Capacity (cmd_Cache cfg) \<and> cc_Algorithm (cmd_Cache cfg) \<in> set algorithms \<and>
     0 \<le> cc_MissingCapacity (cmd_Cache cfg) \<and>
     (cc_MissingAlgorithm (cmd_Cache cfg) = [] \<or> cc_MissingAlgorithm (cmd_Cache cfg) \<in> set algorithms)"

section \<open>Flags\<close>

text \<open>A flag is declared with its name and its default; the help texts are left out.\<close>

datatype flag = StringFlag string string | BoolFlag string bool | IntFlag string int

definition newFlagSet :: "flag list" where
  "newFlagSet =
     [StringFlag ''config'' [], StringFlag ''server-listen'' [], StringFlag ''http-listen'' [], StringFlag ''storage-path'' [], StringFlag ''seed-file'' [],
      BoolFlag ''log-console'' False, StringFlag ''log-level'' [], StringFlag ''log-file'' [], IntFlag ''cache-capacity'' 0,
      StringFlag ''cache-algorithm'' [], BoolFlag ''cache-janitor'' False, IntFlag ''cache-missing-capacity'' 0, StringFlag ''cache-missing-algorithm'' []]"

fun findConfigFile :: "string list \<Rightarrow> string option" where
  "findConfigFile [] = None"
| "findConfigFile (arg # args) =
     (if arg = ''--config'' \<and> args \<noteq> [] then Some (TrimSpace (hd args))
      else if prefix ''--config='' arg then Some (TrimSpace (TrimPrefix arg ''--config=''))
      else findConfigFile args)"

section \<open>Loading: github.com/spf13/pflag, github.com/arcgolabs/configx\<close>

datatype flag_error = ErrHelp | FlagError string

datatype load_error = ParseFlagsFailed flag_error | LoadFailed string

datatype 'f configx_Option =
    WithTypedDefaults Cmd_Config | WithEnvPrefix string | WithEnvSeparator string | WithFlagSet 'f
  | WithValidateLevelStruct | WithFiles "string list"

text \<open>
  \<open>flagset_Parse\<close> parses arguments with the declared flags, \<open>LoadTErr\<close> loads a configuration as the options say;
  \<open>Getenv\<close> is the environment of the process.
\<close>

record 'f config_pkg =
  flagset_Parse :: "flag list \<Rightarrow> string list \<Rightarrow> flag_error + 'f"
  LoadTErr :: "'f configx_Option list \<Rightarrow> string + Cmd_Config"
  Getenv :: "string \<Rightarrow> string"

definition config_file :: "'f config_pkg \<Rightarrow> string list \<Rightarrow> string" where
  "config_file P args =
     (case findConfigFile args of
        Some file \<Rightarrow> file
      | None \<Rightarrow> if Getenv P ''DNSX_CONFIG'' \<noteq> [] then Getenv P ''DNSX_CONFIG'' else [])"

definition loadConfig :: "'f config_pkg \<Rightarrow> string list \<Rightarrow> load_error + Cmd_Config" where
  "loadConfig P args =
     (case flagset_Parse P newFlagSet args of
        Inl err \<Rightarrow> Inl (ParseFlagsFailed err)
      | Inr flagSet \<Rightarrow>
         (let configFile = config_file P args;
              options = [WithTypedDefaults defaultConfig, WithEnvPrefix ''DNSX'', WithEnvSeparator ''__'', WithFlagSet flagSet,
                         WithValidateLevelStruct];
              options1 = (if configFile \<noteq> [] then options @ [WithFiles [configFile]] else options) in
          case LoadTErr P options1 of
            Inl err \<Rightarrow> Inl (LoadFailed err)
          | Inr cfg \<Rightarrow> Inr (cfg\<lparr>cmd_Config := configFile\<rparr>)))"

section \<open>The logger: github.com/arcgolabs/logx\<close>

datatype logx_Option = WithConsole bool | WithLevelString string | WithFile string | WithCaller bool

definition newLogger :: "(logx_Option list \<Rightarrow> string + 'g) \<Rightarrow> Cmd_Config \<Rightarrow> string + 'g" where
  "newLogger logx_New cfg =
     (let options = [WithConsole (lc_Console (cmd_Log cfg)), WithLevelString (lc_Level (cmd_Log cfg))];
          options1 = (if lc_File (cmd_Log cfg) \<noteq> [] then options @ [WithFile (lc_File (cmd_Log cfg))] else options);
          options2 = (if lc_Level (cmd_Log cfg) = ''debug'' \<or> lc_Level (cmd_Log cfg) = ''trace''
                      then options1 @ [WithCaller True] else options1) in
      case logx_New options2 of
        Inl err \<Rightarrow> Inl err
      | Inr logger \<Rightarrow> Inr logger)"

definition defaultLogger :: "string + 'g \<Rightarrow> 'g \<Rightarrow> 'g" where
  "defaultLogger NewDevelopment slog_Default = (case NewDevelopment of Inl _ \<Rightarrow> slog_Default | Inr logger \<Rightarrow> logger)"

section \<open>The exit code\<close>

text \<open>
  \<open>ValidateReport\<close> and \<open>RunContext\<close> are the methods of the application that \<^verbatim>\<open>newApp\<close> builds; what they do to the
  world is theirs. The log messages are left out.
\<close>

definition run :: "'f config_pkg \<Rightarrow> (Cmd_Config \<Rightarrow> string + unit) \<Rightarrow> (Cmd_Config \<Rightarrow> 'w \<Rightarrow> (string + unit) \<times> 'w) \<Rightarrow> string list \<Rightarrow> 'w \<Rightarrow> int \<times> 'w" where
  "run P ValidateReport RunContext args w =
     (case loadConfig P args of
        Inl err \<Rightarrow> if err = ParseFlagsFailed ErrHelp then (0, w) else (1, w)
      | Inr cfg \<Rightarrow>
         (case ValidateReport cfg of
            Inl err \<Rightarrow> (1, w)
          | Inr _ \<Rightarrow>
             (case RunContext cfg w of
                (Inl err, w') \<Rightarrow> (1, w')
              | (Inr _, w') \<Rightarrow> (0, w'))))"

section \<open>Properties\<close>

text \<open>
  Documented behaviour of \<^verbatim>\<open>configx\<close> with \<^verbatim>\<open>ValidateLevelStruct\<close>: a configuration it returns meets the tags.
\<close>

definition configx_ok :: "'f config_pkg \<Rightarrow> bool" where
  "configx_ok P \<longleftrightarrow> (\<forall>options cfg. WithValidateLevelStruct \<in> set options \<longrightarrow> LoadTErr P options = Inr cfg \<longrightarrow> valid_config cfg)"

lemma valid_defaultConfig: "valid_config defaultConfig"
  by (simp add: valid_config_def defaultConfig_def algorithms_def levels_def)

lemma findConfigFile_first:
  assumes "\<And>arg. arg \<in> set args \<Longrightarrow> arg \<noteq> ''--config'' \<and> \<not> prefix ''--config='' arg"
  shows "findConfigFile (args @ ''--config'' # file # rest) = Some (TrimSpace file)"
    and "findConfigFile (args @ (''--config='' @ file) # rest) = Some (TrimSpace file)"
    and "findConfigFile args = None"
  using assms by (induction args) (auto simp: TrimPrefix_def)

text \<open>
  A configuration that is loaded meets the rules of its tags, and so do the defaults; it names the
  configuration file it was loaded with: the one of the first \<^verbatim>\<open>--config\<close> argument, if there is none the one of the
  environment, and \<^verbatim>\<open>configx\<close> reads exactly that file and none when the name is empty.
\<close>

theorem loadConfig_valid:
  assumes "configx_ok P" and "loadConfig P args = Inr cfg"
  shows "valid_config cfg" and "cmd_Config cfg = config_file P args"
    and "\<exists>options cfg'. LoadTErr P options = Inr cfg' \<and> cfg = cfg'\<lparr>cmd_Config := config_file P args\<rparr> \<and>
      WithTypedDefaults defaultConfig \<in> set options \<and>
      (\<forall>files. WithFiles files \<in> set options \<longleftrightarrow> files = [config_file P args] \<and> config_file P args \<noteq> [])"
proof -
  obtain flagSet where f: "flagset_Parse P newFlagSet args = Inr flagSet"
    using assms(2) by (cases "flagset_Parse P newFlagSet args") (auto simp: loadConfig_def)
  define options where "options = [WithTypedDefaults defaultConfig, WithEnvPrefix ''DNSX'', WithEnvSeparator ''__'',
    WithFlagSet flagSet, WithValidateLevelStruct] @ (if config_file P args \<noteq> [] then [WithFiles [config_file P args]] else [])"
  obtain cfg' where l: "LoadTErr P options = Inr cfg'" "cfg = cfg'\<lparr>cmd_Config := config_file P args\<rparr>"
    using assms(2) f by (auto simp: loadConfig_def options_def Let_def split: sum.splits if_splits)
  have "WithValidateLevelStruct \<in> set options" by (simp add: options_def)
  then have "valid_config cfg'" using assms(1) l(1) unfolding configx_ok_def by blast
  then show "valid_config cfg" "cmd_Config cfg = config_file P args" by (simp_all add: l(2) valid_config_def)
  have "WithTypedDefaults defaultConfig \<in> set options"
    "\<forall>files. WithFiles files \<in> set options \<longleftrightarrow> files = [config_file P args] \<and> config_file P args \<noteq> []"
    by (auto simp: options_def)
  with l show "\<exists>options cfg'. LoadTErr P options = Inr cfg' \<and> cfg = cfg'\<lparr>cmd_Config := config_file P args\<rparr> \<and>
      WithTypedDefaults defaultConfig \<in> set options \<and>
      (\<forall>files. WithFiles files \<in> set options \<longleftrightarrow> files = [config_file P args] \<and> config_file P args \<noteq> [])" by blast
qed

text \<open>A reference loader: it takes the defaults, and one file it knows, and checks the tags.\<close>

fun ref_apply :: "unit configx_Option \<Rightarrow> Cmd_Config \<Rightarrow> Cmd_Config" where
  "ref_apply (WithTypedDefaults defaults) cfg = defaults"
| "ref_apply (WithFiles files) cfg = (if ''big.yaml'' \<in> set files then cfg\<lparr>cmd_Cache := (cmd_Cache cfg)\<lparr>cc_Capacity := 9000\<rparr>\<rparr> else cfg)"
| "ref_apply _ cfg = cfg"

definition config_ref :: "unit config_pkg" where
  "config_ref =
     \<lparr>flagset_Parse = (\<lambda>flags args. if ''--help'' \<in> set args then Inl ErrHelp else Inr ()),
      LoadTErr = (\<lambda>options. let cfg = fold ref_apply options defaultConfig in if valid_config cfg then Inr cfg else Inl ''validation failed''),
      Getenv = (\<lambda>key. if key = ''DNSX_CONFIG'' then ''etc.yaml'' else [])\<rparr>"

theorem loadConfig_valid_witness:
  "\<exists>cfg. loadConfig config_ref [''--log-level'', ''debug'', ''--config=big.yaml''] = Inr cfg \<and> valid_config cfg \<and>
     cmd_Config cfg = ''big.yaml'' \<and> cc_Capacity (cmd_Cache cfg) = 9000"
proof -
  let ?args = "[''--log-level'', ''debug'', ''--config=big.yaml'']"
  have ok: "configx_ok config_ref" by (simp add: configx_ok_def config_ref_def Let_def)
  have name: "config_file config_ref ?args = ''big.yaml''" by code_simp
  have "\<exists>cfg. loadConfig config_ref ?args = Inr cfg \<and> cc_Capacity (cmd_Cache cfg) = 9000"
    unfolding loadConfig_def name
    by (simp add: config_ref_def defaultConfig_def valid_config_def algorithms_def levels_def)
  then obtain cfg where cfg: "loadConfig config_ref ?args = Inr cfg" "cc_Capacity (cmd_Cache cfg) = 9000" by blast
  with loadConfig_valid(1,2) [OF ok cfg(1)] name show ?thesis by auto
qed

text \<open>
  The command exits with 0 exactly when help was asked for or the configuration was loaded, the application
  passed its validation and ran to its end without an error; nothing runs before both checks passed.
\<close>

theorem run_exit_code:
  shows "fst (run P V R args w) = 0 \<longleftrightarrow>
      loadConfig P args = Inl (ParseFlagsFailed ErrHelp) \<or>
      (\<exists>cfg. loadConfig P args = Inr cfg \<and> V cfg = Inr () \<and> fst (R cfg w) = Inr ())"
    and "fst (run P V R args w) \<in> {0, 1}"
    and "snd (run P V R args w) = w \<or> (\<exists>cfg. loadConfig P args = Inr cfg \<and> V cfg = Inr () \<and> snd (run P V R args w) = snd (R cfg w))"
  by (auto simp: run_def split: sum.split prod.split)

text \<open>
  The file is searched in the arguments themselves, not in the parsed flags: the first \<^verbatim>\<open>--config\<close> wins where
  \<^verbatim>\<open>pflag\<close> has the last one win, the value of another flag is taken for the flag, and so is what follows \<^verbatim>\<open>--\<close>.
\<close>

lemma findConfigFile_differs_from_flags:
  "findConfigFile [''--config'', ''a.yaml'', ''--config'', ''b.yaml''] = Some ''a.yaml''"
  "findConfigFile [''--log-file'', ''--config'', ''--http-listen'', '':80''] = Some ''--http-listen''"
  "findConfigFile [''--'', ''--config=a.yaml''] = Some ''a.yaml''"
  by code_simp+

end
