(* ===== verification/Admin_Server.thy ===== *)
theory Admin_Server
  imports Admin_Facts Command_Config
begin

text \<open>
  The HTTP server of the administrator, \<^verbatim>\<open>cmd/server/admin_server.go\<close>: when it is made, and how \<^verbatim>\<open>Start\<close> and \<^verbatim>\<open>Stop\<close> use
  the \<^verbatim>\<open>http.Server\<close> of the standard library.
\<close>

section \<open>Sockets and net/http\<close>

text \<open>
  The network is a world \<open>'w\<close>, listeners \<open>'l\<close> are handles. \<open>tcp_bound\<close>, the listeners that are open, is used to
  state the behaviour.
\<close>

record ('l, 'w) tcp_pkg =
  tcp_Listen :: "string \<Rightarrow> string \<Rightarrow> (string, 'l, 'w) action"
  tcp_Close :: "'l \<Rightarrow> 'w \<Rightarrow> 'w"
  tcp_bound :: "'w \<Rightarrow> 'l set"

text \<open>Documented behaviour: listening fails without an effect or opens a new listener, closing closes it.\<close>

definition tcp_pkg_ok :: "('l, 'w) tcp_pkg \<Rightarrow> bool" where
  "tcp_pkg_ok T \<longleftrightarrow>
     (\<forall>net addr w err w'. tcp_Listen T net addr w = (Inl err, w') \<longrightarrow> tcp_bound T w' = tcp_bound T w) \<and>
     (\<forall>net addr w l w'. tcp_Listen T net addr w = (Inr l, w') \<longrightarrow> l \<notin> tcp_bound T w \<and> tcp_bound T w' = insert l (tcp_bound T w)) \<and>
     (\<forall>l w. tcp_bound T (tcp_Close T l w) = tcp_bound T w - {l})"

lemma tcp_laws:
  assumes "tcp_pkg_ok T"
  shows "tcp_Listen T net addr w = (Inl err, w') \<Longrightarrow> tcp_bound T w' = tcp_bound T w"
    and "tcp_Listen T net addr w = (Inr l, w') \<Longrightarrow> l \<notin> tcp_bound T w \<and> tcp_bound T w' = insert l (tcp_bound T w)"
    and "tcp_bound T (tcp_Close T l w) = tcp_bound T w - {l}"
  using assms unfolding tcp_pkg_ok_def by blast+

datatype http_error = ErrServerClosed | ErrClosed | HTTPError string

text \<open>
  An \<^verbatim>\<open>http.Server\<close> has a flag that \<^verbatim>\<open>Shutdown\<close> sets for good and the listeners it is accepting connections from. \<^verbatim>\<open>Serve\<close>
  of a server that is shut down closes the listener and returns; otherwise it goes on until \<^verbatim>\<open>Shutdown\<close>, which closes
  all listeners, waits for their \<^verbatim>\<open>Serve\<close> to return and then for the connections; what that ends
  with is an argument here.
\<close>

record ('h, 'l) http_Server =
  http_Addr :: string
  http_Handler :: 'h
  http_inShutdown :: bool
  http_listeners :: "'l list"

definition http_Serve :: "('l, 'w) tcp_pkg \<Rightarrow> 'l \<Rightarrow> ('h, 'l) http_Server \<Rightarrow> 'w \<Rightarrow> ('h, 'l) http_Server \<times> 'w" where
  "http_Serve T l srv w =
     (if http_inShutdown srv then (srv, tcp_Close T l w) else (srv\<lparr>http_listeners := l # http_listeners srv\<rparr>, w))"

definition http_Shutdown :: "('l, 'w) tcp_pkg \<Rightarrow> ('h, 'l) http_Server \<Rightarrow> 'w \<Rightarrow> ('h, 'l) http_Server \<times> 'w" where
  "http_Shutdown T srv w = (srv\<lparr>http_inShutdown := True, http_listeners := []\<rparr>, fold (tcp_Close T) (http_listeners srv) w)"

section \<open>The admin server\<close>

text \<open>The logger and the timeout for headers are left out.\<close>

record ('h, 'l) adminServer =
  as_http :: "('h, 'l) http_Server option"
  as_listener :: "'l option"

definition newAdminServer ::
  "'x names_pkg_scheme \<Rightarrow> 'o set_pkg \<Rightarrow> 'p http_pkg_scheme \<Rightarrow> HTTPConfig \<Rightarrow> 's Manager option \<Rightarrow>
     (Request \<Rightarrow> (error, Response, 's) action, 'l) adminServer" where
  "newAdminServer E OS P cfg manager =
     (if TrimSpace (hc_Listen cfg) = [] then \<lparr>as_http = None, as_listener = None\<rparr>
      else \<lparr>as_http = Some \<lparr>http_Addr = hc_Listen cfg, http_Handler = newAdminHandler E OS P manager,
                           http_inShutdown = False, http_listeners = []\<rparr>,
            as_listener = None\<rparr>)"

definition isHTTPClosedError :: "http_error option \<Rightarrow> bool" where
  "isHTTPClosedError err \<longleftrightarrow> err = None \<or> err = Some ErrServerClosed \<or> err = Some ErrClosed"

text \<open>
  The server, the goroutines that were started and have not called \<^verbatim>\<open>Serve\<close> yet, by their listeners, and the
  network.
\<close>

record ('h, 'l, 'w) admin_process =
  ap_server :: "('h, 'l) adminServer option"
  ap_pending :: "'l list"
  ap_world :: 'w

definition adm_Start :: "('l, 'w) tcp_pkg \<Rightarrow> (error, unit, ('h, 'l, 'w) admin_process) action" where
  "adm_Start T p =
     (case ap_server p of
        None \<Rightarrow> (Inr (), p)
      | Some s \<Rightarrow>
         (case as_http s of
            None \<Rightarrow> (Inr (), p)
          | Some http \<Rightarrow>
             (if as_listener s \<noteq> None then (Inr (), p)
              else
                case tcp_Listen T ''tcp'' (http_Addr http) (ap_world p) of
                  (Inl err, w) \<Rightarrow> (Inl (External err), p\<lparr>ap_world := w\<rparr>)
                | (Inr listener, w) \<Rightarrow>
                    (Inr (), p\<lparr>ap_server := Some (s\<lparr>as_listener := Some listener\<rparr>),
                               ap_pending := ap_pending p @ [listener], ap_world := w\<rparr>))))"

text \<open>A goroutine of \<^verbatim>\<open>Start\<close> comes to its call of \<^verbatim>\<open>Serve\<close>.\<close>

definition adm_serve :: "('l, 'w) tcp_pkg \<Rightarrow> 'l \<Rightarrow> ('h, 'l, 'w) admin_process \<Rightarrow> ('h, 'l, 'w) admin_process" where
  "adm_serve T listener p =
     (case ap_server p of
        None \<Rightarrow> p
      | Some s \<Rightarrow>
         (case as_http s of
            None \<Rightarrow> p
          | Some http \<Rightarrow>
             (let (http', w) = http_Serve T listener http (ap_world p) in
              p\<lparr>ap_server := Some (s\<lparr>as_http := Some http'\<rparr>), ap_pending := remove1 listener (ap_pending p), ap_world := w\<rparr>)))"

definition adm_Stop :: "('l, 'w) tcp_pkg \<Rightarrow> http_error option \<Rightarrow> (http_error, unit, ('h, 'l, 'w) admin_process) action" where
  "adm_Stop T err p =
     (case ap_server p of
        None \<Rightarrow> (Inr (), p)
      | Some s \<Rightarrow>
         (case as_http s of
            None \<Rightarrow> (Inr (), p)
          | Some http \<Rightarrow>
             (let (http', w) = http_Shutdown T http (ap_world p);
                  p1 = p\<lparr>ap_server := Some (s\<lparr>as_http := Some http', as_listener := None\<rparr>), ap_world := w\<rparr> in
              if isHTTPClosedError err then (Inr (), p1)
              else (Inl (the err), p1))))"

section \<open>Runs\<close>

text \<open>Calls of \<^verbatim>\<open>Start\<close> and \<^verbatim>\<open>Stop\<close>, whatever they return, and goroutines that come to \<^verbatim>\<open>Serve\<close>, in any order.\<close>

inductive admin_run :: "('l, 'w) tcp_pkg \<Rightarrow> ('h, 'l, 'w) admin_process \<Rightarrow> ('h, 'l, 'w) admin_process \<Rightarrow> bool"
  for T :: "('l, 'w) tcp_pkg" and p0 :: "('h, 'l, 'w) admin_process"
where
  run_new: "admin_run T p0 p0"
| run_start: "admin_run T p0 p \<Longrightarrow> admin_run T p0 (snd (adm_Start T p))"
| run_serve: "admin_run T p0 p \<Longrightarrow> listener \<in> set (ap_pending p) \<Longrightarrow> admin_run T p0 (adm_serve T listener p)"
| run_stop: "admin_run T p0 p \<Longrightarrow> admin_run T p0 (snd (adm_Stop T err p))"

text \<open>
  The open listeners are those of others \<open>B\<close>, those the server accepts connections from and those of goroutines
  on their way, without repetition; a server that is shut down accepts from none.
\<close>

definition admin_inv :: "('l, 'w) tcp_pkg \<Rightarrow> 'l set \<Rightarrow> ('h, 'l, 'w) admin_process \<Rightarrow> bool" where
  "admin_inv T B p \<longleftrightarrow>
     (\<exists>s http. ap_server p = Some s \<and> as_http s = Some http \<and>
        tcp_bound T (ap_world p) = B \<union> set (http_listeners http) \<union> set (ap_pending p) \<and>
        distinct (http_listeners http @ ap_pending p) \<and> B \<inter> set (http_listeners http @ ap_pending p) = {} \<and>
        (http_inShutdown http \<longrightarrow> http_listeners http = []))"

lemma bound_fold_Close: "tcp_pkg_ok T \<Longrightarrow> tcp_bound T (fold (tcp_Close T) ls w) = tcp_bound T w - set ls"
  by (induction ls arbitrary: w) (auto simp: tcp_laws(3))

lemma admin_inv_Start:
  assumes "tcp_pkg_ok T" and "admin_inv T B p"
  shows "admin_inv T B (snd (adm_Start T p))"
proof -
  obtain s http where s: "ap_server p = Some s" "as_http s = Some http" using assms(2) by (auto simp: admin_inv_def)
  obtain res w where l: "tcp_Listen T ''tcp'' (http_Addr http) (ap_world p) = (res, w)"
    by (cases "tcp_Listen T ''tcp'' (http_Addr http) (ap_world p)")
  show ?thesis
  proof (cases "as_listener s")
    case None
    show ?thesis
    proof (cases res)
      case (Inl err)
      with tcp_laws(1) [OF assms(1)] l assms(2) show ?thesis
        by (auto simp: adm_Start_def s None admin_inv_def)
    next
      case (Inr listener)
      with tcp_laws(2) [OF assms(1)] l have "listener \<notin> tcp_bound T (ap_world p)" "tcp_bound T w = insert listener (tcp_bound T (ap_world p))"
        by auto
      with assms(2) show ?thesis by (auto simp: adm_Start_def s None l Inr admin_inv_def)
    qed
  next
    case (Some x)
    with assms(2) show ?thesis by (simp add: adm_Start_def s)
  qed
qed

lemma admin_inv_serve:
  assumes "tcp_pkg_ok T" and "admin_inv T B p" and "listener \<in> set (ap_pending p)"
  shows "admin_inv T B (adm_serve T listener p)"
proof -
  obtain s http where s: "ap_server p = Some s" "as_http s = Some http"
    and b: "tcp_bound T (ap_world p) = B \<union> set (http_listeners http) \<union> set (ap_pending p)"
    and d: "distinct (http_listeners http @ ap_pending p)" "B \<inter> set (http_listeners http @ ap_pending p) = {}"
    and sd: "http_inShutdown http \<longrightarrow> http_listeners http = []"
    using assms(2) by (auto simp: admin_inv_def)
  have pending: "set (remove1 listener (ap_pending p)) = set (ap_pending p) - {listener}" using d(1) by simp
  show ?thesis
    using assms(3) b d sd pending
    by (auto simp: adm_serve_def s http_Serve_def admin_inv_def tcp_laws(3) [OF assms(1)])
qed

lemma admin_inv_Stop:
  assumes "tcp_pkg_ok T" and "admin_inv T B p"
  shows "admin_inv T B (snd (adm_Stop T err p))"
  using assms(2)
  by (auto simp: admin_inv_def adm_Stop_def http_Shutdown_def bound_fold_Close [OF assms(1)] Let_def)

lemma admin_run_inv:
  assumes "tcp_pkg_ok T" and "admin_inv T B p0" and "admin_run T p0 p"
  shows "admin_inv T B p"
  using assms(3) by (induction rule: admin_run.induct) (simp_all add: assms(1,2) admin_inv_Start admin_inv_serve admin_inv_Stop)


lemma serve_pending_down:
  assumes "tcp_pkg_ok T" and "ap_server p = Some s" and "as_http s = Some http" and "http_inShutdown http" and "ls = ap_pending p"
  shows "fold (adm_serve T) ls p = p\<lparr>ap_pending := [], ap_world := fold (tcp_Close T) ls (ap_world p)\<rparr>"
  using assms(2,5)
proof (induction ls arbitrary: p)
  case (Cons l ls)
  obtain w where p: "p = \<lparr>ap_server = Some s, ap_pending = l # ls, ap_world = w\<rparr>"
    using Cons.prems by (cases p) simp
  have "s\<lparr>as_http := Some http\<rparr> = s" using assms(3) by (cases s) simp
  then have step: "adm_serve T l p = \<lparr>ap_server = Some s, ap_pending = ls, ap_world = tcp_Close T l w\<rparr>"
    using assms(3,4) by (simp add: adm_serve_def http_Serve_def p)
  have "fold (adm_serve T) ls (adm_serve T l p) =
      (adm_serve T l p)\<lparr>ap_pending := [], ap_world := fold (tcp_Close T) ls (ap_world (adm_serve T l p))\<rparr>"
    by (rule Cons.IH) (simp_all add: step)
  then show ?case by (simp add: step [unfolded p] p)
qed simp

section \<open>Properties\<close>

definition new_process :: "(Request \<Rightarrow> (error, Response, 's) action, 'l) adminServer \<Rightarrow> 'w \<Rightarrow>
    (Request \<Rightarrow> (error, Response, 's) action, 'l, 'w) admin_process" where
  "new_process server w = \<lparr>ap_server = Some server, ap_pending = [], ap_world = w\<rparr>"

lemma new_process_inv:
  "TrimSpace (hc_Listen cfg) \<noteq> [] \<Longrightarrow> admin_inv T (tcp_bound T w) (new_process (newAdminServer E OS P cfg manager) w)"
  by (simp add: admin_inv_def new_process_def newAdminServer_def)

text \<open>
  C19: \<^verbatim>\<open>Stop\<close> releases everything. Whatever calls of \<^verbatim>\<open>Start\<close> and \<^verbatim>\<open>Stop\<close> came before, and whatever they and
  this \<^verbatim>\<open>Stop\<close> report, only listeners of goroutines that have not come to \<^verbatim>\<open>Serve\<close> are open after it,
  and once they have, none of the server is. Without an address the server does nothing.
\<close>

theorem AdminServer_Stop_releases:
  assumes "tcp_pkg_ok T" and "TrimSpace (hc_Listen cfg) \<noteq> []"
    and "admin_run T (new_process (newAdminServer E OS P cfg manager) w) p"
  shows "tcp_bound T (ap_world (snd (adm_Stop T err p))) = tcp_bound T w \<union> set (ap_pending p) \<and>
    tcp_bound T (ap_world (fold (adm_serve T) (ap_pending p) (snd (adm_Stop T err p)))) = tcp_bound T w"
proof -
  let ?q = "snd (adm_Stop T err p)"
  from admin_run_inv [OF assms(1) new_process_inv [OF assms(2)] run_stop [OF assms(3)]] have inv: "admin_inv T (tcp_bound T w) ?q" .
  obtain s http where p: "ap_server p = Some s" "as_http s = Some http"
    using admin_run_inv [OF assms(1) new_process_inv [OF assms(2)] assms(3)] by (auto simp: admin_inv_def)
  have q: "ap_server ?q = Some (s\<lparr>as_http := Some (http\<lparr>http_inShutdown := True, http_listeners := []\<rparr>), as_listener := None\<rparr>)"
    "ap_pending ?q = ap_pending p"
    by (simp_all add: adm_Stop_def p http_Shutdown_def Let_def)
  with inv have bound: "tcp_bound T (ap_world ?q) = tcp_bound T w \<union> set (ap_pending p)" by (auto simp: admin_inv_def)
  have free: "tcp_bound T w \<inter> set (ap_pending p) = {}" using inv q by (auto simp: admin_inv_def)
  have "fold (adm_serve T) (ap_pending p) ?q = ?q\<lparr>ap_pending := [], ap_world := fold (tcp_Close T) (ap_pending p) (ap_world ?q)\<rparr>"
    by (rule serve_pending_down [OF assms(1) q(1), of "http\<lparr>http_inShutdown := True, http_listeners := []\<rparr>"]) (simp_all add: q(2))
  then have "tcp_bound T (ap_world (fold (adm_serve T) (ap_pending p) ?q)) = tcp_bound T w"
    using bound free by (auto simp: bound_fold_Close [OF assms(1)])
  with bound show ?thesis by blast
qed

text \<open>A reference network: the listeners that are open, with their addresses.\<close>

definition tcp_ref :: "(nat, (nat \<times> string) list) tcp_pkg" where
  "tcp_ref =
     \<lparr>tcp_Listen = (\<lambda>net addr w. if addr \<in> snd ` set w then (Inl ''address already in use'', w)
        else (Inr (Suc (sum_list (map fst w))), (Suc (sum_list (map fst w)), addr) # w)),
      tcp_Close = (\<lambda>l w. filter (\<lambda>e. fst e \<noteq> l) w), tcp_bound = (\<lambda>w. fst ` set w)\<rparr>"

lemma tcp_ref_ok: "tcp_pkg_ok tcp_ref"
proof -
  have "l \<le> sum_list (map fst w)" if "(l, a) \<in> set w" for l a and w :: "(nat \<times> string) list"
    using that member_le_sum_list [of l "map fst w"] by force
  then have "Suc (sum_list (map fst w)) \<notin> fst ` set w" for w :: "(nat \<times> string) list"
    by (metis (no_types, opaque_lifting) imageE not_less_eq_eq order_refl prod.collapse)
  then show ?thesis by (auto simp: tcp_pkg_ok_def tcp_ref_def split: if_splits)
qed

definition admin_config :: HTTPConfig where
  "admin_config = \<lparr>hc_Listen = '':8080''\<rparr>"

definition ref_process where
  "ref_process = new_process (newAdminServer names_ref set_ref http_ref admin_config sample_mgr) [(7, '':53'')]"

lemma ref_listen: "TrimSpace (hc_Listen admin_config) \<noteq> []"
  by code_simp

lemma ref_addr: "hc_Listen admin_config = '':8080''"
  by (simp add: admin_config_def)

lemma ref_started:
  "\<exists>s http. ap_server (snd (adm_Start tcp_ref ref_process)) = Some s \<and> as_http s = Some http \<and> http_listeners http = [] \<and> \<not> http_inShutdown http \<and>
     ap_pending (snd (adm_Start tcp_ref ref_process)) = [8] \<and>
     ap_world (snd (adm_Start tcp_ref ref_process)) = [(8, '':8080''), (7, '':53'')]"
  using ref_listen unfolding ref_addr by (simp add: adm_Start_def ref_process_def new_process_def newAdminServer_def tcp_ref_def ref_addr)

theorem AdminServer_Stop_releases_witness:
  "let p = snd (adm_Start tcp_ref ref_process) in
   tcp_bound tcp_ref (ap_world p) = {7, 8} \<and> ap_pending p = [8] \<and>
   tcp_bound tcp_ref (ap_world (fold (adm_serve tcp_ref) [8] (snd (adm_Stop tcp_ref None p)))) = {7}"
proof -
  let ?p = "snd (adm_Start tcp_ref ref_process)"
  have p: "ap_world ?p = [(8, '':8080''), (7, '':53'')]" "ap_pending ?p = [8]" using ref_started by auto
  have "admin_run tcp_ref ref_process ?p" by (intro run_start run_new)
  from AdminServer_Stop_releases [OF tcp_ref_ok ref_listen this [unfolded ref_process_def], of None]
  have "tcp_bound tcp_ref (ap_world (fold (adm_serve tcp_ref) [8] (snd (adm_Stop tcp_ref None ?p)))) = {7}"
    unfolding ref_process_def [symmetric] p(2) by (simp add: tcp_ref_def)
  with p show ?thesis by (simp add: tcp_ref_def insert_commute)
qed

text \<open>
  An admin server does not start again. After a \<^verbatim>\<open>Stop\<close>, a \<^verbatim>\<open>Start\<close> whose address is free reports success and
  remembers a listener, but its goroutine closes that listener as soon as it comes to \<^verbatim>\<open>Serve\<close>, the server accepts no
  connection, and every further \<^verbatim>\<open>Start\<close> reports success and does nothing.
\<close>

theorem AdminServer_never_serves_again:
  assumes "tcp_pkg_ok T" and "TrimSpace (hc_Listen cfg) \<noteq> []"
    and "admin_run T (new_process (newAdminServer E OS P cfg manager) w) p"
    and "q = snd (adm_Stop T err p)" and "tcp_Listen T ''tcp'' (hc_Listen cfg) (ap_world q) = (Inr listener, w1)"
  shows "\<exists>p1. adm_Start T q = (Inr (), p1) \<and> map_option as_listener (ap_server p1) = Some (Some listener) \<and>
    tcp_bound T (ap_world (adm_serve T listener p1)) = tcp_bound T (ap_world q) \<and>
    adm_Start T (adm_serve T listener p1) = (Inr (), adm_serve T listener p1) \<and>
    (\<exists>s http. ap_server (adm_serve T listener p1) = Some s \<and> as_http s = Some http \<and> http_listeners http = [])"
proof -
  have addr: "admin_run T (new_process (newAdminServer E OS P cfg manager) w) p' \<Longrightarrow>
      \<exists>s http. ap_server p' = Some s \<and> as_http s = Some http \<and> http_Addr http = hc_Listen cfg" for p'
  proof (induction rule: admin_run.induct)
    case run_new
    then show ?case using assms(2) by (simp add: new_process_def newAdminServer_def)
  next
    case (run_start p)
    then show ?case by (auto simp: adm_Start_def split: prod.split sum.split)
  next
    case (run_serve p listener)
    then show ?case by (auto simp: adm_serve_def http_Serve_def)
  next
    case (run_stop p err)
    then show ?case by (auto simp: adm_Stop_def http_Shutdown_def Let_def)
  qed
  obtain s http where p: "ap_server p = Some s" "as_http s = Some http" "http_Addr http = hc_Listen cfg" using addr [OF assms(3)] by blast
  define s' where "s' = s\<lparr>as_http := Some (http\<lparr>http_inShutdown := True, http_listeners := []\<rparr>), as_listener := None\<rparr>"
  have q: "ap_server q = Some s'" "as_http s' = Some (http\<lparr>http_inShutdown := True, http_listeners := []\<rparr>)" "as_listener s' = None"
    by (simp_all add: assms(4) s'_def adm_Stop_def p http_Shutdown_def Let_def)
  define p1 where "p1 = q\<lparr>ap_server := Some (s'\<lparr>as_listener := Some listener\<rparr>), ap_pending := ap_pending q @ [listener], ap_world := w1\<rparr>"
  have start: "adm_Start T q = (Inr (), p1)"
    using assms(5) by (simp add: adm_Start_def q p(3) p1_def)
  have serve: "ap_server (adm_serve T listener p1) = Some (s'\<lparr>as_listener := Some listener\<rparr>)"
    "ap_world (adm_serve T listener p1) = tcp_Close T listener w1"
    by (simp_all add: adm_serve_def p1_def q http_Serve_def)
  have again: "adm_Start T (adm_serve T listener p1) = (Inr (), adm_serve T listener p1)"
    by (simp add: adm_Start_def serve(1) q)
  have "tcp_bound T (ap_world (adm_serve T listener p1)) = tcp_bound T (ap_world q)"
    using tcp_laws(2) [OF assms(1,5)] by (auto simp: serve(2) tcp_laws(3) [OF assms(1)])
  with start serve(1) again q(2) show ?thesis by (simp add: p1_def)
qed

theorem AdminServer_never_serves_again_witness:
  "let q = snd (adm_Stop tcp_ref None (adm_serve tcp_ref 8 (snd (adm_Start tcp_ref ref_process)))) in
   \<exists>p1 listener. adm_Start tcp_ref q = (Inr (), p1) \<and> map_option as_listener (ap_server p1) = Some (Some listener) \<and>
     listener \<notin> tcp_bound tcp_ref (ap_world (adm_serve tcp_ref listener p1))"
proof -
  let ?p = "snd (adm_Start tcp_ref ref_process)"
  obtain s http where p: "ap_server ?p = Some s" "as_http s = Some http" "http_listeners http = []" "\<not> http_inShutdown http" "ap_pending ?p = [8]"
    "ap_world ?p = [(8, '':8080''), (7, '':53'')]" using ref_started by blast
  define r where "r = adm_serve tcp_ref 8 ?p"
  have run: "admin_run tcp_ref ref_process r" unfolding r_def by (intro run_serve run_start run_new) (simp add: p)
  have "ap_server r = Some (s\<lparr>as_http := Some (http\<lparr>http_listeners := [8]\<rparr>)\<rparr>)" "ap_world r = [(8, '':8080''), (7, '':53'')]"
    by (simp_all add: r_def adm_serve_def p http_Serve_def)
  then have world: "ap_world (snd (adm_Stop tcp_ref None r)) = [(7, '':53'')]"
    by (simp add: adm_Stop_def http_Shutdown_def tcp_ref_def isHTTPClosedError_def)
  have listen: "tcp_Listen tcp_ref ''tcp'' (hc_Listen admin_config) (ap_world (snd (adm_Stop tcp_ref None r))) = (Inr 8, [(8, '':8080''), (7, '':53'')])"
    unfolding world by (simp add: tcp_ref_def ref_addr)
  have bound: "8 \<notin> tcp_bound tcp_ref (ap_world (snd (adm_Stop tcp_ref None r)))" unfolding world by (simp add: tcp_ref_def)
  from AdminServer_never_serves_again [OF tcp_ref_ok ref_listen run [unfolded ref_process_def] refl listen] bound
  show ?thesis unfolding r_def [symmetric] Let_def by metis
qed

end
