(* ===== verification/Store_Files.thy ===== *)
theory Store_Files
  imports Bbolt_Store Seed
begin

text \<open>
  What the stores read from files: seed data, \<^verbatim>\<open>LoadSeedData\<close> of \<^verbatim>\<open>dnsserver/bootstrap.go\<close>, and the opening of bbolt
  databases, \<^verbatim>\<open>dnsserver/store/bbolt/store.go\<close>. Files and databases are parameters.
\<close>

section \<open>Seed files\<close>

text \<open>
  \<^verbatim>\<open>filepath.Clean\<close> on Unix, element by element: empty elements and dots are dropped, two dots take the element
  before them away, at the root they are dropped, at the start of a relative path they stay.
\<close>

fun cleanElements :: "bool \<Rightarrow> string list \<Rightarrow> string list \<Rightarrow> string list" where
  "cleanElements rooted kept [] = rev kept"
| "cleanElements rooted kept (element # elements) =
     (if element = [] \<or> element = ''.'' then cleanElements rooted kept elements
      else if element = ''..'' then
        (if kept \<noteq> [] \<and> hd kept \<noteq> ''..'' then cleanElements rooted (tl kept) elements
         else if rooted then cleanElements rooted kept elements
         else cleanElements rooted (element # kept) elements)
      else cleanElements rooted (element # kept) elements)"

definition filepath_Clean :: "string \<Rightarrow> string" where
  "filepath_Clean path =
     (if path = [] then ''.''
      else
        let rooted = (hd path = CHR ''/'');
            elements = Join (cleanElements rooted [] (split_on (CHR ''/'') path)) ''/'' in
        if rooted then CHR ''/'' # elements else if elements = [] then ''.'' else elements)"

text \<open>\<open>ReadFile\<close> is \<^verbatim>\<open>os.ReadFile\<close>, \<open>unmarshal\<close> is \<^verbatim>\<open>json.Unmarshal\<close> into \<^verbatim>\<open>SeedData\<close>.\<close>

definition LoadSeedData :: "(string \<Rightarrow> string + string) \<Rightarrow> (string \<Rightarrow> string + SeedData) \<Rightarrow> string \<Rightarrow> error + SeedData" where
  "LoadSeedData ReadFile unmarshal path =
     (case ReadFile (filepath_Clean path) of
        Inl err \<Rightarrow> Inl (External err)
      | Inr content \<Rightarrow>
         (case unmarshal content of
            Inl err \<Rightarrow> Inl (External err)
          | Inr seed \<Rightarrow> Inr seed))"

section \<open>Applying a seed\<close>

text \<open>\<^verbatim>\<open>ApplySeedData\<close> does what \<^verbatim>\<open>ImportSeedData\<close> does, without the counts.\<close>

lemma ApplySeedData_Import:
  "ApplySeedData E OS R seed s =
     (case ImportSeedData E OS (mgr_of R) seed s of (Inl err, s') \<Rightarrow> (Inl err, s') | (Inr _, s') \<Rightarrow> (Inr (), s'))"
  by (auto simp: ApplySeedData_def ImportSeedData_def split: sum.split prod.split)

context repository
begin

lemma ApplySeedData_cases:
  assumes "invar s" and "set_pkg_ok OS" and "plain_seed seed" and "ApplySeedData E OS R seed s = (res, s')"
  obtains (failed) err where "res = Inl err" and "s' = s"
  | (applied) rs where "res = Inr ()" and "invar s'"
      and "\<exists>ns. list_all2 (\<lambda>r n. NormalizeRecord E r = Inr n) (seed_Records seed) ns \<and> rs = first_by (Key E) {} ns"
      and "\<forall>z. zone_valid z True {r \<in> set rs. rec_Zone r = z}"
      and "abs_zones (content s') = abs_zones (content s) \<union> seed_names E seed"
      and "abs_records (content s') = {v \<in> abs_records (content s). Key E v \<notin> Key E ` set rs} \<union> set rs"
proof -
  obtain ires where op: "ImportSeedData E OS (mgr_of R) seed s = (ires, s')"
    using assms(4) by (cases "ImportSeedData E OS (mgr_of R) seed s") (auto simp: ApplySeedData_Import split: sum.splits)
  have res: "res = (case ires of Inl err \<Rightarrow> Inl err | Inr _ \<Rightarrow> Inr ())"
    using assms(4) by (auto simp: ApplySeedData_Import op split: sum.splits)
  show thesis
    by (rule ImportSeedData_cases [OF assms(1-3) op])
      (use res in \<open>auto intro: failed applied\<close>)
qed

end

section \<open>Opening\<close>

text \<open>\<open>bboltx_Open\<close> is \<^verbatim>\<open>bboltx.Open\<close>, which opens or creates the database of a path in the world \<open>'w\<close>.\<close>

definition bs_Open :: "(string \<Rightarrow> (string, 'd, 'w) action) \<Rightarrow> string \<Rightarrow> (error, 'd Store, 'w) action" where
  "bs_Open bboltx_Open path w =
     (case bboltx_Open path w of
        (Inl err, w') \<Rightarrow> (Inl (External err), w')
      | (Inr db, w') \<Rightarrow> (Inr (bs_New db), w'))"

definition OpenBboltStore :: "(string \<Rightarrow> (string, 'd, 'w) action) \<Rightarrow> string \<Rightarrow> (error, 'd Store, 'w) action" where
  "OpenBboltStore bboltx_Open path = bs_Open bboltx_Open path"

definition NewBboltStore :: "'d \<Rightarrow> 'd Store" where
  "NewBboltStore db = bs_New db"

definition bs_MustOpen :: "(string \<Rightarrow> (string, 'd, 'w) action) \<Rightarrow> string \<Rightarrow> (error, 'd Store, 'w) action" where
  "bs_MustOpen bboltx_Open path w =
     (case bs_Open bboltx_Open path w of
        (Inl _, w') \<Rightarrow> (Inl (Panic ''open bbolt store''), w')
      | (Inr store, w') \<Rightarrow> (Inr store, w'))"

definition MustOpenBboltStore :: "(string \<Rightarrow> (string, 'd, 'w) action) \<Rightarrow> string \<Rightarrow> (error, 'd Store, 'w) action" where
  "MustOpenBboltStore bboltx_Open path = bs_MustOpen bboltx_Open path"

lemma write_keeps_closed: "bs_closed (snd (repo_write (bbolt_repo E B) w s)) = bs_closed s"
  by (cases w) (auto simp: bbolt_repo_def bs_SaveZone_def bs_DeleteZone_def bs_SaveRecord_def bs_DeleteRecord_def
      split: sum.split prod.split)

end
