(* ===== verification/Client.thy ===== *)
theory Client
  imports Query
begin

text \<open>
  The DNS client: \<^verbatim>\<open>dnsclient/client.go\<close> and \<^verbatim>\<open>lookup_typed.go\<close>. Its construction and options, the
  messages it makes for questions and dynamic updates, and the reading of typed answers. The
  transport is a parameter: an exchange acts on a world \<open>'w\<close> that holds whatever the other side keeps.
\<close>

section \<open>Messages and transport: github.com/miekg/dns\<close>

record dns_Client =
  dcl_Net :: string
  dcl_Timeout :: Duration

text \<open>
  \<open>SetQuestion\<close> and \<open>SetUpdate\<close> are the methods of these names on \<^verbatim>\<open>new(dns.Msg)\<close>; the identifier they draw
  is not looked at by the code. \<open>msg_Insert\<close>, \<open>msg_Remove\<close>, \<open>msg_RemoveRRset\<close> and \<open>msg_RemoveName\<close> add to
  the update section (\<^verbatim>\<open>Ns\<close>) of a message and panic at a nil record. \<open>ANY_RR\<close> is the literal
  \<^verbatim>\<open>&dns.ANY{Hdr: ...}\<close> with name, type, class and TTL. \<open>ExchangeContext\<close> sends a message to an address and
  returns the response and the time it took. The other fields are type assertions: \<open>as_A rr\<close> is \<^verbatim>\<open>rr.(*dns.A)\<close>
  followed by \<^verbatim>\<open>A.String()\<close>.
\<close>

record ('rr, 'w) client_pkg =
  SetQuestion :: "string \<Rightarrow> uint16 \<Rightarrow> 'rr Msg"
  SetUpdate :: "string \<Rightarrow> 'rr Msg"
  msg_Insert :: "'rr option list \<Rightarrow> 'rr Msg \<Rightarrow> error + 'rr Msg"
  msg_Remove :: "'rr option list \<Rightarrow> 'rr Msg \<Rightarrow> error + 'rr Msg"
  msg_RemoveRRset :: "'rr option list \<Rightarrow> 'rr Msg \<Rightarrow> error + 'rr Msg"
  msg_RemoveName :: "'rr option list \<Rightarrow> 'rr Msg \<Rightarrow> error + 'rr Msg"
  ANY_RR :: "string \<Rightarrow> uint16 \<Rightarrow> uint16 \<Rightarrow> uint32 \<Rightarrow> 'rr"
  ExchangeContext :: "dns_Client \<Rightarrow> 'rr Msg \<Rightarrow> string \<Rightarrow> 'w \<Rightarrow> (string + 'rr Msg \<times> Duration) \<times> 'w"
  as_A :: "'rr \<Rightarrow> string option"
  as_AAAA :: "'rr \<Rightarrow> string option"
  as_CNAME :: "'rr \<Rightarrow> string option"
  as_NS :: "'rr \<Rightarrow> string option"
  as_MX :: "'rr \<Rightarrow> (string \<times> uint16) option"
  as_TXT :: "'rr \<Rightarrow> string list option"
  as_SRV :: "'rr \<Rightarrow> (string \<times> uint16 \<times> uint16 \<times> uint16) option"

section \<open>The client\<close>

text \<open>The logger is left out, as everywhere.\<close>

record Client =
  cl_server :: string
  cl_network :: string
  cl_client :: dns_Client

type_synonym ClientOption = "Client \<Rightarrow> Client"

definition cl_New :: "string \<Rightarrow> ClientOption option list \<Rightarrow> Client" where
  "cl_New server opts =
     (let client = \<lparr>cl_server = server, cl_network = ''udp'', cl_client = \<lparr>dcl_Net = ''udp'', dcl_Timeout = 5 * Second\<rparr>\<rparr>;
          client1 = fold (\<lambda>opt c. case opt of None \<Rightarrow> c | Some f \<Rightarrow> f c) opts client in
      client1\<lparr>cl_client := (cl_client client1)\<lparr>dcl_Net := cl_network client1\<rparr>\<rparr>)"

definition NewClient :: "string \<Rightarrow> ClientOption option list \<Rightarrow> Client" where
  "NewClient server opts = cl_New server opts"

definition WithNetwork :: "string \<Rightarrow> ClientOption" where
  "WithNetwork network client = (if network \<noteq> [] then client\<lparr>cl_network := network\<rparr> else client)"

definition WithTimeout :: "Duration \<Rightarrow> ClientOption" where
  "WithTimeout timeout client =
     (if 0 < sint timeout then client\<lparr>cl_client := (cl_client client)\<lparr>dcl_Timeout := timeout\<rparr>\<rparr> else client)"

section \<open>Exchanges\<close>

definition ExchangeMessage ::
  "('rr, 'w) client_pkg \<Rightarrow> Client \<Rightarrow> 'rr Msg option \<Rightarrow> (error, 'rr Msg \<times> Duration, 'w) action" where
  "ExchangeMessage C c message w =
     (case message of
        None \<Rightarrow> (Inl (Uncoded ''dns message is nil''), w)
      | Some m \<Rightarrow>
         (case ExchangeContext C (cl_client c) m (cl_server c) w of
            (Inl err, w') \<Rightarrow> (Inl (External err), w')
          | (Inr (response, rtt), w') \<Rightarrow> (Inr (response, rtt), w')))"

definition Exchange ::
  "('rr, 'x) rr_pkg_scheme \<Rightarrow> ('rr, 'w) client_pkg \<Rightarrow> Client \<Rightarrow> string \<Rightarrow> uint16 \<Rightarrow> (error, 'rr Msg \<times> Duration, 'w) action" where
  "Exchange E C c name qtype = ExchangeMessage C c (Some (SetQuestion C (Fqdn E name) qtype))"

definition cl_Lookup ::
  "('rr, 'x) rr_pkg_scheme \<Rightarrow> ('rr, 'w) client_pkg \<Rightarrow> Client \<Rightarrow> string \<Rightarrow> uint16 \<Rightarrow> (error, 'rr option list, 'w) action" where
  "cl_Lookup E C c name qtype w =
     (case Exchange E C c name qtype w of
        (Inl err, w') \<Rightarrow> (Inl err, w')
      | (Inr (response, _), w') \<Rightarrow> (Inr (msg_Answer response), w'))"

section \<open>Updates\<close>

definition UpdateAdd ::
  "('rr, 'x) rr_pkg_scheme \<Rightarrow> ('rr, 'w) client_pkg \<Rightarrow> Client \<Rightarrow> string \<Rightarrow> 'rr option list \<Rightarrow> (error, 'rr Msg \<times> Duration, 'w) action" where
  "UpdateAdd E C c zone records w =
     (case msg_Insert C records (SetUpdate C (Fqdn E zone)) of
        Inl err \<Rightarrow> (Inl err, w)
      | Inr message \<Rightarrow> ExchangeMessage C c (Some message) w)"

definition UpdateRemove ::
  "('rr, 'x) rr_pkg_scheme \<Rightarrow> ('rr, 'w) client_pkg \<Rightarrow> Client \<Rightarrow> string \<Rightarrow> 'rr option list \<Rightarrow> (error, 'rr Msg \<times> Duration, 'w) action" where
  "UpdateRemove E C c zone records w =
     (case msg_Remove C records (SetUpdate C (Fqdn E zone)) of
        Inl err \<Rightarrow> (Inl err, w)
      | Inr message \<Rightarrow> ExchangeMessage C c (Some message) w)"

definition UpdateRemoveRRSet ::
  "('rr, 'x) rr_pkg_scheme \<Rightarrow> ('rr, 'w) client_pkg \<Rightarrow> Client \<Rightarrow> string \<Rightarrow> string \<Rightarrow> uint16 \<Rightarrow> (error, 'rr Msg \<times> Duration, 'w) action" where
  "UpdateRemoveRRSet E C c zone name rrtype w =
     (case msg_RemoveRRset C [Some (ANY_RR C (Fqdn E name) rrtype ClassANY 0)] (SetUpdate C (Fqdn E zone)) of
        Inl err \<Rightarrow> (Inl err, w)
      | Inr message \<Rightarrow> ExchangeMessage C c (Some message) w)"

definition UpdateRemoveName ::
  "('rr, 'x) rr_pkg_scheme \<Rightarrow> ('rr, 'w) client_pkg \<Rightarrow> Client \<Rightarrow> string \<Rightarrow> string \<Rightarrow> (error, 'rr Msg \<times> Duration, 'w) action" where
  "UpdateRemoveName E C c zone name w =
     (case msg_RemoveName C [Some (ANY_RR C (Fqdn E name) TypeANY ClassANY 0)] (SetUpdate C (Fqdn E zone)) of
        Inl err \<Rightarrow> (Inl err, w)
      | Inr message \<Rightarrow> ExchangeMessage C c (Some message) w)"

section \<open>Typed lookups\<close>

text \<open>
  \<^verbatim>\<open>lo.FilterMap\<close> with a type assertion: records of another type are dropped, and so is a nil record,
  on which every assertion fails.
\<close>

definition FilterMap :: "('rr \<Rightarrow> 'a option) \<Rightarrow> 'rr option list \<Rightarrow> 'a list" where
  "FilterMap f rrs = List.map_filter (\<lambda>rr. Option.bind rr f) rrs"

record MXRecord =
  mx_Host :: string
  mx_Preference :: uint16

record SRVRecord =
  srv_Target :: string
  srv_Port :: uint16
  srv_Priority :: uint16
  srv_Weight :: uint16

definition cl_LookupA ::
  "('rr, 'x) rr_pkg_scheme \<Rightarrow> ('rr, 'w) client_pkg \<Rightarrow> Client \<Rightarrow> string \<Rightarrow> (error, string list, 'w) action" where
  "cl_LookupA E C c name w =
     (case cl_Lookup E C c name TypeA w of
        (Inl err, w') \<Rightarrow> (Inl err, w')
      | (Inr answer, w') \<Rightarrow> (Inr (FilterMap (as_A C) answer), w'))"

definition cl_LookupAAAA ::
  "('rr, 'x) rr_pkg_scheme \<Rightarrow> ('rr, 'w) client_pkg \<Rightarrow> Client \<Rightarrow> string \<Rightarrow> (error, string list, 'w) action" where
  "cl_LookupAAAA E C c name w =
     (case cl_Lookup E C c name TypeAAAA w of
        (Inl err, w') \<Rightarrow> (Inl err, w')
      | (Inr answer, w') \<Rightarrow> (Inr (FilterMap (as_AAAA C) answer), w'))"

definition cl_LookupCNAME ::
  "('rr, 'x) rr_pkg_scheme \<Rightarrow> ('rr, 'w) client_pkg \<Rightarrow> Client \<Rightarrow> string \<Rightarrow> (error, string list, 'w) action" where
  "cl_LookupCNAME E C c name w =
     (case cl_Lookup E C c name TypeCNAME w of
        (Inl err, w') \<Rightarrow> (Inl err, w')
      | (Inr answer, w') \<Rightarrow> (Inr (FilterMap (as_CNAME C) answer), w'))"

definition cl_LookupNS ::
  "('rr, 'x) rr_pkg_scheme \<Rightarrow> ('rr, 'w) client_pkg \<Rightarrow> Client \<Rightarrow> string \<Rightarrow> (error, string list, 'w) action" where
  "cl_LookupNS E C c name w =
     (case cl_Lookup E C c name TypeNS w of
        (Inl err, w') \<Rightarrow> (Inl err, w')
      | (Inr answer, w') \<Rightarrow> (Inr (FilterMap (as_NS C) answer), w'))"

definition cl_LookupMX ::
  "('rr, 'x) rr_pkg_scheme \<Rightarrow> ('rr, 'w) client_pkg \<Rightarrow> Client \<Rightarrow> string \<Rightarrow> (error, MXRecord list, 'w) action" where
  "cl_LookupMX E C c name w =
     (case cl_Lookup E C c name TypeMX w of
        (Inl err, w') \<Rightarrow> (Inl err, w')
      | (Inr answer, w') \<Rightarrow>
          (Inr (FilterMap (\<lambda>rr. map_option (\<lambda>(mx, preference). \<lparr>mx_Host = mx, mx_Preference = preference\<rparr>) (as_MX C rr)) answer), w'))"

definition cl_LookupTXT ::
  "('rr, 'x) rr_pkg_scheme \<Rightarrow> ('rr, 'w) client_pkg \<Rightarrow> Client \<Rightarrow> string \<Rightarrow> (error, string list, 'w) action" where
  "cl_LookupTXT E C c name w =
     (case cl_Lookup E C c name TypeTXT w of
        (Inl err, w') \<Rightarrow> (Inl err, w')
      | (Inr answer, w') \<Rightarrow> (Inr (FilterMap (\<lambda>rr. map_option (\<lambda>txt. Join txt []) (as_TXT C rr)) answer), w'))"

definition cl_LookupSRV ::
  "('rr, 'x) rr_pkg_scheme \<Rightarrow> ('rr, 'w) client_pkg \<Rightarrow> Client \<Rightarrow> string \<Rightarrow> (error, SRVRecord list, 'w) action" where
  "cl_LookupSRV E C c name w =
     (case cl_Lookup E C c name TypeSRV w of
        (Inl err, w') \<Rightarrow> (Inl err, w')
      | (Inr answer, w') \<Rightarrow>
          (Inr (FilterMap (\<lambda>rr. map_option (\<lambda>(target, port, priority, weight).
             \<lparr>srv_Target = target, srv_Port = port, srv_Priority = priority, srv_Weight = weight\<rparr>) (as_SRV C rr)) answer), w'))"

end
