(* ===== verification/Server.thy ===== *)
theory Server
  imports Client Manager
begin

text \<open>
  The DNS server object: construction, options and the wiring of repository, manager and resolver
  (\<^verbatim>\<open>dnsserver/server.go\<close>), and its life cycle (\<^verbatim>\<open>dnsserver/server_lifecycle.go\<close>). Requests and the client
  side of the server are in the theory \<open>Update\<close>.
\<close>

section \<open>The server\<close>

record Config =
  cfg_Listen :: string

text \<open>
  A handler is a value of the interface \<^verbatim>\<open>dns.Handler\<close>, \<open>None\<close> for nil: one of the caller, or the method
  \<^verbatim>\<open>serveDNS\<close> of the server itself. \<open>'u\<close> are packet connections, \<open>'l\<close> listeners and \<open>'d\<close> the servers of the
  DNS package, all of them handles.
\<close>

datatype 'h Handler = CustomHandler 'h | HandlerFunc_serveDNS

record ('s, 'c, 'tr, 'h, 'u, 'l, 'd) Server =
  srv_config :: Config
  srv_repo :: "'s Repository option"
  srv_manager :: "'s Manager option"
  srv_resolver :: "('s, 'c, 'tr) Resolver option"
  srv_handler :: "'h Handler option"
  srv_clientOpts :: "ClientOption option list"
  srv_udpConn :: "'u option"
  srv_tcpListener :: "'l option"
  srv_udpServer :: "'d option"
  srv_tcpServer :: "'d option"

type_synonym ('s, 'c, 'tr, 'h, 'u, 'l, 'd) ServerOption =
  "('s, 'c, 'tr, 'h, 'u, 'l, 'd) Server \<Rightarrow> ('s, 'c, 'tr, 'h, 'u, 'l, 'd) Server"

section \<open>Construction\<close>

definition ensureHandler :: "('s, 'c, 'tr, 'h, 'u, 'l, 'd) ServerOption" where
  "ensureHandler s =
     (if srv_handler s \<noteq> None then s
      else if srv_resolver s \<noteq> None \<or> srv_repo s \<noteq> None then s\<lparr>srv_handler := Some HandlerFunc_serveDNS\<rparr>
      else s)"

definition syncManagedComponents :: "'c cache_pkg \<Rightarrow> ('s, 'c, 'tr, 'h, 'u, 'l, 'd) ServerOption" where
  "syncManagedComponents H s =
     (let s1 =
        (if srv_repo s = None then
           (case srv_manager s of
              Some manager \<Rightarrow> s\<lparr>srv_repo := mgr_repo manager\<rparr>
            | None \<Rightarrow>
               (case srv_resolver s of
                  Some resolver \<Rightarrow> s\<lparr>srv_repo := Some (rsv_repo resolver)\<rparr>
                | None \<Rightarrow> s))
         else s);
        s2 =
        (case (srv_manager s1, srv_repo s1) of
           (None, Some repo) \<Rightarrow> s1\<lparr>srv_manager := Some (NewManager (Some repo))\<rparr>
         | _ \<Rightarrow> s1);
        s3 =
        (case (srv_resolver s2, srv_repo s2) of
           (None, Some repo) \<Rightarrow> s2\<lparr>srv_resolver := Some (NewResolver H repo [])\<rparr>
         | _ \<Rightarrow> s2) in
      ensureHandler s3)"

definition NewServer ::
  "'c cache_pkg \<Rightarrow> Config \<Rightarrow> 'h Handler option \<Rightarrow> ('s, 'c, 'tr, 'h, 'u, 'l, 'd) ServerOption option list \<Rightarrow>
     ('s, 'c, 'tr, 'h, 'u, 'l, 'd) Server" where
  "NewServer H config handler opts =
     (let config1 = (if cfg_Listen config = [] then config\<lparr>cfg_Listen := '':5354''\<rparr> else config);
          server = \<lparr>srv_config = config1, srv_repo = None, srv_manager = None, srv_resolver = None, srv_handler = handler,
            srv_clientOpts = [], srv_udpConn = None, srv_tcpListener = None, srv_udpServer = None, srv_tcpServer = None\<rparr>;
          server1 = fold (\<lambda>opt s. case opt of None \<Rightarrow> s | Some f \<Rightarrow> f s) opts server in
      syncManagedComponents H server1)"

definition NewServerWithResolver ::
  "'c cache_pkg \<Rightarrow> Config \<Rightarrow> ('s, 'c, 'tr) Resolver option \<Rightarrow> ('s, 'c, 'tr, 'h, 'u, 'l, 'd) ServerOption option list \<Rightarrow>
     ('s, 'c, 'tr, 'h, 'u, 'l, 'd) Server" where
  "NewServerWithResolver H config resolver opts =
     (let server = (NewServer H config None opts)\<lparr>srv_resolver := resolver\<rparr>;
          server1 = (case resolver of None \<Rightarrow> server | Some r \<Rightarrow> server\<lparr>srv_repo := Some (rsv_repo r)\<rparr>) in
      syncManagedComponents H server1)"

definition NewServerWithRepository ::
  "'c cache_pkg \<Rightarrow> Config \<Rightarrow> 's Repository option \<Rightarrow> ('s, 'c, 'tr, 'h, 'u, 'l, 'd) ServerOption option list \<Rightarrow>
     ('s, 'c, 'tr, 'h, 'u, 'l, 'd) Server" where
  "NewServerWithRepository H config repo opts =
     (let server = (NewServer H config None opts)\<lparr>srv_repo := repo\<rparr> in
      syncManagedComponents H server)"

definition WithManager :: "'s Manager option \<Rightarrow> ('s, 'c, 'tr, 'h, 'u, 'l, 'd) ServerOption" where
  "WithManager manager server =
     (case manager of
        None \<Rightarrow> server
      | Some m \<Rightarrow> server\<lparr>srv_manager := Some m, srv_repo := mgr_repo m\<rparr>)"

definition WithResolver :: "('s, 'c, 'tr) Resolver option \<Rightarrow> ('s, 'c, 'tr, 'h, 'u, 'l, 'd) ServerOption" where
  "WithResolver resolver server =
     (case resolver of
        None \<Rightarrow> server
      | Some r \<Rightarrow> server\<lparr>srv_resolver := Some r, srv_repo := Some (rsv_repo r)\<rparr>)"

definition WithClientOptions :: "ClientOption option list \<Rightarrow> ('s, 'c, 'tr, 'h, 'u, 'l, 'd) ServerOption" where
  "WithClientOptions opts server = server\<lparr>srv_clientOpts := srv_clientOpts server @ opts\<rparr>"

definition WithHandler :: "'h Handler option \<Rightarrow> ('s, 'c, 'tr, 'h, 'u, 'l, 'd) ServerOption" where
  "WithHandler handler server = (if handler \<noteq> None then server\<lparr>srv_handler := handler\<rparr> else server)"

section \<open>Sockets and DNS servers: net, github.com/miekg/dns\<close>

text \<open>
  The network is a world \<open>'w\<close>. \<open>ListenPacket\<close> and \<open>Listen\<close> bind a network and an address, \<open>udp_Close\<close> is the
  method \<^verbatim>\<open>Close\<close> of a packet connection. \<open>dns_Server_udp\<close> and \<open>dns_Server_tcp\<close> make \<^verbatim>\<open>&dns.Server{...}\<close> with a
  connection or a listener and a handler. \<open>go_serve\<close> starts a goroutine that runs \<^verbatim>\<open>ActivateAndServe\<close> of the
  server, at a time the scheduler chooses, and logs the error it ends with. \<open>Shutdown\<close> stops a server.
\<close>

record ('h, 'u, 'l, 'd, 'w) net_pkg =
  ListenPacket :: "string \<Rightarrow> string \<Rightarrow> (string, 'u, 'w) action"
  Listen :: "string \<Rightarrow> string \<Rightarrow> (string, 'l, 'w) action"
  udp_Close :: "'u \<Rightarrow> (string, unit, 'w) action"
  udp_LocalAddr :: "'u \<Rightarrow> string"
  tcp_Addr :: "'l \<Rightarrow> string"
  dns_Server_udp :: "'u \<Rightarrow> 'h Handler \<Rightarrow> 'w \<Rightarrow> 'd \<times> 'w"
  dns_Server_tcp :: "'l \<Rightarrow> 'h Handler \<Rightarrow> 'w \<Rightarrow> 'd \<times> 'w"
  go_serve :: "'d \<Rightarrow> 'w \<Rightarrow> 'w"
  Shutdown :: "'d \<Rightarrow> (string, unit, 'w) action"
  SplitHostPort :: "string \<Rightarrow> string + string \<times> string"
  JoinHostPort :: "string \<Rightarrow> string \<Rightarrow> string"

section \<open>Life cycle\<close>

definition listenPacket ::
  "('h, 'u, 'l, 'd, 'w) net_pkg \<Rightarrow> string \<Rightarrow> string \<Rightarrow> (error, 'u, 'w) action" where
  "listenPacket N network address w =
     (case ListenPacket N network address w of
        (Inl err, w') \<Rightarrow> (Inl (External err), w')
      | (Inr conn, w') \<Rightarrow> (Inr conn, w'))"

definition srv_listen ::
  "('h, 'u, 'l, 'd, 'w) net_pkg \<Rightarrow> string \<Rightarrow> string \<Rightarrow> (error, 'l, 'w) action" where
  "srv_listen N network address w =
     (case Listen N network address w of
        (Inl err, w') \<Rightarrow> (Inl (External err), w')
      | (Inr listener, w') \<Rightarrow> (Inr listener, w'))"

definition closeNoErr :: "('w \<Rightarrow> (string + unit) \<times> 'w) \<Rightarrow> 'w \<Rightarrow> 'w" where
  "closeNoErr closeFn w = snd (closeFn w)"

definition Start ::
  "('h, 'u, 'l, 'd, 'w) net_pkg \<Rightarrow> ('s, 'c, 'tr, 'h, 'u, 'l, 'd) Server option \<Rightarrow> 'w \<Rightarrow>
     (error + unit) \<times> ('s, 'c, 'tr, 'h, 'u, 'l, 'd) Server option \<times> 'w" where
  "Start N server w =
     (case server of
        None \<Rightarrow> (Inl (Coded CodeServerNil ErrServerNil), None, w)
      | Some s0 \<Rightarrow>
         (let s = ensureHandler s0 in
          case srv_handler s of
            None \<Rightarrow> (Inl (Coded CodeHandlerNil ErrHandlerNil), Some s, w)
          | Some handler \<Rightarrow>
             (if srv_udpServer s \<noteq> None \<or> srv_tcpServer s \<noteq> None
              then (Inl (Coded CodeServerAlreadyStarted ErrServerAlreadyStarted), Some s, w)
              else
                case listenPacket N ''udp'' (cfg_Listen (srv_config s)) w of
                  (Inl err, w1) \<Rightarrow> (Inl err, Some s, w1)
                | (Inr udpConn, w1) \<Rightarrow>
                   (case srv_listen N ''tcp'' (cfg_Listen (srv_config s)) w1 of
                      (Inl err, w2) \<Rightarrow> (Inl err, Some s, closeNoErr (udp_Close N udpConn) w2)
                    | (Inr tcpListener, w2) \<Rightarrow>
                       (let (udpServer, w3) = dns_Server_udp N udpConn handler w2;
                            (tcpServer, w4) = dns_Server_tcp N tcpListener handler w3;
                            w5 = go_serve N udpServer w4;
                            w6 = go_serve N tcpServer w5 in
                        (Inr (),
                         Some (s\<lparr>srv_udpConn := Some udpConn, srv_tcpListener := Some tcpListener,
                                srv_udpServer := Some udpServer, srv_tcpServer := Some tcpServer\<rparr>), w6))))))"

text \<open>\<^verbatim>\<open>errors.Join\<close> is nil when all its arguments are; otherwise the error that has the messages of the others.\<close>

fun errors_Join :: "(string + unit) list \<Rightarrow> string + unit" where
  "errors_Join [] = Inr ()"
| "errors_Join (Inr _ # errs) = errors_Join errs"
| "errors_Join (Inl err # errs) = (case errors_Join errs of Inr _ \<Rightarrow> Inl err | Inl rest \<Rightarrow> Inl (err @ [char_of (10::nat)] @ rest))"

definition shutdownServer ::
  "('h, 'u, 'l, 'd, 'w) net_pkg \<Rightarrow> 'd option \<Rightarrow> 'w \<Rightarrow> (string + unit) list \<times> 'w" where
  "shutdownServer N d w = (case d of None \<Rightarrow> ([], w) | Some srv \<Rightarrow> (case Shutdown N srv w of (err, w') \<Rightarrow> ([err], w')))"

definition Stop ::
  "('h, 'u, 'l, 'd, 'w) net_pkg \<Rightarrow> ('s, 'c, 'tr, 'h, 'u, 'l, 'd) Server option \<Rightarrow> 'w \<Rightarrow>
     (error + unit) \<times> ('s, 'c, 'tr, 'h, 'u, 'l, 'd) Server option \<times> 'w" where
  "Stop N server w =
     (case server of
        None \<Rightarrow> (Inr (), None, w)
      | Some s \<Rightarrow>
         (let (udpErrs, w1) = shutdownServer N (srv_udpServer s) w;
              (tcpErrs, w2) = shutdownServer N (srv_tcpServer s) w1 in
          case errors_Join (udpErrs @ tcpErrs) of
            Inl err \<Rightarrow> (Inl (External err), Some s, w2)
          | Inr _ \<Rightarrow>
             (Inr (), Some (s\<lparr>srv_udpServer := None, srv_tcpServer := None, srv_udpConn := None, srv_tcpListener := None\<rparr>), w2)))"

section \<open>Addresses\<close>

definition UDPAddr :: "('h, 'u, 'l, 'd, 'w) net_pkg \<Rightarrow> ('s, 'c, 'tr, 'h, 'u, 'l, 'd) Server option \<Rightarrow> string" where
  "UDPAddr N server =
     (case server of None \<Rightarrow> [] | Some s \<Rightarrow> (case srv_udpConn s of None \<Rightarrow> [] | Some conn \<Rightarrow> udp_LocalAddr N conn))"

definition TCPAddr :: "('h, 'u, 'l, 'd, 'w) net_pkg \<Rightarrow> ('s, 'c, 'tr, 'h, 'u, 'l, 'd) Server option \<Rightarrow> string" where
  "TCPAddr N server =
     (case server of None \<Rightarrow> [] | Some s \<Rightarrow> (case srv_tcpListener s of None \<Rightarrow> [] | Some listener \<Rightarrow> tcp_Addr N listener))"

definition clientTarget :: "('h, 'u, 'l, 'd, 'w) net_pkg \<Rightarrow> ('s, 'c, 'tr, 'h, 'u, 'l, 'd) Server option \<Rightarrow> string" where
  "clientTarget N server =
     (case server of
        None \<Rightarrow> ''127.0.0.1:5354''
      | Some s \<Rightarrow>
         (let address = (if UDPAddr N server \<noteq> [] then UDPAddr N server else cfg_Listen (srv_config s));
              address1 = (if address = [] then '':5354'' else address) in
          case SplitHostPort N address1 of
            Inl _ \<Rightarrow> address1
          | Inr (host, port) \<Rightarrow>
              JoinHostPort N
                (if host = [] \<or> host = ''0.0.0.0'' \<or> host = ''::'' \<or> host = ''[::]'' then ''127.0.0.1'' else host) port))"

section \<open>Admission of messages\<close>

text \<open>
  \<^verbatim>\<open>int(header.Bits>>11) & 0xF\<close> is the operation code in the flags of a message. \<open>'a\<close> are the decisions of the
  DNS package, \<open>defaultAccept\<close> its function \<^verbatim>\<open>DefaultMsgAcceptFunc\<close>, here as a function of the flags and the rest of the header.
\<close>

definition acceptMsg :: "'a \<Rightarrow> (uint16 \<times> 'hd \<Rightarrow> 'a) \<Rightarrow> uint16 \<times> 'hd \<Rightarrow> 'a" where
  "acceptMsg msgAccept defaultAccept header =
     (let opcode = and (uint (drop_bit 11 (fst header))) 0xF in
      if opcode = OpcodeUpdate then msgAccept else defaultAccept header)"

definition isClosedServerError :: "(string \<Rightarrow> string) \<Rightarrow> (string \<Rightarrow> bool) \<Rightarrow> string option \<Rightarrow> bool" where
  "isClosedServerError lower isErrClosed err =
     (case err of
        None \<Rightarrow> False
      | Some e \<Rightarrow> isErrClosed e \<or> sublist ''server closed'' (ToLower lower e))"

section \<open>What the network promises\<close>

text \<open>
  What of the network the properties look at: the sockets that are bound, the socket a DNS server
  serves, and the servers that have been shut down.
\<close>

record ('u, 'l, 'd, 'w) net_view =
  bound_udp :: "'w \<Rightarrow> 'u set"
  bound_tcp :: "'w \<Rightarrow> 'l set"
  served :: "'w \<Rightarrow> 'd \<rightharpoonup> 'u + 'l"
  shut :: "'w \<Rightarrow> 'd set"

definition same_view :: "('u, 'l, 'd, 'w) net_view \<Rightarrow> 'w \<Rightarrow> 'w \<Rightarrow> bool" where
  "same_view V w w' \<longleftrightarrow> bound_udp V w' = bound_udp V w \<and> bound_tcp V w' = bound_tcp V w \<and> served V w' = served V w \<and> shut V w' = shut V w"

definition unbind :: "'u + 'l \<Rightarrow> 'u set \<times> 'l set \<Rightarrow> 'u set \<times> 'l set" where
  "unbind socket B = (case socket of Inl u \<Rightarrow> (fst B - {u}, snd B) | Inr l \<Rightarrow> (fst B, snd B - {l}))"

text \<open>
  Documented behaviour. Binding an address fails without an effect or gives a socket that was not
  bound; closing releases it. A new DNS server is a new object, not shut down. \<^verbatim>\<open>Shutdown\<close> stops a server and
  releases its socket, or fails and changes nothing, and it fails on a server that was shut down before.
  \<open>sched\<close> are the steps of the goroutines, which neither bind nor release a socket while the server serves.
\<close>

definition sockets_ok :: "('h, 'u, 'l, 'd, 'w) net_pkg \<Rightarrow> ('u, 'l, 'd, 'w) net_view \<Rightarrow> bool" where
  "sockets_ok N V \<longleftrightarrow>
     (\<forall>net addr w err w'. ListenPacket N net addr w = (Inl err, w') \<longrightarrow> same_view V w w') \<and>
     (\<forall>net addr w u w'. ListenPacket N net addr w = (Inr u, w') \<longrightarrow> u \<notin> bound_udp V w \<and>
        bound_udp V w' = insert u (bound_udp V w) \<and> bound_tcp V w' = bound_tcp V w \<and> served V w' = served V w \<and> shut V w' = shut V w) \<and>
     (\<forall>net addr w err w'. Listen N net addr w = (Inl err, w') \<longrightarrow> same_view V w w') \<and>
     (\<forall>net addr w l w'. Listen N net addr w = (Inr l, w') \<longrightarrow> l \<notin> bound_tcp V w \<and>
        bound_tcp V w' = insert l (bound_tcp V w) \<and> bound_udp V w' = bound_udp V w \<and> served V w' = served V w \<and> shut V w' = shut V w) \<and>
     (\<forall>u w x w'. udp_Close N u w = (x, w') \<longrightarrow>
        bound_udp V w' = bound_udp V w - {u} \<and> bound_tcp V w' = bound_tcp V w \<and> served V w' = served V w \<and> shut V w' = shut V w)"

definition servers_ok :: "('h, 'u, 'l, 'd, 'w) net_pkg \<Rightarrow> ('u, 'l, 'd, 'w) net_view \<Rightarrow> ('w \<Rightarrow> 'w \<Rightarrow> bool) \<Rightarrow> bool" where
  "servers_ok N V sched \<longleftrightarrow>
     (\<forall>u h w d w'. dns_Server_udp N u h w = (d, w') \<longrightarrow> d \<notin> dom (served V w) \<and> d \<notin> shut V w \<and>
        served V w' = (served V w)(d \<mapsto> Inl u) \<and> bound_udp V w' = bound_udp V w \<and> bound_tcp V w' = bound_tcp V w \<and> shut V w' = shut V w) \<and>
     (\<forall>l h w d w'. dns_Server_tcp N l h w = (d, w') \<longrightarrow> d \<notin> dom (served V w) \<and> d \<notin> shut V w \<and>
        served V w' = (served V w)(d \<mapsto> Inr l) \<and> bound_udp V w' = bound_udp V w \<and> bound_tcp V w' = bound_tcp V w \<and> shut V w' = shut V w) \<and>
     (\<forall>d w. same_view V w (go_serve N d w)) \<and>
     (\<forall>d w err w'. Shutdown N d w = (Inl err, w') \<longrightarrow> same_view V w w') \<and>
     (\<forall>d w w' socket. Shutdown N d w = (Inr (), w') \<and> served V w d = Some socket \<longrightarrow> d \<notin> shut V w \<and>
        shut V w' = insert d (shut V w) \<and> served V w' = served V w \<and>
        (bound_udp V w', bound_tcp V w') = unbind socket (bound_udp V w, bound_tcp V w)) \<and>
     (\<forall>w w'. sched w w' \<longrightarrow> same_view V w w')"

lemma sockets_laws:
  assumes "sockets_ok N V"
  shows "ListenPacket N net addr w = (Inl err, w') \<Longrightarrow> same_view V w w'"
    and "ListenPacket N net addr w = (Inr u, w') \<Longrightarrow> u \<notin> bound_udp V w \<and>
        bound_udp V w' = insert u (bound_udp V w) \<and> bound_tcp V w' = bound_tcp V w \<and> served V w' = served V w \<and> shut V w' = shut V w"
    and "Listen N net addr w = (Inl err, w') \<Longrightarrow> same_view V w w'"
    and "Listen N net addr w = (Inr l, w') \<Longrightarrow> l \<notin> bound_tcp V w \<and>
        bound_tcp V w' = insert l (bound_tcp V w) \<and> bound_udp V w' = bound_udp V w \<and> served V w' = served V w \<and> shut V w' = shut V w"
    and "udp_Close N u w = (x, w') \<Longrightarrow>
        bound_udp V w' = bound_udp V w - {u} \<and> bound_tcp V w' = bound_tcp V w \<and> served V w' = served V w \<and> shut V w' = shut V w"
  using assms unfolding sockets_ok_def by simp_all

lemma servers_laws:
  assumes "servers_ok N V sched"
  shows "dns_Server_udp N u h w = (d, w') \<Longrightarrow> d \<notin> dom (served V w) \<and> d \<notin> shut V w \<and>
        served V w' = (served V w)(d \<mapsto> Inl u) \<and> bound_udp V w' = bound_udp V w \<and> bound_tcp V w' = bound_tcp V w \<and> shut V w' = shut V w"
    and "dns_Server_tcp N l h w = (d, w') \<Longrightarrow> d \<notin> dom (served V w) \<and> d \<notin> shut V w \<and>
        served V w' = (served V w)(d \<mapsto> Inr l) \<and> bound_udp V w' = bound_udp V w \<and> bound_tcp V w' = bound_tcp V w \<and> shut V w' = shut V w"
    and "same_view V w (go_serve N d w)"
    and "Shutdown N d w = (Inl err, w') \<Longrightarrow> same_view V w w'"
    and "Shutdown N d w = (Inr (), w') \<Longrightarrow> served V w d = Some socket \<Longrightarrow> d \<notin> shut V w \<and>
        shut V w' = insert d (shut V w) \<and> served V w' = served V w \<and>
        (bound_udp V w', bound_tcp V w') = unbind socket (bound_udp V w, bound_tcp V w)"
    and "sched w w' \<Longrightarrow> same_view V w w'"
  using assms unfolding servers_ok_def by (elim conjE; simp)+

section \<open>States of the server\<close>

text \<open>
  A server is idle, with none of its four fields set and none of its sockets bound, or active, with all of them set; an
  active server has a socket bound for as long as its DNS server is not shut down. \<open>B\<close> are the sockets
  of others.
\<close>

definition idle :: "('u, 'l, 'd, 'w) net_view \<Rightarrow> 'u set \<times> 'l set \<Rightarrow> ('s, 'c, 'tr, 'h, 'u, 'l, 'd) Server \<Rightarrow> 'w \<Rightarrow> bool" where
  "idle V B s w \<longleftrightarrow> srv_udpConn s = None \<and> srv_tcpListener s = None \<and> srv_udpServer s = None \<and> srv_tcpServer s = None \<and>
     bound_udp V w = fst B \<and> bound_tcp V w = snd B"

definition active_on ::
  "('u, 'l, 'd, 'w) net_view \<Rightarrow> 'u set \<times> 'l set \<Rightarrow> 'u \<Rightarrow> 'l \<Rightarrow> 'd \<Rightarrow> 'd \<Rightarrow> ('s, 'c, 'tr, 'h, 'u, 'l, 'd) Server \<Rightarrow> 'w \<Rightarrow> bool" where
  "active_on V B u l du dt s w \<longleftrightarrow> srv_udpConn s = Some u \<and> srv_tcpListener s = Some l \<and> srv_udpServer s = Some du \<and> srv_tcpServer s = Some dt \<and>
     served V w du = Some (Inl u) \<and> served V w dt = Some (Inr l) \<and> u \<notin> fst B \<and> l \<notin> snd B \<and>
     bound_udp V w = (if du \<in> shut V w then fst B else insert u (fst B)) \<and>
     bound_tcp V w = (if dt \<in> shut V w then snd B else insert l (snd B))"

definition active :: "('u, 'l, 'd, 'w) net_view \<Rightarrow> 'u set \<times> 'l set \<Rightarrow> ('s, 'c, 'tr, 'h, 'u, 'l, 'd) Server \<Rightarrow> 'w \<Rightarrow> bool" where
  "active V B s w \<longleftrightarrow> (\<exists>u l du dt. active_on V B u l du dt s w)"

text \<open>Calls of \<^verbatim>\<open>Start\<close> and \<^verbatim>\<open>Stop\<close>, whether they succeed or fail, and steps of the goroutines.\<close>

inductive lifecycle ::
  "('h, 'u, 'l, 'd, 'w) net_pkg \<Rightarrow> ('w \<Rightarrow> 'w \<Rightarrow> bool) \<Rightarrow> ('s, 'c, 'tr, 'h, 'u, 'l, 'd) Server option \<times> 'w \<Rightarrow>
     ('s, 'c, 'tr, 'h, 'u, 'l, 'd) Server option \<times> 'w \<Rightarrow> bool"
  for N :: "('h, 'u, 'l, 'd, 'w) net_pkg" and sched :: "'w \<Rightarrow> 'w \<Rightarrow> bool"
    and sw0 :: "('s, 'c, 'tr, 'h, 'u, 'l, 'd) Server option \<times> 'w"
where
  new: "lifecycle N sched sw0 sw0"
| start: "lifecycle N sched sw0 (s, w) \<Longrightarrow> Start N s w = (res, s', w') \<Longrightarrow> lifecycle N sched sw0 (s', w')"
| stop: "lifecycle N sched sw0 (s, w) \<Longrightarrow> Stop N s w = (res, s', w') \<Longrightarrow> lifecycle N sched sw0 (s', w')"
| sched: "lifecycle N sched sw0 (s, w) \<Longrightarrow> sched w w' \<Longrightarrow> lifecycle N sched sw0 (s, w')"

lemma ensureHandler_fields [simp]:
  "srv_udpConn (ensureHandler s) = srv_udpConn s" "srv_tcpListener (ensureHandler s) = srv_tcpListener s"
  "srv_udpServer (ensureHandler s) = srv_udpServer s" "srv_tcpServer (ensureHandler s) = srv_tcpServer s"
  "srv_config (ensureHandler s) = srv_config s" "srv_repo (ensureHandler s) = srv_repo s"
  "srv_manager (ensureHandler s) = srv_manager s" "srv_resolver (ensureHandler s) = srv_resolver s"
  by (simp_all add: ensureHandler_def)

lemma idle_same: "idle V B s w \<Longrightarrow> same_view V w w' \<Longrightarrow> idle V B s w'"
  by (simp add: idle_def same_view_def)

lemma active_on_same: "active_on V B u l du dt s w \<Longrightarrow> same_view V w w' \<Longrightarrow> active_on V B u l du dt s w'"
  by (simp add: active_on_def same_view_def)

lemma idle_ensureHandler [simp]: "idle V B (ensureHandler s) w = idle V B s w"
  by (simp add: idle_def)

lemma active_on_ensureHandler [simp]: "active_on V B u l du dt (ensureHandler s) w = active_on V B u l du dt s w"
  by (simp add: active_on_def)

lemma same_view_trans: "same_view V w1 w2 \<Longrightarrow> same_view V w2 w3 \<Longrightarrow> same_view V w1 w3"
  by (simp add: same_view_def)

text \<open>\<^verbatim>\<open>Start\<close> on an active server refuses.\<close>

lemma Start_active:
  assumes "active_on V B u l du dt s w"
  shows "\<exists>err. Start N (Some s) w = (Inl err, Some (ensureHandler s), w)"
  using assms by (cases "srv_handler (ensureHandler s)") (auto simp: Start_def active_on_def)

text \<open>\<^verbatim>\<open>Start\<close> on an idle server: it fails and the server stays idle, or it succeeds with both sockets bound.\<close>

lemma Start_idle:
  assumes "sockets_ok N V" and "servers_ok N V sched" and "idle V B s w" and "Start N (Some s) w = (res, s', w')"
  shows "case res of
      Inl err \<Rightarrow> s' = Some (ensureHandler s) \<and> idle V B (ensureHandler s) w'
    | Inr _ \<Rightarrow> (\<exists>t u l du dt. s' = Some t \<and> active_on V B u l du dt t w' \<and> du \<notin> shut V w' \<and> dt \<notin> shut V w')"
proof -
  note sockets = sockets_laws [OF assms(1)] and servers = servers_laws [OF assms(2)]
  have B: "bound_udp V w = fst B" "bound_tcp V w = snd B" and none: "srv_udpServer s = None" "srv_tcpServer s = None"
    using assms(3) by (simp_all add: idle_def)
  show ?thesis
  proof (cases "srv_handler (ensureHandler s)")
    case None
    then show ?thesis using assms(3,4) by (auto simp: Start_def Let_def)
  next
    case (Some h)
    note start = assms(4) [unfolded Start_def Let_def option.case Some, simplified none ensureHandler_fields simp_thms]
    let ?addr = "cfg_Listen (srv_config s)"
    show ?thesis
    proof (cases "ListenPacket N ''udp'' ?addr w")
      case (Pair r1 w1)
      show ?thesis
      proof (cases r1)
        case (Inl err)
        note same = sockets(1) [OF Pair [unfolded Inl]]
        show ?thesis using start idle_same [OF assms(3) same] by (auto simp: Pair Inl none listenPacket_def)
      next
        case (Inr u)
        note u = sockets(2) [OF Pair [unfolded Inr]]
        show ?thesis
        proof (cases "Listen N ''tcp'' ?addr w1")
          case tcp: (Pair r2 w2)
          show ?thesis
          proof (cases r2)
            case err: (Inl err)
            obtain x w3 where close: "udp_Close N u w2 = (x, w3)" by (cases "udp_Close N u w2")
            have "idle V B s w3"
              using sockets(5) [OF close] sockets(3) [OF tcp [unfolded err]] u assms(3)
              by (auto simp: idle_def same_view_def)
            then show ?thesis using start
              by (auto simp: Pair Inr tcp err none listenPacket_def srv_listen_def closeNoErr_def close)
          next
            case l: (Inr l)
            note l' = sockets(4) [OF tcp [unfolded l]]
            obtain du w3 where udp: "dns_Server_udp N u h w2 = (du, w3)" by (cases "dns_Server_udp N u h w2")
            obtain dt w4 where dt: "dns_Server_tcp N l h w3 = (dt, w4)" by (cases "dns_Server_tcp N l h w3")
            let ?w' = "go_serve N dt (go_serve N du w4)"
            have same: "same_view V w4 ?w'" using servers(3) same_view_trans by metis
            show ?thesis using start u l' servers(1) [OF udp] servers(2) [OF dt] same B
              by (auto simp: Pair Inr tcp l none listenPacket_def srv_listen_def udp dt active_on_def same_view_def)
          qed
        qed
      qed
    qed
  qed
qed

text \<open>\<^verbatim>\<open>Shutdown\<close> of one of the two servers.\<close>

lemma Shutdown_active:
  assumes "servers_ok N V sched" and "active_on V B u l du dt s w" and "d = du \<or> d = dt" and "Shutdown N d w = (x, w')"
  shows "active_on V B u l du dt s w' \<and>
    (case x of Inl _ \<Rightarrow> shut V w' = shut V w | Inr _ \<Rightarrow> d \<notin> shut V w \<and> shut V w' = insert d (shut V w))"
proof (cases x)
  case (Inl err)
  note same = servers_laws(4) [OF assms(1) assms(4) [unfolded Inl]]
  then show ?thesis using active_on_same [OF assms(2) same] by (simp add: Inl same_view_def)
next
  case (Inr y)
  have served: "served V w du = Some (Inl u)" "served V w dt = Some (Inr l)" "u \<notin> fst B" "l \<notin> snd B"
    using assms(2) by (simp_all add: active_on_def)
  then have "du \<noteq> dt" by auto
  moreover note law = servers_laws(5) [OF assms(1), of d w w', unfolded assms(4) Inr]
  ultimately show ?thesis using assms(2,3) law served by (auto simp: Inr active_on_def unbind_def split: if_split_asm)
qed

lemma Stop_active:
  assumes "servers_ok N V sched" and "active_on V B u l du dt s w" and "Stop N (Some s) w = (res, s', w')"
  shows "case res of
      Inl _ \<Rightarrow> s' = Some s \<and> active_on V B u l du dt s w' \<and> shut V w \<subseteq> shut V w'
    | Inr _ \<Rightarrow> du \<notin> shut V w \<and> dt \<notin> shut V w \<and> (\<exists>t. s' = Some t \<and> idle V B t w')"
proof -
  have fields: "srv_udpServer s = Some du" "srv_tcpServer s = Some dt" and "du \<noteq> dt"
    using assms(2) by (auto simp: active_on_def)
  obtain x w1 where udp: "Shutdown N du w = (x, w1)" by (cases "Shutdown N du w")
  obtain y w2 where tcp: "Shutdown N dt w1 = (y, w2)" by (cases "Shutdown N dt w1")
  note 1 = Shutdown_active [OF assms(1,2) disjI1 [OF refl] udp]
  note 2 = Shutdown_active [OF assms(1) conjunct1 [OF 1] disjI2 [OF refl] tcp]
  show ?thesis using assms(3) 1 2 \<open>du \<noteq> dt\<close>
    by (cases x; cases y) (auto simp: Stop_def shutdownServer_def fields udp tcp active_on_def idle_def)
qed

lemma Stop_active_shut:
  assumes "servers_ok N V sched" and "active_on V B u l du dt s w" and "Stop N (Some s) w = (Inl err, s', w')"
    and "shut V w' \<noteq> shut V w"
  shows "s' = Some s \<and> active_on V B u l du dt s w' \<and> (du \<in> shut V w' \<or> dt \<in> shut V w')"
proof -
  have fields: "srv_udpServer s = Some du" "srv_tcpServer s = Some dt" using assms(2) by (auto simp: active_on_def)
  obtain x w1 where udp: "Shutdown N du w = (x, w1)" by (cases "Shutdown N du w")
  obtain y w2 where tcp: "Shutdown N dt w1 = (y, w2)" by (cases "Shutdown N dt w1")
  note 1 = Shutdown_active [OF assms(1,2) disjI1 [OF refl] udp]
  note 2 = Shutdown_active [OF assms(1) conjunct1 [OF 1] disjI2 [OF refl] tcp]
  have "w' = w2" "s' = Some s" using assms(3)
    by (auto simp: Stop_def shutdownServer_def fields udp tcp split: sum.splits)
  then show ?thesis using 1 2 assms(4) by (cases x; cases y) auto
qed

lemma Stop_idle:
  assumes "idle V B s w" and "Stop N (Some s) w = (res, s', w')"
  shows "res = Inr () \<and> w' = w \<and> (\<exists>t. s' = Some t \<and> idle V B t w)"
  using assms by (auto simp: Stop_def shutdownServer_def idle_def)

text \<open>The invariant of the life cycle.\<close>

definition lifecycle_ok :: "('u, 'l, 'd, 'w) net_view \<Rightarrow> 'u set \<times> 'l set \<Rightarrow> ('s, 'c, 'tr, 'h, 'u, 'l, 'd) Server option \<times> 'w \<Rightarrow> bool" where
  "lifecycle_ok V B sw \<longleftrightarrow> (\<exists>t. fst sw = Some t \<and> (idle V B t (snd sw) \<or> active V B t (snd sw)))"

lemma lifecycle_ok_idle: "idle V B t w \<Longrightarrow> lifecycle_ok V B (Some t, w)"
  by (simp add: lifecycle_ok_def)

lemma lifecycle_ok_active: "active_on V B u l du dt t w \<Longrightarrow> lifecycle_ok V B (Some t, w)"
  unfolding lifecycle_ok_def active_def by auto

lemma lifecycle_ok_cases:
  assumes "lifecycle_ok V B (s, w)"
  obtains (idle) t where "s = Some t" "idle V B t w"
    | (active) t u l du dt where "s = Some t" "active_on V B u l du dt t w"
  using assms unfolding lifecycle_ok_def active_def by auto

lemma lifecycle_ok_step:
  assumes "sockets_ok N V" and "servers_ok N V sched" and "lifecycle_ok V B (s, w)"
  shows "Start N s w = (res, s', w') \<Longrightarrow> lifecycle_ok V B (s', w')"
    and "Stop N s w = (res, s', w') \<Longrightarrow> lifecycle_ok V B (s', w')"
    and "sched w w' \<Longrightarrow> lifecycle_ok V B (s, w')"
proof -
  show "lifecycle_ok V B (s', w')" if start: "Start N s w = (res, s', w')"
    using assms(3)
  proof (cases rule: lifecycle_ok_cases)
    case (idle t)
    from Start_idle [OF assms(1,2) idle(2) start [unfolded idle(1)]] show ?thesis
      by (cases res) (auto intro: lifecycle_ok_idle lifecycle_ok_active)
  next
    case (active t u l du dt)
    from Start_active [OF active(2), of N] start active(1) have "s' = Some (ensureHandler t)" "w' = w" by auto
    with active(2) show ?thesis by (auto intro: lifecycle_ok_active)
  qed
  show "lifecycle_ok V B (s', w')" if stop: "Stop N s w = (res, s', w')"
    using assms(3)
  proof (cases rule: lifecycle_ok_cases)
    case (idle t)
    from Stop_idle [OF idle(2) stop [unfolded idle(1)]] show ?thesis by (auto intro: lifecycle_ok_idle)
  next
    case (active t u l du dt)
    from Stop_active [OF assms(2) active(2) stop [unfolded active(1)]] show ?thesis
      by (cases res) (auto intro: lifecycle_ok_idle lifecycle_ok_active)
  qed
  show "lifecycle_ok V B (s, w')" if "sched w w'"
    using assms(3)
  proof (cases rule: lifecycle_ok_cases)
    case (idle t)
    from idle_same [OF idle(2) servers_laws(6) [OF assms(2) that]] show ?thesis by (simp add: idle(1) lifecycle_ok_idle)
  next
    case (active t u l du dt)
    from active_on_same [OF active(2) servers_laws(6) [OF assms(2) that]] show ?thesis by (simp add: active(1) lifecycle_ok_active)
  qed
qed

lemma lifecycle_invariant:
  assumes "sockets_ok N V" and "servers_ok N V sched" and "lifecycle_ok V B sw0" and "lifecycle N sched sw0 sw"
  shows "lifecycle_ok V B sw"
  using assms(4)
proof (induction rule: lifecycle.induct)
  case new
  show ?case by (rule assms(3))
next
  case (start s w res s' w')
  from lifecycle_ok_step(1) [OF assms(1,2) start.IH start.hyps(2)] show ?case .
next
  case (stop s w res s' w')
  from lifecycle_ok_step(2) [OF assms(1,2) stop.IH stop.hyps(2)] show ?case .
next
  case (sched s w w')
  from lifecycle_ok_step(3) [OF assms(1,2) sched.IH sched.hyps(2)] show ?case .
qed

text \<open>A server with one of its two DNS servers shut down stays in that state.\<close>

definition half_stopped :: "('u, 'l, 'd, 'w) net_view \<Rightarrow> 'u set \<times> 'l set \<Rightarrow> ('s, 'c, 'tr, 'h, 'u, 'l, 'd) Server option \<times> 'w \<Rightarrow> bool" where
  "half_stopped V B sw \<longleftrightarrow>
     (\<exists>t u l du dt. fst sw = Some t \<and> active_on V B u l du dt t (snd sw) \<and> (du \<in> shut V (snd sw) \<or> dt \<in> shut V (snd sw)))"

lemma half_stopped_step:
  assumes "servers_ok N V sched" and "half_stopped V B (s, w)"
  shows "Start N s w = (res, s', w') \<Longrightarrow> half_stopped V B (s', w') \<and> res \<noteq> Inr ()"
    and "Stop N s w = (res, s', w') \<Longrightarrow> half_stopped V B (s', w') \<and> res \<noteq> Inr ()"
    and "sched w w' \<Longrightarrow> half_stopped V B (s, w')"
proof -
  obtain t u l du dt where t: "s = Some t" and act: "active_on V B u l du dt t w" and half: "du \<in> shut V w \<or> dt \<in> shut V w"
    using assms(2) by (auto simp: half_stopped_def)
  show "half_stopped V B (s', w') \<and> res \<noteq> Inr ()" if "Start N s w = (res, s', w')"
    using Start_active [OF act, of N] that act half active_on_ensureHandler [of V B u l du dt t w]
    by (auto simp: t half_stopped_def)
  show "half_stopped V B (s', w') \<and> res \<noteq> Inr ()" if "Stop N s w = (res, s', w')"
    using Stop_active [OF assms(1) act that [unfolded t]] half 
    by (cases res) (auto simp: half_stopped_def, blast+)
  show "half_stopped V B (s, w')" if "sched w w'"
  proof -
    note same = servers_laws(6) [OF assms(1) that]
    from active_on_same [OF act same] same half show ?thesis unfolding t half_stopped_def same_view_def by auto
  qed
qed

lemma half_stopped_forever:
  assumes "servers_ok N V sched" and "half_stopped V B sw0" and "lifecycle N sched sw0 sw"
  shows "half_stopped V B sw"
  using assms(3) by induction (use assms(2) half_stopped_step [OF assms(1)] in blast)+

section \<open>A reference network\<close>

text \<open>
  Sockets and DNS servers are numbers. An address is bound once per network. \<^verbatim>\<open>ActivateAndServe\<close> runs when the
  scheduler picks the goroutine; \<^verbatim>\<open>Shutdown\<close> fails on a server that has not been started or has been stopped.
\<close>

record ref_net =
  rn_udp :: "(nat \<times> string) list"
  rn_tcp :: "(nat \<times> string) list"
  rn_servers :: "(nat \<times> (nat + nat)) list"
  rn_started :: "nat list"
  rn_shut :: "nat list"

definition ref_unbind :: "nat + nat \<Rightarrow> ref_net \<Rightarrow> ref_net" where
  "ref_unbind socket w = (case socket of
     Inl u \<Rightarrow> w\<lparr>rn_udp := filter (\<lambda>e. fst e \<noteq> u) (rn_udp w)\<rparr>
   | Inr l \<Rightarrow> w\<lparr>rn_tcp := filter (\<lambda>e. fst e \<noteq> l) (rn_tcp w)\<rparr>)"

definition ref_fresh :: "ref_net \<Rightarrow> nat" where
  "ref_fresh w = Suc (sum_list (map fst (rn_udp w) @ map fst (rn_tcp w) @ map fst (rn_servers w) @ rn_shut w))"

definition ref_network :: "('h, nat, nat, nat, ref_net) net_pkg" where
  "ref_network =
     \<lparr>ListenPacket = (\<lambda>net addr w. if addr \<in> snd ` set (rn_udp w) then (Inl ''address in use'', w)
        else (Inr (ref_fresh w), w\<lparr>rn_udp := (ref_fresh w, addr) # rn_udp w\<rparr>)),
      Listen = (\<lambda>net addr w. if addr \<in> snd ` set (rn_tcp w) then (Inl ''address in use'', w)
        else (Inr (ref_fresh w), w\<lparr>rn_tcp := (ref_fresh w, addr) # rn_tcp w\<rparr>)),
      udp_Close = (\<lambda>u w. (Inr (), ref_unbind (Inl u) w)),
      udp_LocalAddr = (\<lambda>u. '':5354''), tcp_Addr = (\<lambda>l. '':5354''),
      dns_Server_udp = (\<lambda>u h w. (ref_fresh w, w\<lparr>rn_servers := (ref_fresh w, Inl u) # rn_servers w\<rparr>)),
      dns_Server_tcp = (\<lambda>l h w. (ref_fresh w, w\<lparr>rn_servers := (ref_fresh w, Inr l) # rn_servers w\<rparr>)),
      go_serve = (\<lambda>d w. w),
      Shutdown = (\<lambda>d w. if d \<in> set (rn_started w) \<and> d \<notin> set (rn_shut w)
        then
          case map_of (rn_servers w) d of
            Some socket \<Rightarrow> (Inr (), ref_unbind socket (w\<lparr>rn_shut := d # rn_shut w\<rparr>))
          | None \<Rightarrow> (Inl ''server not started'', w)
        else (Inl ''server not started'', w)),
      SplitHostPort = (\<lambda>a. case split_on (CHR '':'') a of [host, port] \<Rightarrow> Inr (host, port) | _ \<Rightarrow> Inl ''address''),
      JoinHostPort = (\<lambda>host port. host @ '':'' @ port)\<rparr>"

definition ref_view :: "(nat, nat, nat, ref_net) net_view" where
  "ref_view =
     \<lparr>bound_udp = (\<lambda>w. fst ` set (rn_udp w)), bound_tcp = (\<lambda>w. fst ` set (rn_tcp w)),
      served = (\<lambda>w. map_of (rn_servers w)), shut = (\<lambda>w. set (rn_shut w))\<rparr>"

definition ref_activate :: "nat \<Rightarrow> ref_net \<Rightarrow> ref_net" where
  "ref_activate d w = w\<lparr>rn_started := d # rn_started w\<rparr>"

definition ref_sched :: "ref_net \<Rightarrow> ref_net \<Rightarrow> bool" where
  "ref_sched w w' \<longleftrightarrow> (\<exists>d. w' = ref_activate d w)"

lemma ref_fresh_new:
  "ref_fresh w \<notin> fst ` set (rn_udp w)" "ref_fresh w \<notin> fst ` set (rn_tcp w)" "ref_fresh w \<notin> fst ` set (rn_servers w)"
  "ref_fresh w \<notin> set (rn_shut w)"
proof -
  let ?xs = "map fst (rn_udp w) @ map fst (rn_tcp w) @ map fst (rn_servers w) @ rn_shut w"
  have "x < ref_fresh w" if "x \<in> set ?xs" for x
    using member_le_sum_list [OF that] unfolding ref_fresh_def by (intro le_imp_less_Suc) simp
  then have "ref_fresh w \<notin> set ?xs" by blast
  then show "ref_fresh w \<notin> fst ` set (rn_udp w)" "ref_fresh w \<notin> fst ` set (rn_tcp w)" "ref_fresh w \<notin> fst ` set (rn_servers w)"
    "ref_fresh w \<notin> set (rn_shut w)" by simp_all
qed

lemma ref_sockets_ok [simp]: "sockets_ok ref_network ref_view"
  unfolding sockets_ok_def ref_network_def ref_view_def
  by (auto simp: same_view_def ref_unbind_def ref_fresh_new split: if_split_asm)

lemma ref_servers_ok [simp]: "servers_ok ref_network ref_view ref_sched"
  unfolding servers_ok_def ref_network_def ref_view_def
  by (auto simp: same_view_def ref_unbind_def unbind_def ref_fresh_new ref_sched_def ref_activate_def dom_map_of_conv_image_fst
    split: if_split_asm option.splits sum.splits)

section \<open>Properties of the life cycle\<close>

text \<open>
  C12: Whatever calls of \<^verbatim>\<open>Start\<close> and \<^verbatim>\<open>Stop\<close> are made, whichever of them fail and however the goroutines run, a
  server never keeps a socket without knowing it: it is idle, all four of its fields are nil and only
  the sockets of others are bound, or all four are set and every socket bound beyond those of others
  is one of its two.
\<close>

theorem Server_leaks_no_socket:
  assumes "sockets_ok N V" and "servers_ok N V sched" and "idle V (B, T) s0 w0" and "lifecycle N sched (Some s0, w0) (s, w)"
  shows "\<exists>t. s = Some t \<and>
    (srv_udpServer t = None \<and> srv_tcpServer t = None \<and> srv_udpConn t = None \<and> srv_tcpListener t = None \<and>
       bound_udp V w = B \<and> bound_tcp V w = T \<or>
     (\<exists>u l du dt. srv_udpServer t = Some du \<and> srv_tcpServer t = Some dt \<and> srv_udpConn t = Some u \<and> srv_tcpListener t = Some l \<and>
       bound_udp V w = (if du \<in> shut V w then B else insert u B) \<and> bound_tcp V w = (if dt \<in> shut V w then T else insert l T)))"
proof -
  from lifecycle_invariant [OF assms(1,2) lifecycle_ok_idle [OF assms(3)] assms(4)] show ?thesis
  proof (cases rule: lifecycle_ok_cases)
    case (idle t)
    then show ?thesis by (simp add: idle_def)
  next
    case (active t u l du dt)
    then show ?thesis by (auto simp: active_on_def)
  qed
qed

abbreviation empty_net :: ref_net where
  "empty_net \<equiv> \<lparr>rn_udp = [], rn_tcp = [], rn_servers = [], rn_started = [], rn_shut = []\<rparr>"

definition demo_server :: "(unit, unit, unit, unit, nat, nat, nat) Server" where
  "demo_server = \<lparr>srv_config = \<lparr>cfg_Listen = '':53''\<rparr>, srv_repo = None, srv_manager = None, srv_resolver = None,
     srv_handler = Some (CustomHandler ()), srv_clientOpts = [], srv_udpConn = None, srv_tcpListener = None,
     srv_udpServer = None, srv_tcpServer = None\<rparr>"

text \<open>A server of somebody else holds the TCP port: \<^verbatim>\<open>Start\<close> fails and gives the UDP port back.\<close>

abbreviation taken_net :: ref_net where
  "taken_net \<equiv> empty_net\<lparr>rn_tcp := [(7, '':53'')]\<rparr>"

theorem Server_leaks_no_socket_witness:
  "Start ref_network (Some demo_server) taken_net = (Inl (External ''address in use''), Some demo_server, taken_net) \<and>
   bound_udp ref_view taken_net = {}"
proof -
  have idle: "idle ref_view ({}, {7}) demo_server taken_net" by (simp add: idle_def ref_view_def demo_server_def)
  have start: "Start ref_network (Some demo_server) taken_net = (Inl (External ''address in use''), Some demo_server, taken_net)"
    by (simp add: Start_def ref_network_def demo_server_def ensureHandler_def listenPacket_def srv_listen_def closeNoErr_def
      ref_unbind_def ref_fresh_def)
  note run = lifecycle.start [OF lifecycle.new [of _ ref_sched] start]
  from Server_leaks_no_socket [OF ref_sockets_ok ref_servers_ok idle run] have "bound_udp ref_view taken_net = {}"
    by (simp add: demo_server_def)
  with start show ?thesis by simp
qed

text \<open>
  C28: A server that \<^verbatim>\<open>Stop\<close> has stopped can be started again: when both ports can be bound, \<^verbatim>\<open>Start\<close> succeeds
  with the new sockets, and they are the only ones of the server that are bound.
\<close>

theorem Server_restarts:
  assumes "sockets_ok N V" and "servers_ok N V sched" and "idle V (B, T) s0 w0" and "lifecycle N sched (Some s0, w0) (s, w)"
    and "Stop N s w = (Inr (), Some t, w1)" and "srv_handler t \<noteq> None"
    and "ListenPacket N ''udp'' (cfg_Listen (srv_config t)) w1 = (Inr u, w2)"
    and "Listen N ''tcp'' (cfg_Listen (srv_config t)) w2 = (Inr l, w3)"
  shows "\<exists>t' w4. Start N (Some t) w1 = (Inr (), Some t', w4) \<and> srv_udpConn t' = Some u \<and> srv_tcpListener t' = Some l \<and>
    bound_udp V w4 = insert u B \<and> bound_tcp V w4 = insert l T"
proof -
  from lifecycle_invariant [OF assms(1,2) lifecycle_ok_idle [OF assms(3)] assms(4)] have "idle V (B, T) t w1"
  proof (cases rule: lifecycle_ok_cases)
    case (idle t')
    from Stop_idle [OF idle(2) assms(5) [unfolded idle(1)]] show ?thesis by auto
  next
    case (active t' u' l' du dt)
    from Stop_active [OF assms(2) active(2) assms(5) [unfolded active(1)]] show ?thesis by auto
  qed
  note idle = this
  obtain h where h: "srv_handler t = Some h" using assms(6) by auto
  then have t: "ensureHandler t = t" by (simp add: ensureHandler_def)
  have none: "srv_udpServer t = None" "srv_tcpServer t = None" using idle by (simp_all add: idle_def)
  obtain du w4 where du: "dns_Server_udp N u h w3 = (du, w4)" by (cases "dns_Server_udp N u h w3")
  obtain dt w5 where dt: "dns_Server_tcp N l h w4 = (dt, w5)" by (cases "dns_Server_tcp N l h w4")
  let ?t = "t\<lparr>srv_udpConn := Some u, srv_tcpListener := Some l, srv_udpServer := Some du, srv_tcpServer := Some dt\<rparr>"
  have start: "Start N (Some t) w1 = (Inr (), Some ?t, go_serve N dt (go_serve N du w5))"
    by (simp add: Start_def h t none listenPacket_def srv_listen_def assms(7,8) du dt)
  with Start_idle [OF assms(1,2) idle start] show ?thesis by (auto simp: active_on_def)
qed

definition started_net :: ref_net where
  "started_net = snd (snd (Start ref_network (Some demo_server) empty_net))"

definition started_server where
  "started_server = the (fst (snd (Start ref_network (Some demo_server) empty_net)))"

lemma demo_idle: "idle ref_view ({}, {}) demo_server empty_net"
  by (simp add: idle_def ref_view_def demo_server_def)

lemma demo_start: "Start ref_network (Some demo_server) empty_net = (Inr (), Some started_server, started_net)"
  "started_net = empty_net\<lparr>rn_udp := [(1, '':53'')], rn_tcp := [(2, '':53'')], rn_servers := [(8, Inr 2), (4, Inl 1)]\<rparr>"
  "started_server = demo_server\<lparr>srv_udpConn := Some 1, srv_tcpListener := Some 2, srv_udpServer := Some 4, srv_tcpServer := Some 8\<rparr>"
  by (simp_all add: started_net_def started_server_def Start_def ref_network_def demo_server_def ensureHandler_def listenPacket_def
    srv_listen_def ref_fresh_def)

theorem Server_restarts_witness:
  "let w = ref_activate 8 (ref_activate 4 started_net); w1 = w\<lparr>rn_udp := [], rn_tcp := [], rn_shut := [8, 4]\<rparr> in
   Stop ref_network (Some started_server) w = (Inr (), Some demo_server, w1) \<and>
   (\<exists>t w4. Start ref_network (Some demo_server) w1 = (Inr (), Some t, w4) \<and> bound_udp ref_view w4 = {25} \<and> bound_tcp ref_view w4 = {50})"
proof -
  define w where "w = ref_activate 8 (ref_activate 4 started_net)"
  define w1 where "w1 = w\<lparr>rn_udp := [], rn_tcp := [], rn_shut := [8, 4]\<rparr>"
  have run: "lifecycle ref_network ref_sched (Some demo_server, empty_net) (Some started_server, w)"
    unfolding w_def
    by (rule lifecycle.sched [OF lifecycle.sched [OF lifecycle.start [OF lifecycle.new demo_start(1)]]])
      (auto simp: ref_sched_def)
  have stop: "Stop ref_network (Some started_server) w = (Inr (), Some demo_server, w1)"
    by (simp add: Stop_def shutdownServer_def w_def w1_def demo_start(2,3) ref_activate_def ref_network_def ref_unbind_def demo_server_def)
  have udp: "ListenPacket ref_network ''udp'' (cfg_Listen (srv_config demo_server)) w1 = (Inr 25, w1\<lparr>rn_udp := [(25, '':53'')]\<rparr>)"
    by (simp add: ref_network_def w1_def w_def demo_start(2) ref_activate_def ref_fresh_def demo_server_def)
  have tcp: "Listen ref_network ''tcp'' (cfg_Listen (srv_config demo_server)) (w1\<lparr>rn_udp := [(25, '':53'')]\<rparr>) =
      (Inr 50, w1\<lparr>rn_udp := [(25, '':53'')], rn_tcp := [(50, '':53'')]\<rparr>)"
    by (simp add: ref_network_def w1_def w_def demo_start(2) ref_activate_def ref_fresh_def demo_server_def)
  have handler: "srv_handler demo_server \<noteq> None" by (simp add: demo_server_def)
  from Server_restarts [OF ref_sockets_ok ref_servers_ok demo_idle run stop handler udp tcp] stop show ?thesis
    unfolding w_def [symmetric] w1_def [symmetric] Let_def by auto
qed

text \<open>
  C29: When \<^verbatim>\<open>Stop\<close> fails after it has shut down one of the two DNS servers, the server cannot be used again: every
  later \<^verbatim>\<open>Stop\<close> fails, because the DNS server that is down refuses to be shut down twice and the fields are
  only cleared when both calls succeed, and every later \<^verbatim>\<open>Start\<close> is refused.
\<close>

theorem Server_Stop_stuck:
  assumes "sockets_ok N V" and "servers_ok N V sched" and "idle V (B, T) s0 w0"
    and "Start N (Some s0) w0 = (Inr (), s1, w1)" and "lifecycle N sched (s1, w1) (s2, w2)"
    and "Stop N s2 w2 = (Inl err, s3, w3)" and "shut V w3 \<noteq> shut V w2" and "lifecycle N sched (s3, w3) (s4, w4)"
  shows "fst (Stop N s4 w4) \<noteq> Inr () \<and> fst (Start N s4 w4) \<noteq> Inr ()"
proof -
  have ok: "lifecycle_ok V (B, T) (s2, w2)"
    using lifecycle_invariant [OF assms(1,2) lifecycle_ok_step(1) [OF assms(1,2) lifecycle_ok_idle [OF assms(3)] assms(4)] assms(5)] .
  then have "half_stopped V (B, T) (s3, w3)"
  proof (cases rule: lifecycle_ok_cases)
    case (idle t)
    from Stop_idle [OF idle(2) assms(6) [unfolded idle(1)]] show ?thesis by simp
  next
    case (active t u l du dt)
    from Stop_active_shut [OF assms(2) active(2) assms(6) [unfolded active(1)]] assms(7) show ?thesis
      by (auto simp: half_stopped_def)
  qed
  from half_stopped_forever [OF assms(2) this assms(8)] have half: "half_stopped V (B, T) (s4, w4)" .
  show ?thesis using half_stopped_step(1) [OF assms(2) half] half_stopped_step(2) [OF assms(2) half]
    by (metis prod_cases3 fst_conv)
qed

text \<open>The goroutine of the UDP server has not run yet when \<^verbatim>\<open>Stop\<close> is called.\<close>

theorem Server_Stop_stuck_witness:
  "let w2 = ref_activate 8 started_net; w3 = snd (snd (Stop ref_network (Some started_server) w2)); w4 = ref_activate 4 w3 in
   fst (Stop ref_network (Some started_server) w2) = Inl (External ''server not started'') \<and>
   fst (Stop ref_network (Some started_server) w4) \<noteq> Inr () \<and> fst (Start ref_network (Some started_server) w4) \<noteq> Inr ()"
proof -
  define w2 where "w2 = ref_activate 8 started_net"
  define w3 where "w3 = w2\<lparr>rn_tcp := [], rn_shut := [8]\<rparr>"
  have run: "lifecycle ref_network ref_sched (Some started_server, started_net) (Some started_server, w2)"
    unfolding w2_def by (rule lifecycle.sched [OF lifecycle.new]) (auto simp: ref_sched_def)
  have stop: "Stop ref_network (Some started_server) w2 = (Inl (External ''server not started''), Some started_server, w3)"
    by (simp add: Stop_def shutdownServer_def w2_def w3_def demo_start(2,3) ref_activate_def ref_network_def ref_unbind_def demo_server_def)
  have shut: "shut ref_view w3 \<noteq> shut ref_view w2"
    by (simp add: ref_view_def w3_def w2_def ref_activate_def demo_start(2))
  have later: "lifecycle ref_network ref_sched (Some started_server, w3) (Some started_server, ref_activate 4 w3)"
    by (rule lifecycle.sched [OF lifecycle.new]) (auto simp: ref_sched_def)
  from Server_Stop_stuck [OF ref_sockets_ok ref_servers_ok demo_idle demo_start(1) run stop shut later] stop show ?thesis
    unfolding w2_def [symmetric] Let_def by simp
qed

end
