(* ===== verification/Update.thy ===== *)
theory Update
  imports Server
begin

text \<open>
  What the server does with requests, \<^verbatim>\<open>dnsserver/update.go\<close>: the dispatch on the operation code and dynamic
  updates. Every update refines an abstract one on the content of the store, and requests keep the zones valid.
\<close>

section \<open>Writes\<close>

text \<open>
  Each write goes to the manager, or to the repository when there is no manager; without both the
  call panics, but the handler has checked the repository before. Wrapping no error gives no error.
\<close>

definition noResult :: "(error + 'a) \<times> 's \<Rightarrow> (error + unit) \<times> 's" where
  "noResult res = (case res of (Inl err, s') \<Rightarrow> (Inl err, s') | (Inr _, s') \<Rightarrow> (Inr (), s'))"

definition withRepo ::
  "('s, 'c, 'tr, 'h, 'u, 'l, 'd) Server \<Rightarrow> ('s Repository \<Rightarrow> (error, 'a, 's) action) \<Rightarrow> (error, 'a, 's) action" where
  "withRepo srv f s = (case srv_repo srv of None \<Rightarrow> (Inl (Panic ''nil pointer dereference''), s) | Some repo \<Rightarrow> f repo s)"

definition upd_saveRecord ::
  "('rr, 'x) rr_pkg_scheme \<Rightarrow> 'o set_pkg \<Rightarrow> ('s, 'c, 'tr, 'h, 'u, 'l, 'd) Server \<Rightarrow> Record \<Rightarrow> (error, unit, 's) action" where
  "upd_saveRecord E OS srv record s =
     (case srv_manager srv of
        Some m \<Rightarrow> noResult (mgr_UpsertRecord E OS (Some m) record s)
      | None \<Rightarrow> withRepo srv (\<lambda>repo. repo_SaveRecord repo record) s)"

definition upd_deleteRecord ::
  "('rr, 'x) rr_pkg_scheme \<Rightarrow> ('s, 'c, 'tr, 'h, 'u, 'l, 'd) Server \<Rightarrow> Record \<Rightarrow> (error, unit, 's) action" where
  "upd_deleteRecord E srv record s =
     (case srv_manager srv of
        Some m \<Rightarrow> mgr_DeleteRecord E (Some m) record s
      | None \<Rightarrow> withRepo srv (\<lambda>repo. repo_DeleteRecord repo record) s)"

fun upd_deleteRecords ::
  "('rr, 'x) rr_pkg_scheme \<Rightarrow> ('s, 'c, 'tr, 'h, 'u, 'l, 'd) Server \<Rightarrow> Record list \<Rightarrow> (error, unit, 's) action" where
  "upd_deleteRecords E srv [] s = (Inr (), s)"
| "upd_deleteRecords E srv (record # records) s =
     (case upd_deleteRecord E srv record s of
        (Inl err, s') \<Rightarrow> (Inl err, s')
      | (Inr _, s') \<Rightarrow> upd_deleteRecords E srv records s')"

definition upd_deleteName ::
  "('rr, 'x) rr_pkg_scheme \<Rightarrow> ('s, 'c, 'tr, 'h, 'u, 'l, 'd) Server \<Rightarrow> string \<Rightarrow> string \<Rightarrow> (error, unit, 's) action" where
  "upd_deleteName E srv zone name s =
     (case srv_manager srv of
        Some m \<Rightarrow> noResult (mgr_DeleteName E (Some m) zone name s)
      | None \<Rightarrow> withRepo srv (\<lambda>repo s.
          case repo_LookupAll repo zone name ClassANY s of
            Inl err \<Rightarrow> (Inl err, s)
          | Inr records \<Rightarrow> upd_deleteRecords E srv records s) s)"

definition upd_deleteRRSet ::
  "('rr, 'x) rr_pkg_scheme \<Rightarrow> ('s, 'c, 'tr, 'h, 'u, 'l, 'd) Server \<Rightarrow> string \<Rightarrow> string \<Rightarrow> uint16 \<Rightarrow> (error, unit, 's) action" where
  "upd_deleteRRSet E srv zone name rrtype s =
     (case srv_manager srv of
        Some m \<Rightarrow> noResult (mgr_DeleteRRSet E (Some m) zone name rrtype s)
      | None \<Rightarrow> withRepo srv (\<lambda>repo s.
          case repo_Lookup repo zone name rrtype ClassANY s of
            Inl err \<Rightarrow> (Inl err, s)
          | Inr records \<Rightarrow> upd_deleteRecords E srv records s) s)"

section \<open>Dynamic updates\<close>

definition applyAnyClassUpdate ::
  "('rr, 'x) rr_pkg_scheme \<Rightarrow> ('s, 'c, 'tr, 'h, 'u, 'l, 'd) Server \<Rightarrow> string \<Rightarrow> 'rr \<Rightarrow> (error, unit, 's) action" where
  "applyAnyClassUpdate E srv zone rr s =
     (if rr_Rrtype E rr = TypeANY then upd_deleteName E srv zone (rr_Name E rr) s
      else upd_deleteRRSet E srv zone (rr_Name E rr) (rr_Rrtype E rr) s)"

definition applyDeleteRecordUpdate ::
  "('rr, 'x) rr_pkg_scheme \<Rightarrow> ('s, 'c, 'tr, 'h, 'u, 'l, 'd) Server \<Rightarrow> string \<Rightarrow> 'rr \<Rightarrow> (error, unit, 's) action" where
  "applyDeleteRecordUpdate E srv zone rr s =
     (case RecordFromRR E zone (Some rr) of
        Inl err \<Rightarrow> (Inl err, s)
      | Inr record \<Rightarrow> upd_deleteRecord E srv (record\<lparr>rec_Class := ClassINET\<rparr>) s)"

definition applySaveRecordUpdate ::
  "('rr, 'x) rr_pkg_scheme \<Rightarrow> 'o set_pkg \<Rightarrow> ('s, 'c, 'tr, 'h, 'u, 'l, 'd) Server \<Rightarrow> string \<Rightarrow> 'rr \<Rightarrow> (error, unit, 's) action" where
  "applySaveRecordUpdate E OS srv zone rr s =
     (case RecordFromRR E zone (Some rr) of
        Inl err \<Rightarrow> (Inl err, s)
      | Inr record \<Rightarrow> upd_saveRecord E OS srv record s)"

definition applyUpdateRR ::
  "('rr, 'x) rr_pkg_scheme \<Rightarrow> 'o set_pkg \<Rightarrow> ('s, 'c, 'tr, 'h, 'u, 'l, 'd) Server \<Rightarrow> string \<Rightarrow> 'rr option \<Rightarrow> (error, unit, 's) action" where
  "applyUpdateRR E OS srv zone update s =
     (case update of
        None \<Rightarrow> (Inl (Panic ''nil pointer dereference''), s)
      | Some rr \<Rightarrow>
         (if rr_Class E rr = ClassANY then applyAnyClassUpdate E srv zone rr s
          else if rr_Class E rr = ClassNONE then applyDeleteRecordUpdate E srv zone rr s
          else applySaveRecordUpdate E OS srv zone rr s))"

fun applyUpdate ::
  "('rr, 'x) rr_pkg_scheme \<Rightarrow> 'o set_pkg \<Rightarrow> ('s, 'c, 'tr, 'h, 'u, 'l, 'd) Server \<Rightarrow> string \<Rightarrow> 'rr option list \<Rightarrow> (error, unit, 's) action" where
  "applyUpdate E OS srv zone [] s = (Inr (), s)"
| "applyUpdate E OS srv zone (update # updates) s =
     (case applyUpdateRR E OS srv zone update s of
        (Inl err, s') \<Rightarrow> (Inl err, s')
      | (Inr _, s') \<Rightarrow> applyUpdate E OS srv zone updates s')"

definition serveUpdate ::
  "('rr, 'x) rr_pkg_scheme \<Rightarrow> 'o set_pkg \<Rightarrow> 'rr msg_pkg \<Rightarrow> ('s, 'c, 'tr, 'h, 'u, 'l, 'd) Server \<Rightarrow> 'rr Msg \<Rightarrow>
     (error, 'rr Msg, 's) action" where
  "serveUpdate E OS G srv request s =
     (let reply = (SetReply G request)\<lparr>msg_Authoritative := True, msg_RecursionAvailable := False\<rparr> in
      if srv_repo srv = None then (Inr (reply\<lparr>msg_Rcode := RcodeRefused\<rparr>), s)
      else if length (msg_Question request) \<noteq> 1 \<or> q_Qclass (msg_Question request ! 0) \<noteq> ClassINET \<or>
              q_Qtype (msg_Question request ! 0) \<noteq> TypeSOA
      then (Inr (reply\<lparr>msg_Rcode := RcodeFormatError\<rparr>), s)
      else
        case NormalizeZoneName E (q_Name (msg_Question request ! 0)) of
          Inl _ \<Rightarrow> (Inr (reply\<lparr>msg_Rcode := RcodeFormatError\<rparr>), s)
        | Inr zone \<Rightarrow>
           (if length (msg_Answer request) > 0 then (Inr (reply\<lparr>msg_Rcode := RcodeNotImplemented\<rparr>), s)
            else
              case applyUpdate E OS srv zone (msg_Ns request) s of
                (Inl (Panic p), s') \<Rightarrow> (Inl (Panic p), s')
              | (Inl _, s') \<Rightarrow> (Inr (reply\<lparr>msg_Rcode := RcodeServerFailure\<rparr>), s')
              | (Inr _, s') \<Rightarrow> (Inr (reply\<lparr>msg_Rcode := RcodeSuccess\<rparr>), s')))"

definition serveDNS ::
  "('rr, 'x) rr_pkg_scheme \<Rightarrow> 'o set_pkg \<Rightarrow> 'tr trie_pkg \<Rightarrow> 'c cache_pkg \<Rightarrow> 'rr msg_pkg \<Rightarrow> 'rr Msg \<Rightarrow>
     ('s, 'c, 'tr, 'h, 'u, 'l, 'd) Server \<times> 's \<Rightarrow> (error + 'rr Msg) \<times> ('s, 'c, 'tr, 'h, 'u, 'l, 'd) Server \<times> 's" where
  "serveDNS E OS T H G request ss =
     (case ss of (srv, s) \<Rightarrow>
        if msg_Opcode request = OpcodeQuery then
          (case srv_resolver srv of
             None \<Rightarrow> (Inr (SetRcode G request RcodeRefused), srv, s)
           | Some resolver \<Rightarrow>
              (case ServeDNS E OS T H G request s resolver of
                 (res, resolver') \<Rightarrow> (res, srv\<lparr>srv_resolver := Some resolver'\<rparr>, s)))
        else if msg_Opcode request = OpcodeUpdate then
          (case serveUpdate E OS G srv request s of (res, s') \<Rightarrow> (res, srv, s'))
        else (Inr (SetRcode G request RcodeNotImplemented), srv, s))"

section \<open>What an update means\<close>

text \<open>
  The effect of one record of the update section on the content of the store, \<open>None\<close> when it is
  refused: class ANY deletes an RRset or a name, class NONE a record, every other class saves a record, which is
  refused when the zone would not meet the rules.
\<close>

definition spec_update :: "('rr, 'x) rr_pkg_scheme \<Rightarrow> string \<Rightarrow> 'rr \<Rightarrow> abs_store \<Rightarrow> abs_store option" where
  "spec_update E zone rr a =
     (if rr_Class E rr = ClassANY then
        (case normalizeRRSetLookup E zone (rr_Name E rr) of
           Inl _ \<Rightarrow> None
         | Inr (z, n) \<Rightarrow> Some (a\<lparr>abs_records := abs_records a - lookup_set z n (rr_Rrtype E rr) ClassANY a\<rparr>))
      else
        case RecordFromRR E zone (Some rr) of
          Inl _ \<Rightarrow> None
        | Inr r \<Rightarrow>
           (if rr_Class E rr = ClassNONE
            then Some (a\<lparr>abs_records := del_record E (r\<lparr>rec_Class := ClassINET\<rparr>) (abs_records a)\<rparr>)
            else if zone_valid (rec_Zone r) False (zone_records (rec_Zone r) (put_content E r a)) then Some (put_content E r a)
            else None))"

text \<open>Updates take effect in order up to the first that is refused.\<close>

fun spec_updates :: "('rr, 'x) rr_pkg_scheme \<Rightarrow> string \<Rightarrow> 'rr list \<Rightarrow> abs_store \<Rightarrow> bool \<times> abs_store" where
  "spec_updates E zone [] a = (True, a)"
| "spec_updates E zone (rr # rrs) a = (case spec_update E zone rr a of None \<Rightarrow> (False, a) | Some b \<Rightarrow> spec_updates E zone rrs b)"

text \<open>A server whose manager works on the repository it serves.\<close>

definition wired :: "'s Repository \<Rightarrow> ('s, 'c, 'tr, 'h, 'u, 'l, 'd) Server \<Rightarrow> bool" where
  "wired R srv \<longleftrightarrow> srv_repo srv = Some R \<and> srv_manager srv = mgr_of R"

definition recoverable :: "error \<Rightarrow> bool" where
  "recoverable err \<longleftrightarrow> (\<forall>p. err \<noteq> Panic p)"

lemma recoverable_simps [simp]:
  "recoverable (Coded c e)" "recoverable (Uncoded m)" "recoverable (External m)" "\<not> recoverable (Panic m)"
  by (simp_all add: recoverable_def)

lemma normalize_recoverable:
  "NormalizeZoneName E z = Inl err \<Longrightarrow> recoverable err"
  "NormalizeRecord E r = Inl err \<Longrightarrow> recoverable err"
  "normalizeRRSetLookup E z n = Inl err \<Longrightarrow> recoverable err"
  by (auto simp: NormalizeZoneName_def NormalizeRecord_def normalizeRRSetLookup_def Let_def split: sum.splits if_split_asm)

lemma RecordFromRR_recoverable: "RecordFromRR E z rr = Inl err \<Longrightarrow> recoverable err"
  by (auto simp: RecordFromRR_def Let_def normalize_recoverable split: option.splits if_split_asm)

lemma validateZoneRecords_recoverable: "validateZoneRecords E z rs opts = Inl err \<Longrightarrow> recoverable err"
  by (auto simp: validateZoneRecords_def validateCNAMEConflicts_def Let_def normalize_recoverable split: sum.splits if_split_asm
      dest!: validateSOAPlacement_err validateSOACount_err validateApexNSRequirement_err validateCNAMEGroups_err)

lemma RecordFromRR_normal:
  assumes "names_pkg_ok E" and "plain z" and "plain (rr_Name E rr)" and "RecordFromRR E z (Some rr) = Inr r"
  shows "normal_record E r"
  using assms(4) by (auto simp: RecordFromRR_def Let_def plain_record_def split: if_split_asm
      intro!: normal_record_NormalizeRecord [OF assms(1)] assms(2,3))

lemma normal_record_INET: "normal_record E r \<Longrightarrow> normal_record E (r\<lparr>rec_Class := ClassINET\<rparr>)"
  by (cases r) (auto simp: normal_record_def plain_record_def NormalizeRecord_Inr)

context rr_repository
begin

lemma UpsertRecord_recoverable:
  assumes "invar s" and "normal_record E r" and "mgr_UpsertRecord E OS (mgr_of R) r s = (Inl err, s')"
  shows "recoverable err"
proof -
  obtain xs where xs: "mgr_ListRecords E (mgr_of R) (zone_filter (rec_Zone r)) s = Inr xs"
    using ListRecords_zone [OF assms(1) normal_record_zone [OF assms(2)]] by blast
  obtain s1 where "repo_SaveRecord R r s = (Inr (), s1)" using SaveRecord_put [OF assms(1,2)] by blast
  with assms(3) show ?thesis
    by (auto simp: mgr_UpsertRecord_def normal_recordD(1) [OF assms(2)] validateRecordUpsert_def previewZoneRecords_def xs
        validateZoneRecords_recoverable split: sum.splits)
qed

lemma applySaveRecordUpdate_spec:
  assumes "invar s" and "set_pkg_ok OS" and "wired R srv" and "plain z" and "plain (rr_Name E rr)"
    and "rr_Class E rr \<noteq> ClassANY" and "rr_Class E rr \<noteq> ClassNONE"
  shows "case spec_update E z rr (content s) of
      None \<Rightarrow> \<exists>err. applySaveRecordUpdate E OS srv z rr s = (Inl err, s) \<and> recoverable err
    | Some a \<Rightarrow> \<exists>s'. applySaveRecordUpdate E OS srv z rr s = (Inr (), s') \<and> invar s' \<and> content s' = a"
proof (cases "RecordFromRR E z (Some rr)")
  case (Inl err)
  then show ?thesis using assms(6,7) RecordFromRR_recoverable [OF Inl] by (simp add: applySaveRecordUpdate_def spec_update_def)
next
  case (Inr r)
  note r = RecordFromRR_normal [OF names_ok [OF assms(1)] assms(4,5) Inr]
  have pr: "plain_record r" "NormalizeRecord E r = Inr r" using r by (simp_all add: normal_record_def)
  have srv: "srv_manager srv = mgr_of R" using assms(3) by (simp add: wired_def)
  show ?thesis
  proof (cases "zone_valid (rec_Zone r) False (zone_records (rec_Zone r) (put_content E r (content s)))")
    case True
    obtain s' where "mgr_UpsertRecord E OS (mgr_of R) r s = (Inr r, s')" "invar s'" "content s' = put_content E r (content s)"
      using UpsertRecord_accepts [OF assms(1,2) pr True] by blast
    then show ?thesis using assms(6,7) True
      by (simp add: applySaveRecordUpdate_def spec_update_def Inr upd_saveRecord_def srv noResult_def)
  next
    case False
    obtain err where err: "mgr_UpsertRecord E OS (mgr_of R) r s = (Inl err, s)"
      using UpsertRecord_rejects [OF assms(1,2) pr False] by blast
    then show ?thesis using assms(6,7) False UpsertRecord_recoverable [OF assms(1) r err]
      by (simp add: applySaveRecordUpdate_def spec_update_def Inr upd_saveRecord_def srv noResult_def)
  qed
qed

lemma applyDeleteRecordUpdate_spec:
  assumes "invar s" and "wired R srv" and "plain z" and "plain (rr_Name E rr)" and "rr_Class E rr = ClassNONE"
  shows "case spec_update E z rr (content s) of
      None \<Rightarrow> \<exists>err. applyDeleteRecordUpdate E srv z rr s = (Inl err, s) \<and> recoverable err
    | Some a \<Rightarrow> \<exists>s'. applyDeleteRecordUpdate E srv z rr s = (Inr (), s') \<and> invar s' \<and> content s' = a"
proof (cases "RecordFromRR E z (Some rr)")
  case (Inl err)
  then show ?thesis using assms(5) RecordFromRR_recoverable [OF Inl] by (simp add: applyDeleteRecordUpdate_def spec_update_def)
next
  case (Inr r)
  let ?r = "r\<lparr>rec_Class := ClassINET\<rparr>"
  have "normal_record E ?r" by (rule normal_record_INET [OF RecordFromRR_normal [OF names_ok [OF assms(1)] assms(3,4) Inr]])
  then have pr: "plain_record ?r" "NormalizeRecord E ?r = Inr ?r" by (simp_all add: normal_record_def)
  have srv: "srv_manager srv = mgr_of R" using assms(2) by (simp add: wired_def)
  obtain s' where "mgr_DeleteRecord E (mgr_of R) ?r s = (Inr (), s')" "invar s'"
    "content s' = (content s)\<lparr>abs_records := del_record E ?r (abs_records (content s))\<rparr>"
    using DeleteRecord_spec [OF assms(1) pr] by blast
  then show ?thesis using assms(5) by (simp add: applyDeleteRecordUpdate_def spec_update_def Inr upd_deleteRecord_def srv)
qed

lemma applyAnyClassUpdate_spec:
  assumes "invar s" and "wired R srv" and "plain z" and "plain (rr_Name E rr)" and "rr_Class E rr = ClassANY"
  shows "case spec_update E z rr (content s) of
      None \<Rightarrow> \<exists>err. applyAnyClassUpdate E srv z rr s = (Inl err, s) \<and> recoverable err
    | Some a \<Rightarrow> \<exists>s'. applyAnyClassUpdate E srv z rr s = (Inr (), s') \<and> invar s' \<and> content s' = a"
proof -
  have srv: "srv_manager srv = mgr_of R" using assms(2) by (simp add: wired_def)
  show ?thesis
  proof (cases "normalizeRRSetLookup E z (rr_Name E rr)")
    case (Inl err)
    then show ?thesis using assms(5) normalize_recoverable(3) [OF Inl]
      by (simp add: applyAnyClassUpdate_def spec_update_def upd_deleteName_def upd_deleteRRSet_def srv noResult_def mgr_errors)
  next
    case (Inr p)
    then obtain z' n where p: "normalizeRRSetLookup E z (rr_Name E rr) = Inr (z', n)" by (cases p) auto
    from DeleteName_exact [OF assms(1,3,4) p] DeleteRRSet_exact [OF assms(1,3,4) p, of "rr_Rrtype E rr"] assms(5)
    show ?thesis
      by (auto simp: applyAnyClassUpdate_def spec_update_def p upd_deleteName_def upd_deleteRRSet_def srv noResult_def)
  qed
qed

lemma applyUpdateRR_spec:
  assumes "invar s" and "set_pkg_ok OS" and "wired R srv" and "plain z" and "plain (rr_Name E rr)"
  shows "case spec_update E z rr (content s) of
      None \<Rightarrow> \<exists>err. applyUpdateRR E OS srv z (Some rr) s = (Inl err, s) \<and> recoverable err
    | Some a \<Rightarrow> \<exists>s'. applyUpdateRR E OS srv z (Some rr) s = (Inr (), s') \<and> invar s' \<and> content s' = a"
proof -
  consider "rr_Class E rr = ClassANY" | "rr_Class E rr = ClassNONE" | "rr_Class E rr \<noteq> ClassANY" "rr_Class E rr \<noteq> ClassNONE" by blast
  then show ?thesis
  proof cases
    case 1
    then have eq: "applyUpdateRR E OS srv z (Some rr) s = applyAnyClassUpdate E srv z rr s" by (simp add: applyUpdateRR_def)
    show ?thesis unfolding eq by (rule applyAnyClassUpdate_spec [OF assms(1,3-5) 1])
  next
    case 2
    then have eq: "applyUpdateRR E OS srv z (Some rr) s = applyDeleteRecordUpdate E srv z rr s" by (simp add: applyUpdateRR_def)
    show ?thesis unfolding eq by (rule applyDeleteRecordUpdate_spec [OF assms(1,3-5) 2])
  next
    case 3
    then have eq: "applyUpdateRR E OS srv z (Some rr) s = applySaveRecordUpdate E OS srv z rr s" by (simp add: applyUpdateRR_def)
    show ?thesis unfolding eq by (rule applySaveRecordUpdate_spec [OF assms 3])
  qed
qed

lemma applyUpdate_spec:
  assumes "invar s" and "set_pkg_ok OS" and "wired R srv" and "plain z" and "list_all (\<lambda>rr. plain (rr_Name E rr)) rrs"
  shows "\<exists>res s'. applyUpdate E OS srv z (map Some rrs) s = (res, s') \<and> invar s' \<and>
    spec_updates E z rrs (content s) = (res = Inr (), content s') \<and> (\<forall>err. res = Inl err \<longrightarrow> recoverable err)"
  using assms(1,5)
proof (induction rrs arbitrary: s)
  case (Cons rr rrs)
  note step = applyUpdateRR_spec [OF Cons.prems(1) assms(2-4), of rr]
  show ?case
  proof (cases "spec_update E z rr (content s)")
    case None
    with step Cons.prems show ?thesis by auto
  next
    case (Some a)
    with step Cons.prems obtain s1 where s1: "applyUpdateRR E OS srv z (Some rr) s = (Inr (), s1)" "invar s1" "content s1 = a"
      by auto
    from Cons.IH [OF s1(2)] Cons.prems(2) show ?thesis by (simp add: s1(1,3) Some)
  qed
qed simp

text \<open>An update request with one question for a zone and no prerequisites.\<close>

lemma serveUpdate_spec:
  assumes "invar s" and "set_pkg_ok OS" and "wired R srv" and "msg_pkg_ok G"
    and "msg_Question m = [\<lparr>q_Name = name, q_Qtype = TypeSOA, q_Qclass = ClassINET\<rparr>]" and "msg_Answer m = []"
    and "msg_Ns m = map Some rrs" and "plain name" and "list_all (\<lambda>rr. plain (rr_Name E rr)) rrs"
    and "NormalizeZoneName E name = Inr z"
  shows "\<exists>reply s'. serveUpdate E OS G srv m s = (Inr reply, s') \<and> msg_Id reply = msg_Id m \<and> msg_Response reply \<and> invar s' \<and>
    msg_Rcode reply = (if fst (spec_updates E z rrs (content s)) then RcodeSuccess else RcodeServerFailure) \<and>
    content s' = snd (spec_updates E z rrs (content s))"
proof -
  have "plain z" using normal_zone_NormalizeZoneName [OF names_ok [OF assms(1)] assms(8,10)] by (simp add: normal_zone_def)
  then obtain res s' where run: "applyUpdate E OS srv z (map Some rrs) s = (res, s')" "invar s'"
    "spec_updates E z rrs (content s) = (res = Inr (), content s')" "\<forall>err. res = Inl err \<longrightarrow> recoverable err"
    using applyUpdate_spec [OF assms(1-3) _ assms(9)] by blast
  have srv: "srv_repo srv \<noteq> None" using assms(3) by (simp add: wired_def)
  show ?thesis
  proof (cases res)
    case (Inl err)
    with run(4) have "recoverable err" by simp
    with run srv assms(4-7,10) show ?thesis by (cases err) (simp_all add: serveUpdate_def Inl msg_pkg_ok_def Let_def)
  next
    case (Inr u)
    with run srv assms(4-7,10) show ?thesis by (simp add: serveUpdate_def msg_pkg_ok_def Let_def)
  qed
qed

end

section \<open>Requests keep zones valid\<close>

definition plain_request :: "('rr, 'x) rr_pkg_scheme \<Rightarrow> 'rr Msg \<Rightarrow> bool" where
  "plain_request E m \<longleftrightarrow> list_all (\<lambda>q. plain (q_Name q)) (msg_Question m) \<and>
     list_all (\<lambda>rr. case rr of None \<Rightarrow> True | Some r \<Rightarrow> plain (rr_Name E r)) (msg_Ns m)"

text \<open>The states of a server and its store that requests lead to, whatever their replies.\<close>

inductive handled ::
  "('rr, 'x) rr_pkg_scheme \<Rightarrow> 'o set_pkg \<Rightarrow> 'tr trie_pkg \<Rightarrow> 'c cache_pkg \<Rightarrow> 'rr msg_pkg \<Rightarrow>
     ('s, 'c, 'tr, 'h, 'u, 'l, 'd) Server \<times> 's \<Rightarrow> ('s, 'c, 'tr, 'h, 'u, 'l, 'd) Server \<times> 's \<Rightarrow> bool"
  for E :: "('rr, 'x) rr_pkg_scheme" and OS :: "'o set_pkg" and T :: "'tr trie_pkg" and H :: "'c cache_pkg" and G :: "'rr msg_pkg"
    and ss0 :: "('s, 'c, 'tr, 'h, 'u, 'l, 'd) Server \<times> 's"
where
  handled_start: "handled E OS T H G ss0 ss0"
| handled_request: "handled E OS T H G ss0 ss \<Longrightarrow> plain_request E m \<Longrightarrow> handled E OS T H G ss0 (snd (serveDNS E OS T H G m ss))"

lemma wired_resolver [simp]: "wired R (srv\<lparr>srv_resolver := r\<rparr>) = wired R srv"
  by (simp add: wired_def)

lemma snd_serveUpdate:
  "snd (serveUpdate E OS G srv m s) =
     (if srv_repo srv = None \<or> length (msg_Question m) \<noteq> 1 \<or> q_Qclass (msg_Question m ! 0) \<noteq> ClassINET \<or>
         q_Qtype (msg_Question m ! 0) \<noteq> TypeSOA \<or> length (msg_Answer m) > 0 then s
      else case NormalizeZoneName E (q_Name (msg_Question m ! 0)) of
        Inl _ \<Rightarrow> s
      | Inr z \<Rightarrow> snd (applyUpdate E OS srv z (msg_Ns m) s))"
  by (auto simp: serveUpdate_def Let_def split: sum.split prod.split error.split)

context rr_repository
begin

lemma spec_update_valid:
  assumes "invar s" and "plain z" and "plain (rr_Name E rr)" and "all_valid (content s)" and "spec_update E z rr (content s) = Some a"
  shows "all_valid a"
proof (cases "rr_Class E rr = ClassANY")
  case True
  with assms(5) have "abs_records a \<subseteq> abs_records (content s)"
    by (auto simp: spec_update_def split: sum.splits prod.splits)
  with assms(4) show ?thesis by (rule all_valid_subset)
next
  case False
  then obtain r where r: "RecordFromRR E z (Some rr) = Inr r" using assms(5) by (auto simp: spec_update_def split: sum.splits)
  note normal = RecordFromRR_normal [OF names_ok [OF assms(1)] assms(2,3) r]
  show ?thesis
  proof (cases "rr_Class E rr = ClassNONE")
    case True
    with assms(5) False r have "abs_records a \<subseteq> abs_records (content s)" by (auto simp: spec_update_def del_record_def)
    with assms(4) show ?thesis by (rule all_valid_subset)
  next
    case put: False
    with assms(5) False r have a: "a = put_content E r (content s)"
      and valid: "zone_valid (rec_Zone r) False (zone_records (rec_Zone r) a)" by (auto simp: spec_update_def split: if_split_asm)
    have plain: "plain_record r" using normal by (simp add: normal_record_def)
    have "zone_valid y False (zone_records y a)" for y
    proof (cases "y = rec_Zone r")
      case False
      from zone_records_put_other [OF plain plain_stored [OF assms(1)] False, where E = E] assms(4)
      show ?thesis by (simp add: a all_valid_def)
    qed (use valid in simp)
    then show ?thesis by (simp add: all_valid_def)
  qed
qed

lemma applyUpdate_valid:
  assumes "invar s" and "set_pkg_ok OS" and "wired R srv" and "plain z" and "all_valid (content s)"
    and "list_all (\<lambda>rr. case rr of None \<Rightarrow> True | Some r \<Rightarrow> plain (rr_Name E r)) rrs"
  shows "invar (snd (applyUpdate E OS srv z rrs s)) \<and> all_valid (content (snd (applyUpdate E OS srv z rrs s)))"
  using assms(1,5,6)
proof (induction rrs arbitrary: s)
  case (Cons x rrs)
  show ?case
  proof (cases x)
    case None
    with Cons.prems show ?thesis by (simp add: applyUpdateRR_def)
  next
    case (Some rr)
    have p: "plain (rr_Name E rr)" using Cons.prems(3) Some by simp
    note step = applyUpdateRR_spec [OF Cons.prems(1) assms(2-4) p]
    show ?thesis
    proof (cases "spec_update E z rr (content s)")
      case None
      with step Cons.prems Some show ?thesis by auto
    next
      case upd: (Some a)
      with step obtain s1 where s1: "applyUpdateRR E OS srv z (Some rr) s = (Inr (), s1)" "invar s1" "content s1 = a" by auto
      have "all_valid (content s1)" using spec_update_valid [OF Cons.prems(1) assms(4) p Cons.prems(2) upd] s1(3) by simp
      from Cons.IH [OF s1(2) this] Cons.prems(3) show ?thesis by (simp add: Some s1(1))
    qed
  qed
qed simp

lemma serveUpdate_valid:
  assumes "invar s" and "set_pkg_ok OS" and "wired R srv" and "all_valid (content s)" and "plain_request E m"
  shows "invar (snd (serveUpdate E OS G srv m s)) \<and> all_valid (content (snd (serveUpdate E OS G srv m s)))"
proof -
  let ?q = "msg_Question m ! 0"
  show ?thesis
  proof (cases "snd (serveUpdate E OS G srv m s) = s")
    case True
    then show ?thesis using assms by simp
  next
    case False
    then have one: "length (msg_Question m) = 1" using snd_serveUpdate [of E OS G srv m s] by (auto split: if_split_asm)
    obtain z where z: "NormalizeZoneName E (q_Name ?q) = Inr z" "snd (serveUpdate E OS G srv m s) = snd (applyUpdate E OS srv z (msg_Ns m) s)"
      using False snd_serveUpdate [of E OS G srv m s] by (auto split: sum.splits if_split_asm)
    have "plain (q_Name ?q)" using assms(5) one by (auto simp: plain_request_def list_all_length)
    then have "plain z" using normal_zone_NormalizeZoneName [OF names_ok [OF assms(1)] _ z(1)] by (simp add: normal_zone_def)
    with applyUpdate_valid [OF assms(1-3) _ assms(4)] assms(5) show ?thesis by (simp add: z(2) plain_request_def)
  qed
qed

lemma handled_valid:
  assumes "set_pkg_ok OS" and "invar s0" and "all_valid (content s0)" and "wired R srv0" and "handled E OS T H G (srv0, s0) ss"
  shows "wired R (fst ss) \<and> invar (snd ss) \<and> all_valid (content (snd ss))"
  using assms(5)
proof (induction rule: handled.induct)
  case handled_start
  then show ?case using assms by simp
next
  case (handled_request ss m)
  obtain srv s where ss: "ss = (srv, s)" by (cases ss)
  from handled_request ss serveUpdate_valid [OF _ assms(1), of s srv m G] show ?case
    by (auto simp: serveDNS_def split: option.splits prod.splits)
qed

end

section \<open>Construction\<close>

text \<open>A server made from a repository, without options, works on that repository with all its parts.\<close>

lemma NewServerWithRepository_wired:
  "let srv = NewServerWithRepository H config (Some R) [] in
   wired R srv \<and> srv_resolver srv = Some (NewResolver H R []) \<and> srv_handler srv = Some HandlerFunc_serveDNS \<and>
   srv_clientOpts srv = [] \<and> cfg_Listen (srv_config srv) \<noteq> []"
  by (auto simp: NewServerWithRepository_def NewServer_def syncManagedComponents_def ensureHandler_def wired_def Let_def)

lemma wired_NewServer [simp]: "wired R (NewServerWithRepository H config (Some R) [])"
  by (rule NewServerWithRepository_wired [unfolded Let_def, THEN conjunct1])

section \<open>Properties of requests\<close>

text \<open>
  Whatever queries and updates a server on a new memory store receives, and whichever it refuses, every
  zone meets the SOA and CNAME rules.
\<close>

theorem Server_keeps_zones_valid:
  assumes "names_pkg_ok E" and "mapping_pkg_ok M" and "set_pkg_ok OS"
    and "handled E OS T H G (NewServerWithRepository H config (Some (memory_repo E M)) [], NewMemoryStore M) (srv, s)"
  shows "zone_valid z False {r \<in> abs_records (mem_content M s). rec_Zone r = z}"
proof -
  have valid: "all_valid (mem_content M (NewMemoryStore M))"
    by (simp add: mem_content_New [OF assms(2)] all_valid_def zone_records_def zone_valid_def)
  from mem_rr.handled_valid [OF assms(3) mem_inv_New [OF assms(1,2)] valid wired_NewServer assms(4)]
  show ?thesis by (simp add: all_valid_def zone_records_def)
qed

text \<open>
  C10: A dynamic update means what it says, record by record. The reply to a well-formed update of a zone is
  NOERROR, and the store has changed as all records of the update section ask (class ANY deletes the RRset or the name, class
  NONE the record, other classes save one), or it is SERVFAIL, and the store has changed as the
  records before the first refused one ask.
\<close>

theorem serveUpdate_refines_updates:
  assumes "mem_inv E M s" and "set_pkg_ok OS" and "wired (memory_repo E M) srv" and "msg_pkg_ok G"
    and "msg_Question m = [\<lparr>q_Name = name, q_Qtype = TypeSOA, q_Qclass = ClassINET\<rparr>]" and "msg_Answer m = []"
    and "msg_Ns m = map Some rrs" and "plain name" and "list_all (\<lambda>rr. plain (rr_Name E rr)) rrs"
    and "NormalizeZoneName E name = Inr z"
  shows "\<exists>reply s'. serveUpdate E OS G srv m s = (Inr reply, s') \<and> msg_Id reply = msg_Id m \<and> mem_inv E M s' \<and>
    msg_Rcode reply = (if fst (spec_updates E z rrs (mem_content M s)) then RcodeSuccess else RcodeServerFailure) \<and>
    mem_content M s' = snd (spec_updates E z rrs (mem_content M s))"
  using mem_rr.serveUpdate_spec [OF assms] by blast

definition upd_rr :: "string \<Rightarrow> uint16 \<Rightarrow> uint16 \<Rightarrow> string \<Rightarrow> ref_rr" where
  "upd_rr name class type data = \<lparr>rf_name = name, rf_ttl = 60, rf_class = class, rf_type = type, rf_data = data\<rparr>"

definition upd_msg :: "ref_rr list \<Rightarrow> ref_rr Msg" where
  "upd_msg rrs = \<lparr>msg_Id = 7, msg_Response = False, msg_Opcode = OpcodeUpdate, msg_Authoritative = False,
     msg_RecursionDesired = False, msg_RecursionAvailable = False, msg_Rcode = RcodeSuccess,
     msg_Question = [\<lparr>q_Name = ''Example.org.'', q_Qtype = TypeSOA, q_Qclass = ClassINET\<rparr>],
     msg_Answer = [], msg_Ns = map Some rrs, msg_Extra = []\<rparr>"

definition ref_server where
  "ref_server = NewServerWithRepository hot_ref \<lparr>cfg_Listen = []\<rparr> (Some (memory_repo rr_ref mapping_ref)) []"

definition mixed_update :: "ref_rr list" where
  "mixed_update = [upd_rr ''a.example.org.'' ClassINET TypeA ''192.0.2.1'', upd_rr ''b.example.org.'' ClassINET TypeCNAME ''a.example.org.'',
     upd_rr ''b.example.org.'' ClassINET TypeA ''192.0.2.2'', upd_rr ''a.example.org.'' ClassANY TypeANY ''x'']"

abbreviation ref_serveUpdate where
  "ref_serveUpdate \<equiv> serveUpdate rr_ref set_ref msg_ref (ref_server :: (_, _, unit, unit, unit, unit, unit) Server)"

theorem Server_keeps_zones_valid_witness:
  "let m = upd_msg (take 2 mixed_update);
       (reply, ss) = serveDNS rr_ref set_ref trie_ref hot_ref msg_ref m
         (NewServerWithRepository hot_ref \<lparr>cfg_Listen = []\<rparr> (Some (memory_repo rr_ref mapping_ref)) [] :: (_, _, _, unit, unit, unit, unit) Server,
          NewMemoryStore mapping_ref) in
   map_sum id msg_Rcode reply = Inr RcodeSuccess \<and>
   zone_valid ''example.org.'' False {r \<in> abs_records (mem_content mapping_ref (snd ss)). rec_Zone r = ''example.org.''}"
proof -
  let ?m = "upd_msg (take 2 mixed_update)"
  let ?ss0 = "(NewServerWithRepository hot_ref \<lparr>cfg_Listen = []\<rparr> (Some (memory_repo rr_ref mapping_ref)) [] ::
    (_, _, _, unit, unit, unit, unit) Server, NewMemoryStore mapping_ref)"
  have "plain_request rr_ref ?m" by code_simp
  note run = handled.handled_request [OF handled.handled_start this, of set_ref trie_ref hot_ref msg_ref ?ss0]
  have code: "map_sum id msg_Rcode (fst (serveDNS rr_ref set_ref trie_ref hot_ref msg_ref ?m ?ss0)) = Inr RcodeSuccess" by code_simp
  obtain reply srv s where eq: "serveDNS rr_ref set_ref trie_ref hot_ref msg_ref ?m ?ss0 = (reply, srv, s)"
    by (metis prod_cases3)
  from Server_keeps_zones_valid [OF names_pkg_ok_rr_ref mapping_ref_ok set_ref_ok run [unfolded eq snd_conv]] code
  show ?thesis by (simp add: eq)
qed

theorem serveUpdate_refines_updates_witness:
  "fst (spec_updates rr_ref ''example.org.'' [upd_rr ''a.example.org.'' ClassANY TypeANY ''x''] (mem_content mapping_ref web_store)) \<and>
   map_sum id msg_Rcode (fst (ref_serveUpdate (upd_msg [upd_rr ''a.example.org.'' ClassANY TypeANY ''x'']) web_store)) = Inr RcodeSuccess"
proof -
  let ?rr = "upd_rr ''a.example.org.'' ClassANY TypeANY ''x''"
  have facts: "msg_Question (upd_msg [?rr]) = [\<lparr>q_Name = ''Example.org.'', q_Qtype = TypeSOA, q_Qclass = ClassINET\<rparr>]"
    "msg_Answer (upd_msg [?rr]) = []" "msg_Ns (upd_msg [?rr]) = map Some [?rr]" by (simp_all add: upd_msg_def)
  have plain: "plain ''Example.org.''" "list_all (\<lambda>rr. plain (rr_Name rr_ref rr)) [?rr]"
    "NormalizeZoneName rr_ref ''Example.org.'' = Inr ''example.org.''" by code_simp+
  have wired: "wired (memory_repo rr_ref mapping_ref) (ref_server :: (_, _, unit, unit, unit, unit, unit) Server)"
    by (simp add: ref_server_def)
  have lookup: "normalizeRRSetLookup rr_ref ''example.org.'' ''a.example.org.'' = Inr (''example.org.'', ''a.example.org.'')" by code_simp
  then have ok: "fst (spec_updates rr_ref ''example.org.'' [?rr] (mem_content mapping_ref web_store))"
    by (simp add: spec_update_def upd_rr_def rr_ref_def)
  with serveUpdate_refines_updates [OF web_store_inv set_ref_ok wired msg_ref_ok facts plain] show ?thesis
    by (elim exE conjE) (simp only: if_True fst_conv map_sum.simps id_apply simp_thms)
qed

text \<open>
  The third record of this update is refused, because the name has a CNAME record; the two before it stay in
  the store. RFC 2136 has an update applied as a whole or not at all.
\<close>

lemma serveUpdate_partial:
  "let (reply, s) = ref_serveUpdate (upd_msg mixed_update) (NewMemoryStore mapping_ref) in
   map_sum id msg_Rcode reply = Inr RcodeServerFailure \<and>
   map_sum id (map rec_Name) (ms_ListRecords rr_ref mapping_ref (zone_filter ''example.org.'') s) = Inr [''a.example.org.'', ''b.example.org.'']"
  by code_simp

end
