(* ===== verification/Server_Client.thy ===== *)
theory Server_Client
  imports Update
begin

text \<open>
  The server as its own client, \<^verbatim>\<open>dnsserver/server_client.go\<close> and \<^verbatim>\<open>server_lookup.go\<close>: questions and updates it sends
  to itself over the network. The main result is that a write sent this way has the effect of the same
  write on the manager.
\<close>

section \<open>The client side\<close>

definition srv_Client ::
  "('h, 'u, 'l, 'd, 'v) net_pkg \<Rightarrow> ('s, 'c, 'tr, 'h, 'u, 'l, 'd) Server option \<Rightarrow> ClientOption option list \<Rightarrow> Client" where
  "srv_Client N server opts =
     (case server of
        None \<Rightarrow> NewClient ''127.0.0.1:5354'' opts
      | Some s \<Rightarrow> NewClient (clientTarget N server) (srv_clientOpts s @ opts))"

definition srv_Query ::
  "('rr, 'x) rr_pkg_scheme \<Rightarrow> ('h, 'u, 'l, 'd, 'v) net_pkg \<Rightarrow> ('rr, 'w) client_pkg \<Rightarrow> ('s, 'c, 'tr, 'h, 'u, 'l, 'd) Server option \<Rightarrow>
     string \<Rightarrow> uint16 \<Rightarrow> ClientOption option list \<Rightarrow> (error, 'rr Msg \<times> Duration, 'w) action" where
  "srv_Query E N C server name qtype opts = Exchange E C (srv_Client N server opts) name qtype"

definition srv_UpsertRecord ::
  "('rr, 'x) rr_pkg_scheme \<Rightarrow> ('h, 'u, 'l, 'd, 'v) net_pkg \<Rightarrow> ('rr, 'w) client_pkg \<Rightarrow> ('s, 'c, 'tr, 'h, 'u, 'l, 'd) Server option \<Rightarrow>
     Record \<Rightarrow> ClientOption option list \<Rightarrow> (error, 'rr Msg \<times> Duration, 'w) action" where
  "srv_UpsertRecord E N C server record opts w =
     (case NormalizeRecord E record of
        Inl err \<Rightarrow> (Inl err, w)
      | Inr normalized \<Rightarrow>
         (case record_RR E normalized of
            Inl err \<Rightarrow> (Inl err, w)
          | Inr rr \<Rightarrow> UpdateAdd E C (srv_Client N server opts) (rec_Zone normalized) [rr] w))"

definition srv_UpsertRRSet ::
  "('rr, 'x) rr_pkg_scheme \<Rightarrow> 'o set_pkg \<Rightarrow> ('h, 'u, 'l, 'd, 'v) net_pkg \<Rightarrow> ('rr, 'w) client_pkg \<Rightarrow> ('s, 'c, 'tr, 'h, 'u, 'l, 'd) Server option \<Rightarrow>
     string \<Rightarrow> string \<Rightarrow> uint16 \<Rightarrow> Record list \<Rightarrow> ClientOption option list \<Rightarrow> (error, 'rr Msg \<times> Duration, 'w) action" where
  "srv_UpsertRRSet E OS N C server zone name rrtype records opts w =
     (case normalizeRRSetRecords E OS zone name rrtype records of
        Inl err \<Rightarrow> (Inl err, w)
      | Inr normalizedRecords \<Rightarrow>
         (case recordsToRRs E normalizedRecords of
            Inl err \<Rightarrow> (Inl err, w)
          | Inr rrs \<Rightarrow>
             (case normalizedRecords of
                [] \<Rightarrow> (Inl (Panic ''index out of range''), w)
              | first # _ \<Rightarrow> UpdateAdd E C (srv_Client N server opts) (rec_Zone first) rrs w)))"

definition srv_DeleteRecord ::
  "('rr, 'x) rr_pkg_scheme \<Rightarrow> ('h, 'u, 'l, 'd, 'v) net_pkg \<Rightarrow> ('rr, 'w) client_pkg \<Rightarrow> ('s, 'c, 'tr, 'h, 'u, 'l, 'd) Server option \<Rightarrow>
     Record \<Rightarrow> ClientOption option list \<Rightarrow> (error, 'rr Msg \<times> Duration, 'w) action" where
  "srv_DeleteRecord E N C server record opts w =
     (case NormalizeRecord E record of
        Inl err \<Rightarrow> (Inl err, w)
      | Inr normalized \<Rightarrow>
         (case record_RR E normalized of
            Inl err \<Rightarrow> (Inl err, w)
          | Inr rr \<Rightarrow> UpdateRemove E C (srv_Client N server opts) (rec_Zone normalized) [rr] w))"

definition srv_DeleteRRSet ::
  "('rr, 'x) rr_pkg_scheme \<Rightarrow> ('h, 'u, 'l, 'd, 'v) net_pkg \<Rightarrow> ('rr, 'w) client_pkg \<Rightarrow> ('s, 'c, 'tr, 'h, 'u, 'l, 'd) Server option \<Rightarrow>
     string \<Rightarrow> string \<Rightarrow> uint16 \<Rightarrow> ClientOption option list \<Rightarrow> (error, 'rr Msg \<times> Duration, 'w) action" where
  "srv_DeleteRRSet E N C server zone name rrtype opts w =
     (case NormalizeZoneName E zone of
        Inl err \<Rightarrow> (Inl err, w)
      | Inr normalizedZone \<Rightarrow> UpdateRemoveRRSet E C (srv_Client N server opts) normalizedZone (Fqdn E name) rrtype w)"

definition srv_DeleteName ::
  "('rr, 'x) rr_pkg_scheme \<Rightarrow> ('h, 'u, 'l, 'd, 'v) net_pkg \<Rightarrow> ('rr, 'w) client_pkg \<Rightarrow> ('s, 'c, 'tr, 'h, 'u, 'l, 'd) Server option \<Rightarrow>
     string \<Rightarrow> string \<Rightarrow> ClientOption option list \<Rightarrow> (error, 'rr Msg \<times> Duration, 'w) action" where
  "srv_DeleteName E N C server zone name opts w =
     (case NormalizeZoneName E zone of
        Inl err \<Rightarrow> (Inl err, w)
      | Inr normalizedZone \<Rightarrow> UpdateRemoveName E C (srv_Client N server opts) normalizedZone (Fqdn E name) w)"

definition srv_Lookup ::
  "('rr, 'x) rr_pkg_scheme \<Rightarrow> ('h, 'u, 'l, 'd, 'v) net_pkg \<Rightarrow> ('rr, 'w) client_pkg \<Rightarrow> ('s, 'c, 'tr, 'h, 'u, 'l, 'd) Server option \<Rightarrow>
     string \<Rightarrow> uint16 \<Rightarrow> ClientOption option list \<Rightarrow> (error, 'rr option list, 'w) action" where
  "srv_Lookup E N C server name qtype opts = cl_Lookup E C (srv_Client N server opts) name qtype"

text \<open>The typed lookups of the server pass the method of the client to one generic function.\<close>

definition lookupServerValues ::
  "('h, 'u, 'l, 'd, 'v) net_pkg \<Rightarrow> ('s, 'c, 'tr, 'h, 'u, 'l, 'd) Server option \<Rightarrow> string \<Rightarrow>
     (Client \<Rightarrow> string \<Rightarrow> (error, 'a list, 'w) action) \<Rightarrow> ClientOption option list \<Rightarrow> (error, 'a list, 'w) action" where
  "lookupServerValues N server name lookup opts w =
     (case lookup (srv_Client N server opts) name w of
        (Inl err, w') \<Rightarrow> (Inl err, w')
      | (Inr values, w') \<Rightarrow> (Inr values, w'))"

definition srv_LookupA where
  "srv_LookupA E N C server name opts = lookupServerValues N server name (cl_LookupA E C) opts"

definition srv_LookupAAAA where
  "srv_LookupAAAA E N C server name opts = lookupServerValues N server name (cl_LookupAAAA E C) opts"

definition srv_LookupCNAME where
  "srv_LookupCNAME E N C server name opts = lookupServerValues N server name (cl_LookupCNAME E C) opts"

definition srv_LookupNS where
  "srv_LookupNS E N C server name opts = lookupServerValues N server name (cl_LookupNS E C) opts"

definition srv_LookupTXT where
  "srv_LookupTXT E N C server name opts = lookupServerValues N server name (cl_LookupTXT E C) opts"

definition srv_LookupMX where
  "srv_LookupMX E N C server name opts = lookupServerValues N server name (cl_LookupMX E C) opts"

definition srv_LookupSRV where
  "srv_LookupSRV E N C server name opts = lookupServerValues N server name (cl_LookupSRV E C) opts"

section \<open>Records on the wire\<close>

text \<open>
  Names of hosts, which mean the same in a zone file and in the store.
\<close>

definition hostname :: "string \<Rightarrow> bool" where
  "hostname s \<longleftrightarrow> list_all (\<lambda>c. c \<in> set ''abcdefghijklmnopqrstuvwxyz0123456789-_.*'') s"

text \<open>
  Documented behaviour of the zone-file syntax: a line \<^verbatim>\<open>name ttl class type rdata\<close> that is accepted gives a
  record with this name, TTL, class and type.
\<close>

definition rr_line_ok :: "('rr, 'x) rr_pkg_scheme \<Rightarrow> bool" where
  "rr_line_ok E \<longleftrightarrow> (\<forall>r rr. record_RR E r = Inr (Some rr) \<and> hostname (rec_Name r) \<longrightarrow>
     rr_Name E rr = rec_Name r \<and> rr_Ttl E rr = rec_TTL r \<and> rr_Class E rr = rec_Class r \<and> rr_Rrtype E rr = rec_Type r)"

text \<open>The words of the data in the text form of a resource record.\<close>

definition rdata :: "('rr, 'x) rr_pkg_scheme \<Rightarrow> 'rr \<Rightarrow> string list" where
  "rdata E rr = drop 4 (Fields (rr_String E rr))"

text \<open>A record whose data is written the way the DNS package prints it.\<close>

definition canonical :: "('rr, 'x) rr_pkg_scheme \<Rightarrow> Record \<Rightarrow> 'rr \<Rightarrow> bool" where
  "canonical E r rr \<longleftrightarrow> record_RR E r = Inr (Some rr) \<and> hostname (rec_Name r) \<and> Join (rdata E rr) '' '' = rec_Data r"

lemma RecordFromRR_canonical:
  assumes "normal_record E r" and "rr_Name E rr = rec_Name r" and "rr_Rrtype E rr = rec_Type r" and "Join (rdata E rr) '' '' = rec_Data r"
    and "rr_Class E rr \<noteq> 0"
  shows "RecordFromRR E (rec_Zone r) (Some rr) = Inr (r\<lparr>rec_TTL := rr_Ttl E rr, rec_Class := rr_Class E rr\<rparr>)"
proof -
  have "rec_Data r \<noteq> []" using normal_recordD(7) [OF assms(1)] .
  then have "rdata E rr \<noteq> []" using assms(4) by auto
  then have len: "\<not> length (Fields (rr_String E rr)) < 5" by (simp add: rdata_def)
  have "NormalizeRecord E (r\<lparr>rec_TTL := rr_Ttl E rr, rec_Class := rr_Class E rr\<rparr>) = Inr (r\<lparr>rec_TTL := rr_Ttl E rr, rec_Class := rr_Class E rr\<rparr>)"
    using normal_recordD(1) [OF assms(1)] assms(5) by (cases r) (auto simp: NormalizeRecord_Inr)
  with len show ?thesis using assms(2-4) by (cases r) (simp add: RecordFromRR_def Let_def rdata_def)
qed

text \<open>
  Records survive the way to a resource record and back: a normalised record whose data is written the
  way the DNS package prints it is read back from its resource record unchanged.
\<close>

theorem RecordFromRR_record_RR:
  assumes "rr_line_ok E" and "normal_record E r" and "canonical E r rr"
  shows "record_RR E r = Inr (Some rr) \<and> RecordFromRR E (rec_Zone r) (Some rr) = Inr r"
proof -
  have line: "record_RR E r = Inr (Some rr)" and host: "hostname (rec_Name r)" and data: "Join (rdata E rr) '' '' = rec_Data r"
    using assms(3) by (simp_all add: canonical_def)
  have hdr: "rr_Name E rr = rec_Name r" "rr_Ttl E rr = rec_TTL r" "rr_Class E rr = rec_Class r" "rr_Rrtype E rr = rec_Type r"
    using assms(1) line host by (simp_all add: rr_line_ok_def)
  from RecordFromRR_canonical [OF assms(2) hdr(1,4) data] normal_recordD(8) [OF assms(2)] hdr line
  show ?thesis by simp
qed

section \<open>The network\<close>

text \<open>
  What the messages of RFC 2136 do to a resource record: class and TTL are replaced, name, type and data kept.
\<close>

definition restamped :: "('rr, 'x) rr_pkg_scheme \<Rightarrow> uint16 \<Rightarrow> uint32 \<Rightarrow> 'rr \<Rightarrow> 'rr \<Rightarrow> bool" where
  "restamped E class ttl rr rr' \<longleftrightarrow> rr_Name E rr' = rr_Name E rr \<and> rr_Rrtype E rr' = rr_Rrtype E rr \<and> rr_Class E rr' = class \<and>
     rr_Ttl E rr' = ttl \<and> rdata E rr' = rdata E rr"

text \<open>A resource record that was made from a record of a host.\<close>

definition host_rr :: "('rr, 'x) rr_pkg_scheme \<Rightarrow> 'rr \<Rightarrow> bool" where
  "host_rr E rr \<longleftrightarrow> (\<exists>r. record_RR E r = Inr (Some rr) \<and> hostname (rec_Name r) \<and> rec_Name r \<noteq> [])"

definition update_msg :: "string \<Rightarrow> 'rr list \<Rightarrow> 'rr Msg \<Rightarrow> bool" where
  "update_msg z rrs m \<longleftrightarrow> msg_Opcode m = OpcodeUpdate \<and> msg_Question m = [\<lparr>q_Name = z, q_Qtype = TypeSOA, q_Qclass = ClassINET\<rparr>] \<and>
     msg_Answer m = [] \<and> msg_Ns m = map Some rrs"

text \<open>
  Documented behaviour: \<^verbatim>\<open>SetUpdate\<close> makes an update of a zone of class IN; \<^verbatim>\<open>Insert\<close>, \<^verbatim>\<open>Remove\<close>, \<^verbatim>\<open>RemoveRRset\<close> and
  \<^verbatim>\<open>RemoveName\<close> add the records of sections 2.5.1, 2.5.4, 2.5.2 and 2.5.3 of RFC 2136.
\<close>

definition client_pkg_ok :: "('rr, 'x) rr_pkg_scheme \<Rightarrow> ('rr, 'w) client_pkg \<Rightarrow> bool" where
  "client_pkg_ok E C \<longleftrightarrow>
     (\<forall>z rr. host_rr E rr \<longrightarrow> (\<exists>m rr'. msg_Insert C [Some rr] (SetUpdate C z) = Inr m \<and> update_msg z [rr'] m \<and> restamped E ClassINET (rr_Ttl E rr) rr rr')) \<and>
     (\<forall>z rr. host_rr E rr \<longrightarrow> (\<exists>m rr'. msg_Remove C [Some rr] (SetUpdate C z) = Inr m \<and> update_msg z [rr'] m \<and> restamped E ClassNONE 0 rr rr')) \<and>
     (\<forall>z rr. \<exists>m rr'. msg_RemoveRRset C [Some rr] (SetUpdate C z) = Inr m \<and> update_msg z [rr'] m \<and>
        rr_Name E rr' = rr_Name E rr \<and> rr_Rrtype E rr' = rr_Rrtype E rr \<and> rr_Class E rr' = ClassANY) \<and>
     (\<forall>z rr. \<exists>m rr'. msg_RemoveName C [Some rr] (SetUpdate C z) = Inr m \<and> update_msg z [rr'] m \<and>
        rr_Name E rr' = rr_Name E rr \<and> rr_Rrtype E rr' = TypeANY \<and> rr_Class E rr' = ClassANY) \<and>
     (\<forall>n t c ttl. rr_Name E (ANY_RR C n t c ttl) = n \<and> rr_Rrtype E (ANY_RR C n t c ttl) = t)"

text \<open>A network that loses no message: what is sent to the address of the server gets the reply of its handler.\<close>

definition delivers :: "('rr, 'w) client_pkg \<Rightarrow> string \<Rightarrow> ('rr Msg \<Rightarrow> 'w \<Rightarrow> (error + 'rr Msg) \<times> 'w) \<Rightarrow> bool" where
  "delivers C addr handler \<longleftrightarrow>
     (\<forall>c m w reply w'. handler m w = (Inr reply, w') \<longrightarrow> (\<exists>rtt. ExchangeContext C c m addr w = (Inr (reply, rtt), w')))"

lemma fqdn_fixed:
  assumes "names_pkg_ok E" and "normal_zone E z"
  shows "Fqdn E z = z" and "NormalizeZoneName E z = Inr z" and "plain z"
proof -
  show z: "NormalizeZoneName E z = Inr z" "plain z" using assms(2) by (simp_all add: normal_zone_def)
  then have "z = fqdnName E z" by (simp add: NormalizeZoneName_Inr)
  then have "suffix ''.'' z" using suffix_Fqdn [OF assms(1)] by (metis fqdnName_def)
  then show "Fqdn E z = z" using Fqdn_dot [OF assms(1)] z(2) by (simp add: plain_def)
qed

context rr_repository
begin

lemma exchange_update:
  assumes "invar s" and "set_pkg_ok OS" and "wired R srv" and "msg_pkg_ok G"
    and "delivers C (cl_server c) (serveDNS E OS T H G)" and "update_msg z [rr] m" and "normal_zone E z" and "plain (rr_Name E rr)"
  shows "\<exists>reply rtt s'. ExchangeMessage C c (Some m) (srv, s) = (Inr (reply, rtt), (srv, s')) \<and>
    serveDNS E OS T H G m (srv, s) = (Inr reply, (srv, s')) \<and> invar s' \<and>
    (case spec_update E z rr (content s) of
       None \<Rightarrow> msg_Rcode reply = RcodeServerFailure \<and> content s' = content s
     | Some a \<Rightarrow> msg_Rcode reply = RcodeSuccess \<and> content s' = a)"
proof -
  note z = fqdn_fixed [OF names_ok [OF assms(1)] assms(7)]
  have m: "msg_Opcode m = OpcodeUpdate" "msg_Question m = [\<lparr>q_Name = z, q_Qtype = TypeSOA, q_Qclass = ClassINET\<rparr>]"
    "msg_Answer m = []" "msg_Ns m = map Some [rr]" using assms(6) by (simp_all add: update_msg_def)
  have rrs: "list_all (\<lambda>rr. plain (rr_Name E rr)) [rr]" using assms(8) by simp
  obtain reply s' where upd: "serveUpdate E OS G srv m s = (Inr reply, s')" "invar s'"
    "msg_Rcode reply = (if fst (spec_updates E z [rr] (content s)) then RcodeSuccess else RcodeServerFailure)"
    "content s' = snd (spec_updates E z [rr] (content s))"
    using serveUpdate_spec [OF assms(1-4) m(2-4) z(3) rrs z(2)] by blast
  then have "serveDNS E OS T H G m (srv, s) = (Inr reply, (srv, s'))" by (simp add: serveDNS_def m(1))
  moreover from this assms(5) obtain rtt where "ExchangeContext C (cl_client c) m (cl_server c) (srv, s) = (Inr (reply, rtt), (srv, s'))"
    unfolding delivers_def by blast
  ultimately show ?thesis using upd(2-4) by (auto simp: ExchangeMessage_def split: option.splits)
qed

end

text \<open>The outcome of a write over the network, against that of the same write on the manager.\<close>

definition same_outcome ::
  "('s \<Rightarrow> bool) \<Rightarrow> ('s \<Rightarrow> abs_store) \<Rightarrow> 'v \<Rightarrow> (error + 'a) \<times> 's \<Rightarrow> (error + 'rr Msg \<times> Duration) \<times> 'v \<times> 's \<Rightarrow> bool" where
  "same_outcome invar content srv direct remote \<longleftrightarrow>
     (\<exists>reply rtt s'. remote = (Inr (reply, rtt), (srv, s')) \<and> invar s' \<and> content s' = content (snd direct) \<and>
        msg_Rcode reply = (if isl (fst direct) then RcodeServerFailure else RcodeSuccess))"

lemma fqdnName_Fqdn:
  assumes "names_pkg_ok E" and "plain name" and "trimmed name"
  shows "fqdnName E (Fqdn E name) = fqdnName E name" and "plain (Fqdn E name)" and "Fqdn E (Fqdn E name) = Fqdn E name"
proof -
  have esc: "CHR 0x5C \<notin> set name" and asc: "ascii name" using assms(2) by (simp_all add: plain_def)
  note F = Fqdn_cases [OF assms(1) esc]
  show p: "plain (Fqdn E name)" using assms(2) by (simp add: F)
  then show "Fqdn E (Fqdn E name) = Fqdn E name"
    using Fqdn_dot [OF assms(1) suffix_Fqdn [OF assms(1)]] by (simp add: plain_def)
  let ?n = "map lowerByte name"
  have tl: "TrimSpace ?n = ?n" using TrimSpace_ToLower [OF asc, of "unicodeLower E"] assms(3) asc by (simp add: ToLower_ascii)
  show "fqdnName E (Fqdn E name) = fqdnName E name"
  proof (cases "suffix ''.'' name")
    case False
    have dot: "lowerByte (CHR ''.'') = CHR ''.''" by code_simp
    have t: "trimmed (?n @ ''.'')" by (rule trimmed_snoc_dot) (metis tl trimmed_of_TrimSpace)
    have esc': "CHR 0x5C \<notin> set ?n" using plain_map_lower [OF assms(2)] by (simp add: plain_def)
    have nsuf: "\<not> suffix ''.'' ?n"
    proof
      assume "suffix ''.'' ?n"
      then obtain xs where "?n = xs @ ''.''" by (auto simp: suffix_def)
      then obtain ys c where "name = ys @ [c]" "lowerByte c = CHR ''.''" by (auto simp: map_eq_append_conv)
      moreover have "lowerByte c = CHR ''.'' \<longleftrightarrow> c = CHR ''.''" for c by (intro lowerByte_eq_iff) auto
      ultimately show False using False by simp
    qed
    have "fqdnName E (name @ ''.'') = Fqdn E (?n @ ''.'')"
      using asc t by (simp add: fqdnName_def ToLower_ascii dot)
    also have "\<dots> = ?n @ ''.''" using Fqdn_dot [OF assms(1), of "?n @ ''.''"] esc' by simp
    also have "\<dots> = fqdnName E name" using asc nsuf Fqdn_no_dot [OF assms(1) nsuf] by (simp add: fqdnName_def ToLower_ascii tl)
    finally show ?thesis using False by (simp add: F)
  qed (simp add: F)
qed

lemma normalizeRRSetLookup_Fqdn:
  assumes "names_pkg_ok E" and "plain name" and "trimmed name" and "NormalizeZoneName E zone = Inr z" and "plain zone"
  shows "normalizeRRSetLookup E z (Fqdn E name) = normalizeRRSetLookup E zone name"
  using assms fqdnName_Fqdn [OF assms(1-3)] normal_zoneD [OF normal_zone_NormalizeZoneName [OF assms(1,5,4)]]
  by (simp add: normalizeRRSetLookup_def)

lemma normal_record_name_not_Nil: "names_pkg_ok E \<Longrightarrow> normal_record E r \<Longrightarrow> rec_Name r \<noteq> []"
  using fqdnName_not_Nil [of E "rec_Name r"] normal_recordD(3,5) [of E r] by metis

lemma client_laws:
  assumes "client_pkg_ok E C"
  shows "host_rr E rr \<Longrightarrow> \<exists>m rr'. msg_Insert C [Some rr] (SetUpdate C z) = Inr m \<and> update_msg z [rr'] m \<and> restamped E ClassINET (rr_Ttl E rr) rr rr'"
    and "host_rr E rr \<Longrightarrow> \<exists>m rr'. msg_Remove C [Some rr] (SetUpdate C z) = Inr m \<and> update_msg z [rr'] m \<and> restamped E ClassNONE 0 rr rr'"
    and "\<exists>m rr. msg_RemoveRRset C [Some (ANY_RR C n t c ttl)] (SetUpdate C z) = Inr m \<and> update_msg z [rr] m \<and>
      rr_Name E rr = n \<and> rr_Rrtype E rr = t \<and> rr_Class E rr = ClassANY"
    and "\<exists>m rr. msg_RemoveName C [Some (ANY_RR C n t c ttl)] (SetUpdate C z) = Inr m \<and> update_msg z [rr] m \<and>
      rr_Name E rr = n \<and> rr_Rrtype E rr = TypeANY \<and> rr_Class E rr = ClassANY"
  using assms unfolding client_pkg_ok_def by metis+

context rr_repository
begin

text \<open>
  The update message that adds or removes the resource record of a normalised record, sent by any client: the record the
  server reads from it, and the effect.
\<close>

lemma client_add:
  assumes "invar s" and "set_pkg_ok OS" and "wired R srv" and "msg_pkg_ok G" and "client_pkg_ok E C" and "rr_line_ok E"
    and "delivers C (cl_server c) (serveDNS E OS T H G)"
    and "normal_record E n" and "canonical E n rr" and "rec_Class n = ClassINET" and "Fqdn E zone = rec_Zone n"
  obtains reply rtt s' m rr' where "UpdateAdd E C c zone [Some rr] (srv, s) = (Inr (reply, rtt), (srv, s'))" and "invar s'"
    and "if zone_valid (rec_Zone n) False (zone_records (rec_Zone n) (put_content E n (content s)))
      then msg_Rcode reply = RcodeSuccess \<and> content s' = put_content E n (content s)
      else msg_Rcode reply = RcodeServerFailure \<and> content s' = content s"
    and "msg_Opcode m = OpcodeUpdate" and "msg_Ns m = [Some rr']" and "rr_Class E rr' = ClassINET"
    and "serveDNS E OS T H G m (srv, s) = (Inr reply, (srv, s'))"
proof -
  note names = names_ok [OF assms(1)] and nz = normal_record_zone [OF assms(8)]
  have line: "record_RR E n = Inr (Some rr)" and host: "hostname (rec_Name n)" and data: "Join (rdata E rr) '' '' = rec_Data n"
    using assms(9) by (simp_all add: canonical_def)
  have host_rr: "host_rr E rr" using line host normal_record_name_not_Nil [OF names assms(8)] by (auto simp: host_rr_def)
  have hdr: "rr_Name E rr = rec_Name n" "rr_Ttl E rr = rec_TTL n" "rr_Rrtype E rr = rec_Type n"
    using assms(6) line host by (simp_all add: rr_line_ok_def)
  obtain m rr' where m: "msg_Insert C [Some rr] (SetUpdate C (rec_Zone n)) = Inr m" "update_msg (rec_Zone n) [rr'] m"
    and stamp: "restamped E ClassINET (rr_Ttl E rr) rr rr'" using client_laws(1) [OF assms(5) host_rr] by blast
  have rr': "rr_Name E rr' = rec_Name n" "rr_Rrtype E rr' = rec_Type n" "rr_Class E rr' = ClassINET" "rr_Ttl E rr' = rec_TTL n"
      "rdata E rr' = rdata E rr"
    using stamp hdr by (simp_all add: restamped_def)
  have p: "plain (rr_Name E rr')" using assms(8) rr'(1) by (simp add: normal_recordD)
  have "n\<lparr>rec_TTL := rec_TTL n, rec_Class := ClassINET\<rparr> = n" using assms(10) by (cases n) simp
  then have parsed_back: "RecordFromRR E (rec_Zone n) (Some rr') = Inr n"
    using RecordFromRR_canonical [OF assms(8) rr'(1,2)] rr' data by simp
  obtain reply rtt s' where x: "ExchangeMessage C c (Some m) (srv, s) = (Inr (reply, rtt), (srv, s'))"
    "serveDNS E OS T H G m (srv, s) = (Inr reply, (srv, s'))" "invar s'"
    "case spec_update E (rec_Zone n) rr' (content s) of
       None \<Rightarrow> msg_Rcode reply = RcodeServerFailure \<and> content s' = content s
     | Some a \<Rightarrow> msg_Rcode reply = RcodeSuccess \<and> content s' = a"
    using exchange_update [OF assms(1-4,7) m(2) nz p] by blast
  show thesis
  proof (rule that)
    show "UpdateAdd E C c zone [Some rr] (srv, s) = (Inr (reply, rtt), (srv, s'))"
      using x(1) m(1) by (simp add: UpdateAdd_def assms(11))
    show "if zone_valid (rec_Zone n) False (zone_records (rec_Zone n) (put_content E n (content s)))
      then msg_Rcode reply = RcodeSuccess \<and> content s' = put_content E n (content s)
      else msg_Rcode reply = RcodeServerFailure \<and> content s' = content s"
      using x(4) by (simp add: spec_update_def parsed_back rr'(3) split: if_split_asm)
    show "msg_Opcode m = OpcodeUpdate" "msg_Ns m = [Some rr']" using m(2) by (simp_all add: update_msg_def)
  qed (fact x rr'(3))+
qed

lemma client_remove:
  assumes "invar s" and "set_pkg_ok OS" and "wired R srv" and "msg_pkg_ok G" and "client_pkg_ok E C" and "rr_line_ok E"
    and "delivers C (cl_server c) (serveDNS E OS T H G)"
    and "normal_record E n" and "canonical E n rr" and "rec_Class n = ClassINET" and "Fqdn E zone = rec_Zone n"
  obtains reply rtt s' m rr' where "UpdateRemove E C c zone [Some rr] (srv, s) = (Inr (reply, rtt), (srv, s'))" and "invar s'"
    and "msg_Rcode reply = RcodeSuccess" and "content s' = (content s)\<lparr>abs_records := del_record E n (abs_records (content s))\<rparr>"
    and "msg_Opcode m = OpcodeUpdate" and "msg_Ns m = [Some rr']" and "rr_Class E rr' = ClassNONE"
    and "serveDNS E OS T H G m (srv, s) = (Inr reply, (srv, s'))"
proof -
  note names = names_ok [OF assms(1)] and nz = normal_record_zone [OF assms(8)]
  have line: "record_RR E n = Inr (Some rr)" and host: "hostname (rec_Name n)" and data: "Join (rdata E rr) '' '' = rec_Data n"
    using assms(9) by (simp_all add: canonical_def)
  have host_rr: "host_rr E rr" using line host normal_record_name_not_Nil [OF names assms(8)] by (auto simp: host_rr_def)
  have hdr: "rr_Name E rr = rec_Name n" "rr_Rrtype E rr = rec_Type n" using assms(6) line host by (simp_all add: rr_line_ok_def)
  obtain m rr' where m: "msg_Remove C [Some rr] (SetUpdate C (rec_Zone n)) = Inr m" "update_msg (rec_Zone n) [rr'] m"
    and stamp: "restamped E ClassNONE 0 rr rr'" using client_laws(2) [OF assms(5) host_rr] by blast
  have rr': "rr_Name E rr' = rec_Name n" "rr_Rrtype E rr' = rec_Type n" "rr_Class E rr' = ClassNONE" "rr_Ttl E rr' = 0"
      "rdata E rr' = rdata E rr"
    using stamp hdr by (simp_all add: restamped_def)
  have p: "plain (rr_Name E rr')" using assms(8) rr'(1) by (simp add: normal_recordD)
  have parsed_back: "RecordFromRR E (rec_Zone n) (Some rr') = Inr (n\<lparr>rec_TTL := 0, rec_Class := ClassNONE\<rparr>)"
    using RecordFromRR_canonical [OF assms(8) rr'(1,2)] rr' data by simp
  have key: "Key E (n\<lparr>rec_TTL := 0, rec_Class := ClassINET\<rparr>) = Key E n" using assms(10) by (simp add: Key_def fingerprint_def)
  obtain reply rtt s' where x: "ExchangeMessage C c (Some m) (srv, s) = (Inr (reply, rtt), (srv, s'))"
    "serveDNS E OS T H G m (srv, s) = (Inr reply, (srv, s'))" "invar s'"
    "case spec_update E (rec_Zone n) rr' (content s) of
       None \<Rightarrow> msg_Rcode reply = RcodeServerFailure \<and> content s' = content s
     | Some a \<Rightarrow> msg_Rcode reply = RcodeSuccess \<and> content s' = a"
    using exchange_update [OF assms(1-4,7) m(2) nz p] by blast
  have eff: "msg_Rcode reply = RcodeSuccess" "content s' = (content s)\<lparr>abs_records := del_record E n (abs_records (content s))\<rparr>"
    using x(4) by (simp_all add: spec_update_def parsed_back rr'(3) del_record_def key)
  show thesis
  proof (rule that)
    show "UpdateRemove E C c zone [Some rr] (srv, s) = (Inr (reply, rtt), (srv, s'))"
      using x(1) m(1) by (simp add: UpdateRemove_def assms(11))
    show "msg_Opcode m = OpcodeUpdate" "msg_Ns m = [Some rr']" using m(2) by (simp_all add: update_msg_def)
  qed (fact x eff rr'(3))+
qed

lemma remote_UpsertRecord:
  assumes "invar s" and "set_pkg_ok OS" and "wired R srv" and "msg_pkg_ok G" and "client_pkg_ok E C" and "rr_line_ok E"
    and "delivers C (cl_server (srv_Client N (Some srv) opts)) (serveDNS E OS T H G)"
    and "plain_record record" and "NormalizeRecord E record = Inr n" and "canonical E n rr" and "rec_Class n = ClassINET"
  shows "same_outcome invar content srv (mgr_UpsertRecord E OS (mgr_of R) record s) (srv_UpsertRecord E N C (Some srv) record opts (srv, s))"
proof -
  note names = names_ok [OF assms(1)]
  have n: "normal_record E n" by (rule normal_record_NormalizeRecord [OF names assms(8,9)])
  have line: "record_RR E n = Inr (Some rr)" using assms(10) by (simp add: canonical_def)
  note zone = fqdn_fixed(1) [OF names normal_record_zone [OF n]]
  show ?thesis
  proof (rule client_add [OF assms(1-7) n assms(10,11) zone])
    fix reply rtt s'
    assume "UpdateAdd E C (srv_Client N (Some srv) opts) (rec_Zone n) [Some rr] (srv, s) = (Inr (reply, rtt), srv, s')"
    then have remote: "srv_UpsertRecord E N C (Some srv) record opts (srv, s) = (Inr (reply, rtt), (srv, s'))"
      by (simp add: srv_UpsertRecord_def assms(9) line)
    assume "invar s'" "if zone_valid (rec_Zone n) False (zone_records (rec_Zone n) (put_content E n (content s)))
      then msg_Rcode reply = RcodeSuccess \<and> content s' = put_content E n (content s)
      else msg_Rcode reply = RcodeServerFailure \<and> content s' = content s"
    note outcome = this
    show ?thesis
    proof (cases "zone_valid (rec_Zone n) False (zone_records (rec_Zone n) (put_content E n (content s)))")
      case True
      obtain t where "mgr_UpsertRecord E OS (mgr_of R) record s = (Inr n, t)" "content t = put_content E n (content s)"
        using UpsertRecord_accepts [OF assms(1,2,8,9) True] by blast
      with remote outcome True show ?thesis by (simp add: same_outcome_def)
    next
      case False
      obtain err where "mgr_UpsertRecord E OS (mgr_of R) record s = (Inl err, s)"
        using UpsertRecord_rejects [OF assms(1,2,8,9) False] by blast
      with remote outcome False show ?thesis by (simp add: same_outcome_def)
    qed
  qed
qed

lemma remote_DeleteRecord:
  assumes "invar s" and "set_pkg_ok OS" and "wired R srv" and "msg_pkg_ok G" and "client_pkg_ok E C" and "rr_line_ok E"
    and "delivers C (cl_server (srv_Client N (Some srv) opts)) (serveDNS E OS T H G)"
    and "plain_record record" and "NormalizeRecord E record = Inr n" and "canonical E n rr" and "rec_Class n = ClassINET"
  shows "same_outcome invar content srv (mgr_DeleteRecord E (mgr_of R) record s) (srv_DeleteRecord E N C (Some srv) record opts (srv, s))"
proof -
  note names = names_ok [OF assms(1)]
  have n: "normal_record E n" by (rule normal_record_NormalizeRecord [OF names assms(8,9)])
  have line: "record_RR E n = Inr (Some rr)" using assms(10) by (simp add: canonical_def)
  note zone = fqdn_fixed(1) [OF names normal_record_zone [OF n]]
  show ?thesis
  proof (rule client_remove [OF assms(1-7) n assms(10,11) zone])
    fix reply rtt s'
    assume "UpdateRemove E C (srv_Client N (Some srv) opts) (rec_Zone n) [Some rr] (srv, s) = (Inr (reply, rtt), srv, s')"
    then have remote: "srv_DeleteRecord E N C (Some srv) record opts (srv, s) = (Inr (reply, rtt), (srv, s'))"
      by (simp add: srv_DeleteRecord_def assms(9) line)
    assume outcome: "invar s'" "msg_Rcode reply = RcodeSuccess"
      "content s' = (content s)\<lparr>abs_records := del_record E n (abs_records (content s))\<rparr>"
    obtain t where "mgr_DeleteRecord E (mgr_of R) record s = (Inr (), t)"
      "content t = (content s)\<lparr>abs_records := del_record E n (abs_records (content s))\<rparr>"
      using DeleteRecord_spec [OF assms(1,8,9)] by blast
    with remote outcome show ?thesis by (simp add: same_outcome_def)
  qed
qed

text \<open>Deletions by name.\<close>

lemma remote_delete:
  assumes "invar s" and "set_pkg_ok OS" and "wired R srv" and "msg_pkg_ok G"
    and "delivers C (cl_server (srv_Client N (Some srv) opts)) (serveDNS E OS T H G)"
    and "plain zone" and "NormalizeZoneName E zone = Inr z" and "plain name" and "trimmed name"
    and "update_msg z [rr] m" and "rr_Name E rr = Fqdn E name" and "rr_Rrtype E rr = t" and "rr_Class E rr = ClassANY"
    and "remote = ExchangeMessage C (srv_Client N (Some srv) opts) (Some m) (srv, s)"
    and "fst direct = Inl err \<and> snd direct = s \<and> normalizeRRSetLookup E zone name = Inl err' \<or>
      isl (fst direct) = False \<and> normalizeRRSetLookup E zone name = Inr (z', n') \<and>
      content (snd direct) = (content s)\<lparr>abs_records := abs_records (content s) - lookup_set z' n' t ClassANY (content s)\<rparr>"
  shows "same_outcome invar content srv direct remote"
proof -
  note names = names_ok [OF assms(1)] and nz = normal_zone_NormalizeZoneName [OF names_ok [OF assms(1)] assms(6,7)]
  have p: "plain (rr_Name E rr)" using fqdnName_Fqdn(2) [OF names assms(8,9)] assms(11) by simp
  note lookup = normalizeRRSetLookup_Fqdn [OF names assms(8,9,7,6)]
  obtain reply rtt s' where x: "remote = (Inr (reply, rtt), (srv, s'))" "invar s'"
    "case spec_update E z rr (content s) of
       None \<Rightarrow> msg_Rcode reply = RcodeServerFailure \<and> content s' = content s
     | Some a \<Rightarrow> msg_Rcode reply = RcodeSuccess \<and> content s' = a"
    using exchange_update [OF assms(1-5,10) nz p] assms(14) by metis
  then show ?thesis using assms(11-13,15) lookup by (auto simp: same_outcome_def spec_update_def)
qed

lemma direct_delete:
  assumes "invar s" and "plain zone" and "plain name"
    and "direct = mgr_DeleteRRSet E (mgr_of R) zone name t s \<or> direct = mgr_DeleteName E (mgr_of R) zone name s \<and> t = TypeANY"
  shows "\<exists>err err' z' n'. fst direct = Inl err \<and> snd direct = s \<and> normalizeRRSetLookup E zone name = Inl err' \<or>
      isl (fst direct) = False \<and> normalizeRRSetLookup E zone name = Inr (z', n') \<and>
      content (snd direct) = (content s)\<lparr>abs_records := abs_records (content s) - lookup_set z' n' t ClassANY (content s)\<rparr>"
proof (cases "normalizeRRSetLookup E zone name")
  case (Inl err)
  then show ?thesis using assms(4) by (auto simp: mgr_errors)
next
  case (Inr p)
  then obtain z' n' where p: "normalizeRRSetLookup E zone name = Inr (z', n')" by (cases p) auto
  show ?thesis using DeleteRRSet_exact [OF assms(1-3) p, of t] DeleteName_exact [OF assms(1-3) p] assms(4) p by auto
qed

lemma remote_DeleteRRSet_DeleteName:
  assumes "invar s" and "set_pkg_ok OS" and "wired R srv" and "msg_pkg_ok G" and "client_pkg_ok E C"
    and "delivers C (cl_server (srv_Client N (Some srv) opts)) (serveDNS E OS T H G)"
    and "plain zone" and "NormalizeZoneName E zone = Inr z" and "plain name" and "trimmed name"
  shows "same_outcome invar content srv (mgr_DeleteRRSet E (mgr_of R) zone name t s)
      (srv_DeleteRRSet E N C (Some srv) zone name t opts (srv, s))"
    and "same_outcome invar content srv (mgr_DeleteName E (mgr_of R) zone name s)
      (srv_DeleteName E N C (Some srv) zone name opts (srv, s))"
proof -
  note names = names_ok [OF assms(1)] and nz = normal_zone_NormalizeZoneName [OF names_ok [OF assms(1)] assms(7,8)]
  note F = fqdnName_Fqdn(3) [OF names assms(9,10)] fqdn_fixed(1) [OF names nz]
  obtain m rr where m: "msg_RemoveRRset C [Some (ANY_RR C (Fqdn E name) t ClassANY 0)] (SetUpdate C z) = Inr m" "update_msg z [rr] m"
    and rr: "rr_Name E rr = Fqdn E name" "rr_Rrtype E rr = t" "rr_Class E rr = ClassANY" using client_laws(3) [OF assms(5)] by blast
  from direct_delete [OF assms(1,7,9) disjI1 [OF refl], of t] obtain err err' z' n'
    where d: "fst (mgr_DeleteRRSet E (mgr_of R) zone name t s) = Inl err \<and> snd (mgr_DeleteRRSet E (mgr_of R) zone name t s) = s \<and>
        normalizeRRSetLookup E zone name = Inl err' \<or>
      isl (fst (mgr_DeleteRRSet E (mgr_of R) zone name t s)) = False \<and> normalizeRRSetLookup E zone name = Inr (z', n') \<and>
      content (snd (mgr_DeleteRRSet E (mgr_of R) zone name t s)) =
        (content s)\<lparr>abs_records := abs_records (content s) - lookup_set z' n' t ClassANY (content s)\<rparr>" by blast
  show "same_outcome invar content srv (mgr_DeleteRRSet E (mgr_of R) zone name t s)
      (srv_DeleteRRSet E N C (Some srv) zone name t opts (srv, s))"
    by (rule remote_delete [OF assms(1-4,6-10) m(2) rr _ d]) (simp add: srv_DeleteRRSet_def assms(8) UpdateRemoveRRSet_def F m(1))
  obtain m' rr' where m': "msg_RemoveName C [Some (ANY_RR C (Fqdn E name) TypeANY ClassANY 0)] (SetUpdate C z) = Inr m'" "update_msg z [rr'] m'"
    and rr': "rr_Name E rr' = Fqdn E name" "rr_Rrtype E rr' = TypeANY" "rr_Class E rr' = ClassANY" using client_laws(4) [OF assms(5)] by blast
  from direct_delete [OF assms(1,7,9) disjI2 [OF conjI [OF refl refl]]] obtain err err' z' n'
    where d': "fst (mgr_DeleteName E (mgr_of R) zone name s) = Inl err \<and> snd (mgr_DeleteName E (mgr_of R) zone name s) = s \<and>
        normalizeRRSetLookup E zone name = Inl err' \<or>
      isl (fst (mgr_DeleteName E (mgr_of R) zone name s)) = False \<and> normalizeRRSetLookup E zone name = Inr (z', n') \<and>
      content (snd (mgr_DeleteName E (mgr_of R) zone name s)) =
        (content s)\<lparr>abs_records := abs_records (content s) - lookup_set z' n' TypeANY ClassANY (content s)\<rparr>" by blast
  show "same_outcome invar content srv (mgr_DeleteName E (mgr_of R) zone name s)
      (srv_DeleteName E N C (Some srv) zone name opts (srv, s))"
    by (rule remote_delete [OF assms(1-4,6-10) m'(2) rr' _ d']) (simp add: srv_DeleteName_def assms(8) UpdateRemoveName_def F m'(1))
qed

end

section \<open>A reference client\<close>

definition ref_updateMsg :: "string \<Rightarrow> ref_rr Msg" where
  "ref_updateMsg z = \<lparr>msg_Id = 1, msg_Response = False, msg_Opcode = OpcodeUpdate, msg_Authoritative = False,
     msg_RecursionDesired = False, msg_RecursionAvailable = False, msg_Rcode = RcodeSuccess,
     msg_Question = [\<lparr>q_Name = z, q_Qtype = TypeSOA, q_Qclass = ClassINET\<rparr>], msg_Answer = [], msg_Ns = [], msg_Extra = []\<rparr>"

definition ref_addNs :: "(ref_rr \<Rightarrow> ref_rr) \<Rightarrow> ref_rr option list \<Rightarrow> ref_rr Msg \<Rightarrow> error + ref_rr Msg" where
  "ref_addNs f rrs m =
     (if None \<in> set rrs then Inl (Panic ''nil pointer dereference'') else Inr (m\<lparr>msg_Ns := msg_Ns m @ map (map_option f) rrs\<rparr>))"

definition ref_data :: "uint16 \<Rightarrow> ref_rr \<Rightarrow> string option" where
  "ref_data t rr = (if rf_type rr = t then Some (rf_data rr) else None)"

definition client_ref :: "(ref_rr Msg \<Rightarrow> 'w \<Rightarrow> (error + ref_rr Msg) \<times> 'w) \<Rightarrow> (ref_rr, 'w) client_pkg" where
  "client_ref handler =
     \<lparr>SetQuestion = (\<lambda>name qtype. (ref_updateMsg name)\<lparr>msg_Opcode := OpcodeQuery, msg_RecursionDesired := True,
        msg_Question := [\<lparr>q_Name = name, q_Qtype = qtype, q_Qclass = ClassINET\<rparr>]\<rparr>),
      SetUpdate = ref_updateMsg,
      msg_Insert = ref_addNs (\<lambda>rr. rr\<lparr>rf_class := ClassINET\<rparr>),
      msg_Remove = ref_addNs (\<lambda>rr. rr\<lparr>rf_class := ClassNONE, rf_ttl := 0\<rparr>),
      msg_RemoveRRset = ref_addNs (\<lambda>rr. rr\<lparr>rf_class := ClassANY, rf_ttl := 0\<rparr>),
      msg_RemoveName = ref_addNs (\<lambda>rr. rr\<lparr>rf_class := ClassANY, rf_ttl := 0, rf_type := TypeANY\<rparr>),
      ANY_RR = (\<lambda>name type class ttl. \<lparr>rf_name = name, rf_ttl = ttl, rf_class = class, rf_type = type, rf_data = []\<rparr>),
      ExchangeContext = (\<lambda>c m addr w. case handler m w of (Inr reply, w') \<Rightarrow> (Inr (reply, 0), w') | (Inl _, w') \<Rightarrow> (Inl ''i/o timeout'', w')),
      as_A = ref_data TypeA, as_AAAA = ref_data TypeAAAA, as_CNAME = ref_data TypeCNAME, as_NS = ref_data TypeNS,
      as_MX = (\<lambda>rr. map_option (\<lambda>d. (d, 10)) (ref_data TypeMX rr)), as_TXT = (\<lambda>rr. map_option (\<lambda>d. [d]) (ref_data TypeTXT rr)),
      as_SRV = (\<lambda>rr. map_option (\<lambda>d. (d, 0, 0, 0)) (ref_data TypeSRV rr))\<rparr>"

lemma delivers_ref: "delivers (client_ref handler) addr handler"
  by (simp add: delivers_def client_ref_def)

lemma no_space: "CHR '' '' \<notin> set (dec n)" "hostname s \<Longrightarrow> CHR '' '' \<notin> set s"
  by (rule digits_no_char [OF dec_digits]) (auto simp: isDigit_def hostname_def list_all_iff)

lemma table_no_space:
  "map_of ref_classes c = Some w \<Longrightarrow> hostname (map lowerByte w) \<and> CHR '' '' \<notin> set w \<and> w \<noteq> [] \<and> List.find (\<lambda>e. snd e = w) ref_classes = Some (c, w)"
  "map_of ref_types t = Some w \<Longrightarrow> hostname (map lowerByte w) \<and> CHR '' '' \<notin> set w \<and> w \<noteq> [] \<and> List.find (\<lambda>e. snd e = w) ref_types = Some (t, w)"
proof -
  have "list_all (\<lambda>(c, w). hostname (map lowerByte w) \<and> CHR '' '' \<notin> set w \<and> w \<noteq> [] \<and> List.find (\<lambda>e. snd e = w) ref_classes = Some (c, w)) ref_classes"
    "list_all (\<lambda>(c, w). hostname (map lowerByte w) \<and> CHR '' '' \<notin> set w \<and> w \<noteq> [] \<and> List.find (\<lambda>e. snd e = w) ref_types = Some (c, w)) ref_types"
    by code_simp+
  then show "map_of ref_classes c = Some w \<Longrightarrow> hostname (map lowerByte w) \<and> CHR '' '' \<notin> set w \<and> w \<noteq> [] \<and> List.find (\<lambda>e. snd e = w) ref_classes = Some (c, w)"
    "map_of ref_types t = Some w \<Longrightarrow> hostname (map lowerByte w) \<and> CHR '' '' \<notin> set w \<and> w \<noteq> [] \<and> List.find (\<lambda>e. snd e = w) ref_types = Some (t, w)"
    by (auto simp: list_all_iff dest!: map_of_SomeD)
qed

lemma find_number: "List.find (\<lambda>e. snd e = dec n) ref_classes = None" "List.find (\<lambda>e. snd e = dec n) ref_types = None"
proof -
  have "list_all isDigit (dec n)" "dec n \<noteq> []" by (simp_all add: dec_digits)
  then have hd: "isDigit (hd (dec n))" by (cases "dec n") auto
  have "list_all (\<lambda>e. \<not> isDigit (hd (snd e))) ref_classes" "list_all (\<lambda>e. \<not> isDigit (hd (snd e))) ref_types" by code_simp+
  with hd show "List.find (\<lambda>e. snd e = dec n) ref_classes = None" "List.find (\<lambda>e. snd e = dec n) ref_types = None"
    by (auto simp: find_None_iff list_all_iff)
qed

lemma rr_ref_line_ok: "rr_line_ok rr_ref"
proof -
  have "rf_name rr = rec_Name r \<and> rf_ttl rr = rec_TTL r \<and> rf_class rr = rec_Class r \<and> rf_type rr = rec_Type r"
    if line: "record_RR rr_ref r = Inr (Some rr)" and host: "hostname (rec_Name r)" for r rr
  proof -
    define cw tw where "cw = classText rr_ref (rec_Class r)" and "tw = typeText rr_ref (rec_Type r)"
    have c: "CHR '' '' \<notin> set cw" "CHR '' '' \<notin> set tw"
      using no_space(1) table_no_space by (auto simp: cw_def tw_def classText_def typeText_def rr_ref_def split: option.splits)
    let ?text = "rec_Name r @ '' '' @ dec (unat (rec_TTL r)) @ '' '' @ cw @ '' '' @ tw @ '' '' @ rec_Data r"
    have split: "split_on (CHR '' '') ?text =
        [rec_Name r, dec (unat (rec_TTL r)), cw, tw] @ split_on (CHR '' '') (rec_Data r)"
      using no_space(1) no_space(2) [OF host] c by (simp add: split_on_append_sep split_on_no_sep)
    obtain d ds where d: "split_on (CHR '' '') (rec_Data r) = d # ds" by (cases "split_on (CHR '' '') (rec_Data r)") auto
    have "ref_NewRR ?text = Inr (Some rr)" using line
      by (auto simp: record_RR_def rr_ref_def cw_def tw_def classText_def typeText_def split: sum.splits)
    then have ws: "ref_line ([rec_Name r, dec (unat (rec_TTL r)), cw, tw] @ d # ds) = Inr (Some rr)"
      using split d by (auto simp: ref_NewRR_def split: if_split_asm)
    have known: "map_of ref_classes (rec_Class r) = Some cw" "map_of ref_types (rec_Type r) = Some tw"
      using ws find_number
      by (auto simp: ref_line_def cw_def tw_def classText_def typeText_def rr_ref_def split: option.splits)
    show ?thesis using ws table_no_space(1) [OF known(1)] table_no_space(2) [OF known(2)]
      by (auto simp: ref_line_def Let_def undec_dec)
  qed
  then show ?thesis by (simp add: rr_line_ok_def rr_ref_def)
qed

text \<open>The words of a line, as \<^verbatim>\<open>strings.Fields\<close> finds them.\<close>

definition word_char :: "char \<Rightarrow> bool" where
  "word_char c \<longleftrightarrow> (\<forall>w \<in> set spaceRunes. hd w \<noteq> c)"

lemma word_char_no_space: "word_char c \<Longrightarrow> List.find (\<lambda>w. prefix w (c # cs)) spaceRunes = None"
proof -
  assume c: "word_char c"
  have "\<not> prefix w (c # cs)" if w: "w \<in> set spaceRunes" for w
  proof
    assume "prefix w (c # cs)"
    with spaceRunes_not_Nil [OF w] have "hd w = c" by (cases w) simp_all
    with w c show False unfolding word_char_def by blast
  qed
  then show ?thesis by (simp add: find_None_ball)
qed

lemma Fields_space: "Fields (CHR '' '' # s) = Fields s"
proof -
  have "List.find (\<lambda>w. prefix w (CHR '' '' # s)) spaceRunes = Some '' ''" by (simp add: spaceRunes_def)
  then show ?thesis by (subst Fields.simps) simp
qed

lemma Fields_word: "w \<noteq> [] \<Longrightarrow> list_all word_char w \<Longrightarrow> Fields (w @ CHR '' '' # s) = w # Fields s"
proof (induction w)
  case (Cons c w)
  note none = word_char_no_space [of c "w @ CHR '' '' # s"]
  show ?case
  proof (cases w)
    case Nil
    have "List.find (\<lambda>w. prefix w (CHR '' '' # s)) spaceRunes \<noteq> None" by (simp add: spaceRunes_def)
    then show ?thesis using Cons.prems none Nil
      by (subst Fields.simps) (auto simp: Fields_space split: list.split)
  next
    case w: (Cons d w')
    have nxt: "List.find (\<lambda>v. prefix v (w @ CHR '' '' # s)) spaceRunes = None"
      using Cons.prems(2) word_char_no_space [of d "w' @ CHR '' '' # s"] w by simp
    have "Fields (w @ CHR '' '' # s) = w # Fields s" using Cons w by simp
    then show ?thesis using Cons.prems none nxt w by (subst Fields.simps) simp
  qed
qed simp

lemma word_chars:
  "hostname s \<Longrightarrow> list_all word_char s" "list_all word_char (dec n)"
  "map_of ref_classes c = Some w \<Longrightarrow> list_all word_char w" "map_of ref_types t = Some w \<Longrightarrow> list_all word_char w"
proof -
  have "list_all word_char ''abcdefghijklmnopqrstuvwxyz0123456789-_.*''" "list_all (\<lambda>e. list_all word_char (snd e)) ref_classes"
    "list_all (\<lambda>e. list_all word_char (snd e)) ref_types" unfolding word_char_def by code_simp+
  then show "hostname s \<Longrightarrow> list_all word_char s" "map_of ref_classes c = Some w \<Longrightarrow> list_all word_char w"
    "map_of ref_types t = Some w \<Longrightarrow> list_all word_char w"
    by (auto simp: list_all_iff hostname_def dest!: map_of_SomeD simp del: set_simps)
  have "word_char c" if "isDigit c" for c
    using that by (auto simp: word_char_def isDigit_def spaceRunes_def)
  then show "list_all word_char (dec n)" using dec_digits [of n] by (auto simp: list_all_iff)
qed

lemma rdata_ref:
  assumes "hostname (rf_name rr)" and "rf_name rr \<noteq> []" and "rf_class rr \<in> fst ` set ref_classes" and "rf_type rr \<in> fst ` set ref_types"
  shows "rdata rr_ref rr = Fields (rf_data rr)"
proof -
  obtain cw tw where known: "map_of ref_classes (rf_class rr) = Some cw" "map_of ref_types (rf_type rr) = Some tw"
    using assms(3,4) by (metis map_of_eq_None_iff not_None_eq)
  note cw = table_no_space(1) [OF known(1)] word_chars(3) [OF known(1)] and tw = table_no_space(2) [OF known(2)] word_chars(4) [OF known(2)]
  have "rr_String rr_ref rr = rf_name rr @ CHR '' '' # dec (unat (rf_ttl rr)) @ CHR '' '' # cw @ CHR '' '' # tw @ CHR '' '' # rf_data rr"
    by (simp add: rr_ref_def ref_text_def known)
  then have "Fields (rr_String rr_ref rr) = [rf_name rr, dec (unat (rf_ttl rr)), cw, tw] @ Fields (rf_data rr)"
    using assms(1,2) cw tw word_chars(1,2) by (simp add: Fields_word)
  then show ?thesis by (simp add: rdata_def)
qed

lemma host_rr_ref:
  assumes "host_rr rr_ref rr"
  shows "hostname (rf_name rr)" and "rf_name rr \<noteq> []" and "rf_class rr \<in> fst ` set ref_classes" and "rf_type rr \<in> fst ` set ref_types"
proof -
  obtain r where r: "record_RR rr_ref r = Inr (Some rr)" "hostname (rec_Name r)" "rec_Name r \<noteq> []" using assms by (auto simp: host_rr_def)
  have hdr: "rr_Name rr_ref rr = rec_Name r" using rr_ref_line_ok r by (simp add: rr_line_ok_def)
  then show "hostname (rf_name rr)" "rf_name rr \<noteq> []" using r by (simp_all add: rr_ref_def)
  obtain ws where line: "ref_line ws = Inr (Some rr)"
    using r(1) by (auto simp: record_RR_def rr_ref_def ref_NewRR_def split: sum.splits if_split_asm)
  obtain n t c ty d ds where ws: "ws = n # t # c # ty # d # ds" using line by (auto simp: ref_line_def split: list.splits)
  obtain cn cw tn tw where found: "List.find (\<lambda>e. snd e = c) ref_classes = Some (cn, cw)" "List.find (\<lambda>e. snd e = ty) ref_types = Some (tn, tw)"
    using line by (auto simp: ref_line_def ws split: option.splits prod.splits)
  have "(cn, cw) \<in> set ref_classes" "(tn, tw) \<in> set ref_types"
    using found by (metis find_Some_iff nth_mem)+
  moreover have "rf_class rr = cn" "rf_type rr = tn" using line found by (auto simp: ref_line_def ws Let_def split: if_split_asm)
  ultimately show "rf_class rr \<in> fst ` set ref_classes" "rf_type rr \<in> fst ` set ref_types" by force+
qed

lemma client_ref_ok: "client_pkg_ok rr_ref (client_ref handler)"
proof -
  have rr: "rr_Name rr_ref = rf_name" "rr_Ttl rr_ref = rf_ttl" "rr_Class rr_ref = rf_class" "rr_Rrtype rr_ref = rf_type"
    by (simp_all add: rr_ref_def)
  have classes: "ClassINET \<in> fst ` set ref_classes" "ClassNONE \<in> fst ` set ref_classes" by (simp_all add: ref_classes_def)
  have stamp: "restamped rr_ref c t rr (rr\<lparr>rf_class := c, rf_ttl := t\<rparr>)" if "host_rr rr_ref rr" "c \<in> fst ` set ref_classes" for c t rr
    using rdata_ref [OF host_rr_ref [OF that(1)]] rdata_ref [of "rr\<lparr>rf_class := c, rf_ttl := t\<rparr>"] host_rr_ref [OF that(1)] that(2)
    by (simp add: restamped_def rr)
  have "restamped rr_ref ClassINET (rf_ttl rr) rr (rr\<lparr>rf_class := ClassINET\<rparr>)" if "host_rr rr_ref rr" for rr
    using stamp [OF that classes(1), of "rf_ttl rr"] by (cases rr) simp
  with stamp [OF _ classes(2)] show ?thesis
    by (auto simp: client_pkg_ok_def client_ref_def ref_addNs_def ref_updateMsg_def update_msg_def rr)
qed

section \<open>Properties of the server's own client\<close>


abbreviation ref_handler where
  "ref_handler \<equiv> serveDNS rr_ref set_ref trie_ref hot_ref msg_ref"

definition net_server :: "(_, _, (string \<times> string) list, unit, nat, nat, nat) Server" where
  "net_server = NewServerWithRepository hot_ref \<lparr>cfg_Listen = []\<rparr> (Some (memory_repo rr_ref mapping_ref)) []"

definition net_record :: Record where
  "net_record = \<lparr>rec_Zone = ''Example.org'', rec_Name = ''a.example.org.'', rec_TTL = 60, rec_Class = 0, rec_Type = TypeA, rec_Data = '' 192.0.2.1''\<rparr>"

definition net_normal :: Record where
  "net_normal = \<lparr>rec_Zone = ''example.org.'', rec_Name = ''a.example.org.'', rec_TTL = 60, rec_Class = ClassINET, rec_Type = TypeA, rec_Data = ''192.0.2.1''\<rparr>"

lemma wired_net_server: "wired (memory_repo rr_ref mapping_ref) net_server"
  by (simp add: net_server_def)

lemma net_facts: "plain_record net_record" "NormalizeRecord rr_ref net_record = Inr net_normal" "rec_Class net_normal = ClassINET"
  by code_simp+

lemma net_canonical: "canonical rr_ref net_normal (upd_rr ''a.example.org.'' ClassINET TypeA ''192.0.2.1'')"
  by code_simp

theorem RecordFromRR_record_RR_witness:
  "RecordFromRR rr_ref ''example.org.'' (Some (upd_rr ''a.example.org.'' ClassINET TypeA ''192.0.2.1'')) = Inr net_normal"
  using RecordFromRR_record_RR [OF rr_ref_line_ok
      normal_record_NormalizeRecord [OF names_pkg_ok_rr_ref net_facts(1,2)] net_canonical]
  by (simp add: net_normal_def)




text \<open>
  \<^verbatim>\<open>Server.UpsertRRSet\<close> adds the records and does not replace the RRset, as \<^verbatim>\<open>Manager.UpsertRRSet\<close> does: it sends them with
  \<^verbatim>\<open>UpdateAdd\<close> and no deletion.
\<close>

definition old_address :: "Record" where
  "old_address = net_normal\<lparr>rec_Data := ''192.0.2.9''\<rparr>"

lemma Server_UpsertRRSet_only_adds:
  "let s = snd (ms_SaveRecord rr_ref mapping_ref old_address (NewMemoryStore mapping_ref));
       remote = srv_UpsertRRSet rr_ref set_ref (ref_network :: (unit, _, _, _, _) net_pkg) (client_ref ref_handler) (Some net_server)
         ''example.org'' ''a.example.org'' TypeA [net_record] [] (net_server, s);
       direct = mgr_UpsertRRSet rr_ref set_ref (mem_mgr rr_ref mapping_ref) ''example.org'' ''a.example.org'' TypeA [net_record] s in
   map_sum id (msg_Rcode \<circ> fst) (fst remote) = Inr RcodeSuccess \<and>
   ms_Lookup rr_ref mapping_ref ''example.org'' ''a.example.org'' TypeA ClassINET (snd (snd remote)) = Inr [net_normal, old_address] \<and>
   ms_Lookup rr_ref mapping_ref ''example.org'' ''a.example.org'' TypeA ClassINET (snd direct) = Inr [net_normal]"
  by code_simp

text \<open>
  \<^verbatim>\<open>Server.UpsertRecord\<close> stores a record of another class under class IN, because the update carries the class of
  the zone.
\<close>

lemma Server_UpsertRecord_changes_class:
  "let record = net_record\<lparr>rec_Class := ClassNONE\<rparr>;
       remote = srv_UpsertRecord rr_ref (ref_network :: (unit, _, _, _, _) net_pkg) (client_ref ref_handler) (Some net_server)
         record [] (net_server, NewMemoryStore mapping_ref) in
   map_sum id (msg_Rcode \<circ> fst) (fst remote) = Inr RcodeSuccess \<and>
   ms_ListRecords rr_ref mapping_ref (zone_filter ''example.org.'') (snd (snd remote)) = Inr [net_normal]"
  by code_simp

section \<open>Construction and admission\<close>


text \<open>
  A resolver and the option \<^verbatim>\<open>WithManager\<close> together give a server that writes to the repository of the manager and
  answers from the repository of the resolver, when they differ.
\<close>

lemma NewServerWithResolver_split:
  "let srv = NewServerWithResolver H config (Some r) [Some (WithManager (Some m))] in
   srv_manager srv = Some m \<and> srv_resolver srv = Some r \<and> srv_repo srv = Some (rsv_repo r)"
  by (cases "mgr_repo m")
    (simp_all add: NewServerWithResolver_def NewServer_def WithManager_def syncManagedComponents_def ensureHandler_def Let_def)

text \<open>
  \<^verbatim>\<open>acceptMsg\<close> admits a message exactly when bits 11 to 14 of its flags are the operation code UPDATE, whatever its
  other bits; every other message is left to the DNS package.
\<close>

theorem acceptMsg_reads_opcode:
  "acceptMsg accept dflt (bits, rest) = (if (uint bits div 2048) mod 16 = 5 then accept else dflt (bits, rest))"
proof -
  have uint_shift: "uint (drop_bit 11 bits) = drop_bit 11 (uint bits)"
    by (rule bit_eqI) (simp add: bit_unsigned_iff bit_drop_bit_eq)
  have fifteen: "(15::int) = mask 4" by (simp add: mask_eq_exp_minus_1)
  have "and (uint (drop_bit 11 bits)) 15 = take_bit 4 (drop_bit 11 (uint bits))"
    unfolding fifteen uint_shift by (simp only: take_bit_eq_mask)
  also have "\<dots> = (uint bits div 2048) mod 16" by (simp only: take_bit_eq_mod drop_bit_eq_div) simp
  finally show ?thesis by (simp only: acceptMsg_def Let_def fst_conv)
qed

text \<open>
  Responses are admitted as well, which \<^verbatim>\<open>DefaultMsgAcceptFunc\<close> ignores: the server answers a response to an update with
  another response.
\<close>

lemma acceptMsg_admits_responses: "acceptMsg accept dflt (0xA800, rest) = accept"
  by (simp add: acceptMsg_def)

end
