(* ===== verification/Command_App.thy ===== *)
theory Command_App
  imports Admin_Server Store_Files Server_Client
begin

text \<open>
  The application of the command, \<^verbatim>\<open>cmd/server/app.go\<close>: its modules, the opening of the store with an optional seed, and the
  resolver, manager and server made from the configuration. The results are about the whole: a
  server for DNS and an administrator's HTTP interface on one store.
\<close>

section \<open>The modules: github.com/arcgolabs/dix\<close>

text \<open>
  The application is declared as modules of providers, functions from the values they need to the value they make, and
  hooks that run at the start and at the end; values are named by their Go type.
\<close>

datatype dix_type = T_Config | T_Logger | T_Store | T_Resolver | T_Manager | T_ServerConfig | T_Server | T_HTTPConfig | T_adminServer

record dix_provider =
  prv_Name :: string
  prv_Inputs :: "dix_type list"
  prv_Output :: dix_type

datatype dix_hook = OnStart dix_type | OnStop dix_type

record dix_module =
  mod_Name :: string
  mod_Imports :: "string list"
  mod_Providers :: "dix_provider list"
  mod_Hooks :: "dix_hook list"

definition provider :: "string \<Rightarrow> dix_type list \<Rightarrow> dix_type \<Rightarrow> dix_provider" where
  "provider name inputs out = \<lparr>prv_Name = name, prv_Inputs = inputs, prv_Output = out\<rparr>"

definition newApp :: "dix_module list" where
  "newApp =
     [\<lparr>mod_Name = ''config'', mod_Imports = [], mod_Providers = [provider ''cfg'' [] T_Config], mod_Hooks = []\<rparr>,
      \<lparr>mod_Name = ''log'', mod_Imports = [''config''], mod_Providers = [provider ''newLogger'' [T_Config] T_Logger],
       mod_Hooks = [OnStop T_Logger]\<rparr>,
      \<lparr>mod_Name = ''infra'', mod_Imports = [''config'', ''log''],
       mod_Providers = [provider ''openStore'' [T_Config, T_Logger] T_Store, provider ''newResolver'' [T_Config, T_Store, T_Logger] T_Resolver,
                        provider ''newManager'' [T_Store, T_Logger] T_Manager],
       mod_Hooks = [OnStop T_Store]\<rparr>,
      \<lparr>mod_Name = ''server'', mod_Imports = [''config'', ''log'', ''infra''],
       mod_Providers = [provider ''newServerConfig'' [T_Config] T_ServerConfig,
                        provider ''newDNSServer'' [T_ServerConfig, T_Resolver, T_Manager, T_Logger] T_Server],
       mod_Hooks = [OnStart T_Server, OnStop T_Server]\<rparr>,
      \<lparr>mod_Name = ''admin'', mod_Imports = [''config'', ''log'', ''infra''],
       mod_Providers = [provider ''newHTTPConfig'' [T_Config] T_HTTPConfig,
                        provider ''newAdminServer'' [T_HTTPConfig, T_Logger, T_Manager] T_adminServer],
       mod_Hooks = [OnStart T_adminServer, OnStop T_adminServer]\<rparr>]"

text \<open>
  Every value a provider or a hook needs is made by the module or one it imports, no value is made twice, and every
  provider uses values of providers before it, so there is no cycle.
\<close>

definition hook_type :: "dix_hook \<Rightarrow> dix_type" where
  "hook_type h = (case h of OnStart t \<Rightarrow> t | OnStop t \<Rightarrow> t)"

definition visible :: "dix_module list \<Rightarrow> dix_module \<Rightarrow> dix_type list" where
  "visible ms m = concat (map (\<lambda>m'. map prv_Output (mod_Providers m'))
     (filter (\<lambda>m'. mod_Name m' = mod_Name m \<or> mod_Name m' \<in> set (mod_Imports m)) ms))"

fun ordered :: "dix_type list \<Rightarrow> dix_provider list \<Rightarrow> bool" where
  "ordered made [] \<longleftrightarrow> True"
| "ordered made (p # ps) \<longleftrightarrow> set (prv_Inputs p) \<subseteq> set made \<and> prv_Output p \<notin> set made \<and> ordered (prv_Output p # made) ps"

lemma newApp_wiring:
  "list_all (\<lambda>m. list_all (\<lambda>p. set (prv_Inputs p) \<subseteq> set (visible newApp m)) (mod_Providers m) \<and>
     list_all (\<lambda>h. hook_type h \<in> set (visible newApp m)) (mod_Hooks m)) newApp"
  "ordered [] (concat (map mod_Providers newApp))"
  by code_simp+

section \<open>The providers\<close>

text \<open>The world \<open>'w\<close> of files: databases and seed files.\<close>

record ('d, 'w) file_pkg =
  bboltx_Open :: "string \<Rightarrow> (string, 'd, 'w) action"
  ReadFile :: "string \<Rightarrow> 'w \<Rightarrow> string + string"
  SeedFromJSON :: "string \<Rightarrow> string + SeedData"

text \<open>
  \<open>openStore\<close> returns the store, or fails after it has closed the store it opened; the second component is that
  store, an object of the process, the third the world.
\<close>

definition openStore ::
  "'x names_pkg_scheme \<Rightarrow> 'o set_pkg \<Rightarrow> ('d, 't) bolt_pkg \<Rightarrow> ('d, 'w) file_pkg \<Rightarrow> Cmd_Config \<Rightarrow> 'w \<Rightarrow>
     (error + 'd Store) \<times> 'd Store option \<times> 'w" where
  "openStore E OS B F cfg w =
     (case bs_Open (bboltx_Open F) (st_Path (cmd_Storage cfg)) w of
        (Inl err, w') \<Rightarrow> (Inl err, None, w')
      | (Inr store, w') \<Rightarrow>
         (if sd_File (cmd_Seed cfg) = [] then (Inr store, Some store, w')
          else
            case LoadSeedData (\<lambda>path. ReadFile F path w') (SeedFromJSON F) (sd_File (cmd_Seed cfg)) of
              Inl err \<Rightarrow> (Inl err, Some (snd (bs_Close B store)), w')
            | Inr seed \<Rightarrow>
               (case ApplySeedData E OS (bbolt_repo E B) seed store of
                  (Inl err, store') \<Rightarrow> (Inl err, Some (snd (bs_Close B store')), w')
                | (Inr _, store') \<Rightarrow> (Inr store', Some store', w'))))"

definition resolverMaxTTL :: "bool \<Rightarrow> Duration" where
  "resolverMaxTTL isDebug = (if isDebug then 5 * Second else 30 * Second)"

text \<open>\<open>isDebug\<close> is \<^verbatim>\<open>logger.Enabled(LevelDebug)\<close>; the loggers themselves are left out.\<close>

definition cmd_newResolver ::
  "'x names_pkg_scheme \<Rightarrow> ('d, 't) bolt_pkg \<Rightarrow> 'c cache_pkg \<Rightarrow> bool \<Rightarrow> Cmd_Config \<Rightarrow> ('d Store, 'c, 'tr) Resolver" where
  "cmd_newResolver E B H isDebug cfg =
     (let cacheConfig =
        \<lparr>cfg_Capacity = cc_Capacity (cmd_Cache cfg), cfg_Algorithm = cc_Algorithm (cmd_Cache cfg), cfg_Janitor = cc_Janitor (cmd_Cache cfg),
         cfg_MissingCapacity = cc_MissingCapacity (cmd_Cache cfg), cfg_MissingAlgorithm = cc_MissingAlgorithm (cmd_Cache cfg)\<rparr> in
      NewResolver H (bbolt_repo E B) [Some (WithCache H cacheConfig), Some (WithMaxCacheTTL (resolverMaxTTL isDebug))])"

definition cmd_newManager :: "'x names_pkg_scheme \<Rightarrow> ('d, 't) bolt_pkg \<Rightarrow> 'd Store Manager" where
  "cmd_newManager E B = NewManager (Some (bbolt_repo E B))"

definition newServerConfig :: "Cmd_Config \<Rightarrow> Config" where
  "newServerConfig cfg = \<lparr>cfg_Listen = sc_Listen (cmd_Server cfg)\<rparr>"

definition newHTTPConfig :: "Cmd_Config \<Rightarrow> HTTPConfig" where
  "newHTTPConfig cfg = cmd_HTTP cfg"

definition newDNSServer ::
  "'c cache_pkg \<Rightarrow> Config \<Rightarrow> ('s, 'c, 'tr) Resolver \<Rightarrow> 's Manager \<Rightarrow> ('s, 'c, 'tr, 'h, 'u, 'l, 'd) Server" where
  "newDNSServer H cfg resolver manager =
     NewServerWithResolver H cfg (Some resolver) [Some (WithManager (Some manager))]"

section \<open>Opening the store\<close>

definition plain_seed_file :: "('d, 'w) file_pkg \<Rightarrow> bool" where
  "plain_seed_file F \<longleftrightarrow> (\<forall>content seed. SeedFromJSON F content = Inr seed \<longrightarrow> plain_seed seed)"

lemma saveSeed_closed:
  "bs_closed (snd (saveSeedZones (bbolt_repo E B) zs s)) = bs_closed s"
  "bs_closed (snd (saveSeedRecords (bbolt_repo E B) rs s)) = bs_closed s"
proof -
  have zone: "bs_closed (snd (repo_SaveZone (bbolt_repo E B) z s)) = bs_closed s" for z s
    using write_keeps_closed [of E B "WriteSaveZone z" s] by simp
  have row: "bs_closed (snd (repo_SaveRecord (bbolt_repo E B) r s)) = bs_closed s" for r s
    using write_keeps_closed [of E B "WriteSaveRecord r" s] by simp
  show "bs_closed (snd (saveSeedZones (bbolt_repo E B) zs s)) = bs_closed s"
  proof (induction zs arbitrary: s)
    case (Cons z zs)
    obtain x s1 where op: "repo_SaveZone (bbolt_repo E B) \<lparr>zone_Name = z\<rparr> s = (x, s1)"
      by (cases "repo_SaveZone (bbolt_repo E B) \<lparr>zone_Name = z\<rparr> s")
    with zone [of "\<lparr>zone_Name = z\<rparr>" s] Cons.IH [of s1] show ?case by (cases x) simp_all
  qed simp
  show "bs_closed (snd (saveSeedRecords (bbolt_repo E B) rs s)) = bs_closed s"
  proof (induction rs arbitrary: s)
    case (Cons r rs)
    obtain x s1 where op: "repo_SaveRecord (bbolt_repo E B) r s = (x, s1)"
      by (cases "repo_SaveRecord (bbolt_repo E B) r s")
    with row [of r s] Cons.IH [of s1] show ?case by (cases x) simp_all
  qed simp
qed

lemma ApplySeedData_closed: "bs_closed (snd (ApplySeedData E OS (bbolt_repo E B) seed s)) = bs_closed s"
proof -
  have "saveSeedZones (bbolt_repo E B) zs s = (x, s') \<Longrightarrow> bs_closed s' = bs_closed s"
    "saveSeedRecords (bbolt_repo E B) rs s = (x, s') \<Longrightarrow> bs_closed s' = bs_closed s" for zs rs s x s'
    using saveSeed_closed [of E B] by (metis snd_conv)+
  then show ?thesis by (auto simp: ApplySeedData_def saveSeed_closed(2) split: sum.split prod.split)
qed

lemma bs_Close_closed: "bs_closed (snd (bs_Close B s))"
  by (auto simp: bs_Close_def split: prod.split sum.split)

lemma openStore_cases:
  assumes "names_pkg_ok E" and "set_pkg_ok OS" and "plain_seed_file F"
    and "bboltx_Open F (st_Path (cmd_Storage cfg)) w = (Inr d, w')" and "bolt_inv E B (bs_New d)"
    and "openStore E OS B F cfg w = (res, opened, w'')"
  obtains (failed) err where "res = Inl err" and "opened = Some (snd (bs_Close B (bs_New d)))"
  | (plain) "sd_File (cmd_Seed cfg) = []" and "res = Inr (bs_New d)" and "opened = Some (bs_New d)"
  | (seeded) store seed rs where "sd_File (cmd_Seed cfg) \<noteq> []" and "res = Inr store" and "opened = Some store" and "\<not> bs_closed store"
      and "bolt_inv E B store"
      and "LoadSeedData (\<lambda>path. ReadFile F path w') (SeedFromJSON F) (sd_File (cmd_Seed cfg)) = Inr seed"
      and "\<exists>ns. list_all2 (\<lambda>r n. NormalizeRecord E r = Inr n) (seed_Records seed) ns \<and> rs = first_by (Key E) {} ns"
      and "\<forall>z. zone_valid z True {r \<in> set rs. rec_Zone r = z}"
      and "abs_zones (bolt_content B store) = abs_zones (bolt_content B (bs_New d)) \<union> seed_names E seed"
      and "abs_records (bolt_content B store) = {v \<in> abs_records (bolt_content B (bs_New d)). Key E v \<notin> Key E ` set rs} \<union> set rs"
proof (cases "sd_File (cmd_Seed cfg) = []")
  case True
  then show thesis using plain assms(4,6) by (simp add: openStore_def bs_Open_def)
next
  case False
  show thesis
  proof (cases "LoadSeedData (\<lambda>path. ReadFile F path w') (SeedFromJSON F) (sd_File (cmd_Seed cfg))")
    case (Inl err)
    then show thesis using failed [of err] assms(4,6) False by (auto simp: openStore_def bs_Open_def)
  next
    case seed: (Inr seed)
    then have p: "plain_seed seed" using assms(3) by (auto simp: LoadSeedData_def plain_seed_file_def split: sum.splits)
    obtain x store where op: "ApplySeedData E OS (bbolt_repo E B) seed (bs_New d) = (x, store)"
      by (cases "ApplySeedData E OS (bbolt_repo E B) seed (bs_New d)")
    have open_: "\<not> bs_closed store" using ApplySeedData_closed [of E OS B seed "bs_New d"] unfolding op by (simp add: bs_New_def)
    show thesis
    proof (rule bolt.ApplySeedData_cases [OF assms(5,2) p op])
      fix err assume "x = Inl err" "store = bs_New d"
      then show thesis using failed [of err] assms(4,6) False seed op by (auto simp: openStore_def bs_Open_def)
    next
      fix rs
      assume x: "x = Inr ()" and c: "bolt_inv E B store"
        "\<exists>ns. list_all2 (\<lambda>r n. NormalizeRecord E r = Inr n) (seed_Records seed) ns \<and> rs = first_by (Key E) {} ns"
        "\<forall>z. zone_valid z True {r \<in> set rs. rec_Zone r = z}"
        "abs_zones (bolt_content B store) = abs_zones (bolt_content B (bs_New d)) \<union> seed_names E seed"
        "abs_records (bolt_content B store) = {v \<in> abs_records (bolt_content B (bs_New d)). Key E v \<notin> Key E ` set rs} \<union> set rs"
      have "res = Inr store" "opened = Some store" using x assms(4,6) False seed op by (simp_all add: openStore_def bs_Open_def)
      from seeded [OF False this open_ c(1) seed c(2-5)] show thesis .
    qed
  qed
qed

section \<open>Writes of the requests\<close>

text \<open>\<open>s'\<close> comes from \<open>s\<close> by \<open>n\<close> writes to the repository.\<close>

definition by_writes :: "'s Repository \<Rightarrow> nat \<Rightarrow> 's \<Rightarrow> 's \<Rightarrow> bool" where
  "by_writes R n s s' \<longleftrightarrow> (\<exists>ws. length ws = n \<and> s' = run_writes (repo_write R) ws s)"

definition some_writes :: "'s Repository \<Rightarrow> 's \<Rightarrow> 's \<Rightarrow> bool" where
  "some_writes R s s' \<longleftrightarrow> (\<exists>n. by_writes R n s s')"

lemma by_writes_zero: "s' = s \<Longrightarrow> by_writes R 0 s s'"
  by (simp add: by_writes_def run_writes_def)

lemma by_writes_one: "s' = snd (repo_write R w s) \<Longrightarrow> by_writes R 1 s s'"
  unfolding by_writes_def by (rule exI [of _ "[w]"]) (simp add: run_writes_def)

lemma some_writes_refl [simp]: "some_writes R s s"
  unfolding some_writes_def by (rule exI, rule by_writes_zero [OF refl])

lemma some_writes_write: "some_writes R s (snd (repo_write R w s))"
  unfolding some_writes_def by (rule exI, rule by_writes_one [OF refl])

lemma some_writes_trans: "some_writes R s s' \<Longrightarrow> some_writes R s' s'' \<Longrightarrow> some_writes R s s''"
proof -
  assume "some_writes R s s'" and "some_writes R s' s''"
  then obtain ws ws' where "s'' = run_writes (repo_write R) (ws @ ws') s" by (auto simp: some_writes_def by_writes_def run_writes_def)
  then show "some_writes R s s''" by (auto simp: some_writes_def by_writes_def)
qed

lemma repo_some_writes [simp]:
  "some_writes R s (snd (repo_SaveZone R z s))" "some_writes R s (snd (repo_DeleteZone R zn s))"
  "some_writes R s (snd (repo_SaveRecord R r s))" "some_writes R s (snd (repo_DeleteRecord R r s))"
  using some_writes_write [of R s "WriteSaveZone z"] some_writes_write [of R s "WriteDeleteZone zn"]
    some_writes_write [of R s "WriteSaveRecord r"] some_writes_write [of R s "WriteDeleteRecord r"] by simp_all

text \<open>A step that ends in \<open>s'\<close>, and a step followed by another.\<close>

lemma some_writes_result:
  "some_writes R s (snd res) \<Longrightarrow> some_writes R s (snd (case res of (Inl err, s') \<Rightarrow> (f err, s') | (Inr x, s') \<Rightarrow> (g x, s')))"
  by simp

lemma some_writes_bind:
  assumes "some_writes R s (snd res)" and "\<And>x s'. some_writes R s' (snd (f x s'))"
  shows "some_writes R s (snd (case res of (Inl err, s') \<Rightarrow> (Inl err, s') | (Inr x, s') \<Rightarrow> f x s'))"
  using assms(1) some_writes_trans [OF _ assms(2)] by (cases res; cases "fst res") auto

lemma mgr_some_writes [simp]:
  "some_writes R s (snd (mgr_UpsertZone E (mgr_of R) zone s))"
  "some_writes R s (snd (mgr_DeleteZone E (mgr_of R) zn s))"
  "some_writes R s (snd (mgr_UpsertRecord E OS (mgr_of R) r s))"
  "some_writes R s (snd (mgr_DeleteRecord E (mgr_of R) r s))"
  by (simp_all add: mgr_UpsertZone_def mgr_DeleteZone_def mgr_UpsertRecord_def mgr_DeleteRecord_def split: sum.split)

lemma deleteRecords_some_writes [simp]: "some_writes R s (snd (deleteRecords E (mgr_of R) n rs s))"
  by (induction rs arbitrary: n s) (simp_all add: some_writes_bind)

lemma mgr_delete_some_writes [simp]:
  "some_writes R s (snd (mgr_DeleteRRSet E (mgr_of R) zn name t s))" "some_writes R s (snd (mgr_DeleteName E (mgr_of R) zn name s))"
  by (simp_all add: mgr_DeleteRRSet_def mgr_DeleteName_def split: sum.split prod.split)

lemma seed_some_writes [simp]:
  "some_writes R s (snd (saveSeedZones R zs s))" "some_writes R s (snd (saveSeedRecords R rs s))"
  by (induction zs arbitrary: s) (simp_all add: some_writes_bind, induction rs arbitrary: s, simp_all add: some_writes_bind)

lemma ImportSeedData_some_writes [simp]: "some_writes R s (snd (ImportSeedData E OS (mgr_of R) seed s))"
  by (auto simp: ImportSeedData_def intro!: some_writes_bind split: sum.split)

lemma snd_noResult [simp]: "snd (noResult res) = snd res"
  by (simp add: noResult_def)

lemma applyUpdate_some_writes:
  assumes "wired R srv"
  shows "some_writes R s (snd (applyUpdate E OS srv z rrs s))"
proof -
  have one: "some_writes R s (snd (applyUpdateRR E OS srv z rr s))" for rr s
    using assms
    by (auto simp: applyUpdateRR_def applyAnyClassUpdate_def applyDeleteRecordUpdate_def applySaveRecordUpdate_def upd_deleteName_def
        upd_deleteRRSet_def upd_deleteRecord_def upd_saveRecord_def wired_def split: option.split sum.split)
  show ?thesis by (induction rrs arbitrary: s) (simp_all add: some_writes_bind one)
qed

lemma serveDNS_some_writes:
  assumes "wired R srv"
  shows "some_writes R s (snd (snd (serveDNS E OS T H G m (srv, s))))"
  using snd_serveUpdate [of E OS G srv m s] applyUpdate_some_writes [OF assms, of s E OS]
  by (auto simp: serveDNS_def split: option.split prod.split sum.splits if_splits)

lemma newAdminHandler_some_writes: "some_writes R s (snd (newAdminHandler E OS P (mgr_of R) request s))"
  by (simp add: newAdminHandler_def handleHealth_def handleZones_def handleZone_def handleRecords_def handleGetRecords_def handlePutRecord_def
      handleDeleteRecord_def handleSeedImport_def handler_manager_def Let_def split: route.split sum.split)

lemma mgr_UpsertRecord_writes: "\<exists>k \<le> 1. by_writes R k s (snd (mgr_UpsertRecord E OS (mgr_of R) r s))"
proof -
  have "snd (mgr_UpsertRecord E OS (mgr_of R) r s) = s \<or>
      (\<exists>n. snd (mgr_UpsertRecord E OS (mgr_of R) r s) = snd (repo_write R (WriteSaveRecord n) s))"
    by (simp add: mgr_UpsertRecord_def split: sum.split) blast
  then show ?thesis using by_writes_zero by_writes_one by (metis le_numeral_extra(3) le_numeral_extra(4) zero_le)
qed

lemma mgr_DeleteRecord_writes: "\<exists>k \<le> 1. by_writes R k s (snd (mgr_DeleteRecord E (mgr_of R) r s))"
proof -
  have "snd (mgr_DeleteRecord E (mgr_of R) r s) = s \<or>
      (\<exists>n. snd (mgr_DeleteRecord E (mgr_of R) r s) = snd (repo_write R (WriteDeleteRecord n) s))"
    by (simp add: mgr_DeleteRecord_def split: sum.split) blast
  then show ?thesis using by_writes_zero by_writes_one by (metis le_numeral_extra(3) le_numeral_extra(4) zero_le)
qed

lemma put_record_writes:
  assumes "muxRoute put = RouteRecords" and "req_Method put = ''PUT''"
  shows "\<exists>k \<le> 1. by_writes R k s (snd (newAdminHandler E OS P (mgr_of R) put s))"
proof -
  show ?thesis
  proof (cases "decodeJSONBody (UnmarshalRecord P) put")
    case (Inl err)
    then have "snd (newAdminHandler E OS P (mgr_of R) put s) = s"
      using assms by (simp add: newAdminHandler_routes handleRecords_def requireManager_def handlePutRecord_def)
    then show ?thesis using by_writes_zero by (metis zero_le)
  next
    case (Inr r)
    then have "snd (newAdminHandler E OS P (mgr_of R) put s) = snd (mgr_UpsertRecord E OS (mgr_of R) r s)"
      using assms by (simp add: newAdminHandler_routes handleRecords_def requireManager_def handlePutRecord_def handler_manager_def)
    then show ?thesis using mgr_UpsertRecord_writes [of R s E OS r] by simp
  qed
qed

lemma single_update_writes:
  assumes "wired R srv" and "msg_Opcode m = OpcodeUpdate" and "msg_Ns m = [Some rr]" and "rr_Class E rr \<noteq> ClassANY"
  shows "\<exists>k \<le> 1. by_writes R k s (snd (snd (serveDNS E OS T H G m (srv, s))))"
proof -
  have none: "\<exists>k \<le> 1. by_writes R k s s" by (rule exI [of _ 0]) (simp add: by_writes_zero)
  have one: "\<exists>k \<le> 1. by_writes R k s (snd (applyUpdate E OS srv z [Some rr] s))" for z
  proof (cases "RecordFromRR E z (Some rr)")
    case (Inl err)
    then show ?thesis using none assms(4) by (simp add: applyUpdateRR_def applySaveRecordUpdate_def applyDeleteRecordUpdate_def)
  next
    case (Inr r)
    have "snd (applyUpdate E OS srv z [Some rr] s) =
        (if rr_Class E rr = ClassNONE then snd (mgr_DeleteRecord E (mgr_of R) (r\<lparr>rec_Class := ClassINET\<rparr>) s)
         else snd (mgr_UpsertRecord E OS (mgr_of R) r s))"
      using assms(1,4) Inr by (simp add: applyUpdateRR_def applySaveRecordUpdate_def applyDeleteRecordUpdate_def upd_saveRecord_def upd_deleteRecord_def
          wired_def noResult_def split: prod.split sum.split)
    then show ?thesis using mgr_UpsertRecord_writes [of R s E OS r] mgr_DeleteRecord_writes [of R s E "r\<lparr>rec_Class := ClassINET\<rparr>"] by simp
  qed
  have "snd (snd (serveDNS E OS T H G m (srv, s))) = snd (serveUpdate E OS G srv m s)"
    using assms(2) by (simp add: serveDNS_def split: prod.split)
  also have "\<exists>k \<le> 1. by_writes R k s \<dots>"
    unfolding snd_serveUpdate assms(3) using none one by (auto split: sum.split simp del: applyUpdate.simps)
  finally show ?thesis .
qed

section \<open>The application at work\<close>

text \<open>
  What happens to the application: a DNS message arrives, an HTTP request of an administrator arrives, or time passes in the
  cache of the resolver. Each request is handled as a whole.
\<close>

datatype 'rr event = DnsRequest "'rr Msg" | HttpRequest Request | Elapsed Duration

definition pass_time :: "'c cache_pkg \<Rightarrow> Duration \<Rightarrow> ('s, 'c, 'tr) Resolver \<Rightarrow> ('s, 'c, 'tr) Resolver" where
  "pass_time H t r =
     (case rsv_cache r of
        None \<Rightarrow> r
      | Some rc \<Rightarrow>
         (case rc_cache rc of
            None \<Rightarrow> r
          | Some cache \<Rightarrow> r\<lparr>rsv_cache := Some (rc\<lparr>rc_cache := Some (hot_Pass H t cache)\<rparr>)\<rparr>))"

fun app_step ::
  "('rr, 'x) rr_pkg_scheme \<Rightarrow> 'o set_pkg \<Rightarrow> 'tr trie_pkg \<Rightarrow> 'c cache_pkg \<Rightarrow> 'rr msg_pkg \<Rightarrow> 'p http_pkg_scheme \<Rightarrow>
     'rr event \<Rightarrow> ('s, 'c, 'tr, 'h, 'u, 'l, 'd) Server \<times> 's \<Rightarrow> ('s, 'c, 'tr, 'h, 'u, 'l, 'd) Server \<times> 's" where
  "app_step E OS T H G P (DnsRequest m) ss = snd (serveDNS E OS T H G m ss)"
| "app_step E OS T H G P (HttpRequest request) (srv, s) =
     (srv, snd (newAdminHandler E OS P (srv_manager srv) request s))"
| "app_step E OS T H G P (Elapsed t) (srv, s) = (srv\<lparr>srv_resolver := map_option (pass_time H t) (srv_resolver srv)\<rparr>, s)"

text \<open>
  The states after some events, with the number of writes to the store they took; every event takes some number
  (\<open>app_step_some_writes\<close>).
\<close>

inductive app_run ::
  "('rr, 'x) rr_pkg_scheme \<Rightarrow> 'o set_pkg \<Rightarrow> 'tr trie_pkg \<Rightarrow> 'c cache_pkg \<Rightarrow> 'rr msg_pkg \<Rightarrow> 'p http_pkg_scheme \<Rightarrow> 's Repository \<Rightarrow>
     ('s, 'c, 'tr, 'h, 'u, 'l, 'd) Server \<times> 's \<Rightarrow> nat \<Rightarrow> ('s, 'c, 'tr, 'h, 'u, 'l, 'd) Server \<times> 's \<Rightarrow> bool"
  for E :: "('rr, 'x) rr_pkg_scheme" and OS :: "'o set_pkg" and T :: "'tr trie_pkg" and H :: "'c cache_pkg" and G :: "'rr msg_pkg"
    and P :: "'p http_pkg_scheme" and R :: "'s Repository" and ss0 :: "('s, 'c, 'tr, 'h, 'u, 'l, 'd) Server \<times> 's"
where
  app_start: "app_run E OS T H G P R ss0 0 ss0"
| app_event: "app_run E OS T H G P R ss0 n ss \<Longrightarrow> ss' = app_step E OS T H G P event ss \<Longrightarrow> by_writes R k (snd ss) (snd ss') \<Longrightarrow>
    app_run E OS T H G P R ss0 (n + k) ss'"

text \<open>A server with its manager and resolver on one repository.\<close>

definition on_store :: "'s Repository \<Rightarrow> ('s, 'c, 'tr, 'h, 'u, 'l, 'd) Server \<Rightarrow> bool" where
  "on_store R srv \<longleftrightarrow> wired R srv \<and> (\<exists>r. srv_resolver srv = Some r \<and> rsv_repo r = R)"

lemma ServeDNS_resolver:
  "snd (ServeDNS E OS T H G m s r) = r \<or> (\<exists>q. snd (ServeDNS E OS T H G m s r) = snd (Resolve E OS T H q s r))"
proof -
  have "snd (ServeDNS E OS T H G m s r) \<in> {r, snd (Resolve E OS T H (msg_Question m ! 0) s r)}"
    by (simp add: ServeDNS_def Let_def split: prod.split sum.split error.split)
  then show ?thesis by blast
qed

lemma wired_step:
  "wired R (fst ss) \<Longrightarrow> wired R (fst (app_step E OS T H G P event ss))"
  by (cases event; cases ss) (auto simp: serveDNS_def wired_def split: option.split prod.split)

lemma app_step_some_writes:
  "wired R srv \<Longrightarrow> some_writes R s (snd (app_step E OS T H G P event (srv, s)))"
  using serveDNS_some_writes [of R srv s] newAdminHandler_some_writes [of R s]
  by (cases event) (auto simp: wired_def)

lemma app_run_exists:
  assumes "wired R (fst ss0)"
  shows "\<exists>n. app_run E OS T H G P R ss0 n (fold (app_step E OS T H G P) events ss0)"
proof -
  have "\<exists>n. app_run E OS T H G P R ss0 n (fold (app_step E OS T H G P) events ss0) \<and>
      wired R (fst (fold (app_step E OS T H G P) events ss0))"
  proof (induction events rule: rev_induct)
    case Nil
    show ?case using assms by (intro exI [of _ 0]) (simp add: app_start)
  next
    case (snoc event events)
    let ?ss = "fold (app_step E OS T H G P) events ss0"
    obtain n where n: "app_run E OS T H G P R ss0 n ?ss" "wired R (fst ?ss)" using snoc.IH by blast
    obtain k where "by_writes R k (snd ?ss) (snd (app_step E OS T H G P event ?ss))"
      using app_step_some_writes [OF n(2), of "snd ?ss" E OS T H G P event] by (auto simp: some_writes_def)
    from app_event [OF n(1) refl this] wired_step [OF n(2)] show ?case by auto
  qed
  then show ?thesis by blast
qed

subsection \<open>The cache does not show\<close>

context revisioned
begin

lemma serving_writes:
  assumes "rsv_repo r0 = R" and "rsv_revisionFunc r0 = rev" and "invar s"
    and "serving E OS T H r0 s0 (r, s)" and "unat (rev s) + 2 * length ws < 2 ^ 64"
  shows "serving E OS T H r0 s0 (r, run_writes (repo_write R) ws s) \<and> invar (run_writes (repo_write R) ws s) \<and>
    unat (rev (run_writes (repo_write R) ws s)) \<le> unat (rev s) + 2 * length ws"
  using assms(3-5)
proof (induction ws arbitrary: s)
  case (Cons w ws)
  obtain x s' where w: "repo_write R w s = (x, s')" by (cases "repo_write R w s")
  have rev': "unat (rev s') \<le> unat (rev s) + 2"
    using write_revision [OF Cons.prems(1) w] unat_add_small [of "rev s" 1] unat_add_small [of "rev s" 2] Cons.prems(3) by auto
  have "serving E OS T H r0 s0 (r, s')"
    using serving_write [OF Cons.prems(2), of w] Cons.prems(3) by (simp add: assms(1,2) w)
  with Cons.IH [of s'] write_invar [OF Cons.prems(1) w] rev' Cons.prems(3) show ?case by (auto simp: run_writes_def w)
qed (simp add: run_writes_def)

lemma app_run_serving:
  assumes "rsv_repo r0 = R" and "rsv_revisionFunc r0 = rev" and "invar s0" and "wired R srv0" and "srv_resolver srv0 = Some r0"
    and "app_run E OS T H G P R (srv0, s0) n ss" and "unat (rev s0) + 2 * n < 2 ^ 64"
  shows "\<exists>r. srv_resolver (fst ss) = Some r \<and> serving E OS T H r0 s0 (r, snd ss) \<and> invar (snd ss) \<and> wired R (fst ss) \<and>
    unat (rev (snd ss)) \<le> unat (rev s0) + 2 * n"
  using assms(6,7)
proof (induction rule: app_run.induct)
  case app_start
  then show ?case using assms(3-5) serving_start by auto
next
  case (app_event n ss ss' event k)
  obtain srv s where ss: "ss = (srv, s)" by (cases ss)
  obtain ws where ws: "length ws = k" "snd ss' = run_writes (repo_write R) ws s" using app_event.hyps(3) by (auto simp: by_writes_def ss)
  obtain r where r: "srv_resolver srv = Some r" "serving E OS T H r0 s0 (r, s)" "invar s" "wired R srv" "unat (rev s) \<le> unat (rev s0) + 2 * n"
    using app_event.IH app_event.prems by (auto simp: ss)
  have bound: "unat (rev s) + 2 * length ws < 2 ^ 64" using r(5) app_event.prems ws(1) by simp
  note moved = serving_writes [OF assms(1,2) r(3,2) bound]
  have wired': "wired R (fst ss')" using wired_step [of R ss] r(4) app_event.hyps(2) by (simp add: ss)
  have "\<exists>r'. srv_resolver (fst ss') = Some r' \<and> serving E OS T H r0 s0 (r', snd ss')"
  proof (cases event)
    case (DnsRequest m)
    show ?thesis
    proof (cases "msg_Opcode m = OpcodeQuery")
      case True
      then have "srv_resolver (fst ss') = Some (snd (ServeDNS E OS T H G m s r))" "snd ss' = s"
        using app_event.hyps(2) r(1) by (auto simp: DnsRequest ss serveDNS_def split: prod.split)
      then show ?thesis using ServeDNS_resolver [of E OS T H G m s r] r(2) serving_query [OF r(2)] by auto
    next
      case False
      then have "srv_resolver (fst ss') = Some r"
        using app_event.hyps(2) r(1) by (auto simp: DnsRequest ss serveDNS_def split: prod.split)
      with moved ws(2) show ?thesis by auto
    qed
  next
    case (HttpRequest request)
    then have "srv_resolver (fst ss') = Some r" using app_event.hyps(2) r(1) by (simp add: ss)
    with moved ws(2) show ?thesis by auto
  next
    case (Elapsed t)
    then have "srv_resolver (fst ss') = Some (pass_time H t r)" "snd ss' = s" using app_event.hyps(2) r(1) by (simp_all add: ss)
    moreover have "serving E OS T H r0 s0 (pass_time H t r, s)"
      using r(2) serving_time [OF r(2)] by (auto simp: pass_time_def split: option.split)
    ultimately show ?thesis by auto
  qed
  then show ?case using moved ws wired' r(5) by auto
qed

end

end
