(* ===== verification/Example_Programs.thy ===== *)
theory Example_Programs
  imports Command_App
begin

text \<open>
  The programs under \<^verbatim>\<open>examples/\<close>, which put the packages together: they open a database in a new directory, start a server on it,
  change and read records over the network, print what they see and clean up. What they print is in the theory
  \<open>Example_Output\<close>.
\<close>

section \<open>Programs\<close>

text \<open>
  What the programs take from the system: \<^verbatim>\<open>os.MkdirTemp\<close>, \<^verbatim>\<open>os.RemoveAll\<close>, \<^verbatim>\<open>bboltx.Open\<close>, the writing of a text by
  \<^verbatim>\<open>fmt.Printf\<close>, and the table \<^verbatim>\<open>dns.RcodeToString\<close>.
\<close>

record ('d, 'w) main_pkg =
  MkdirTemp :: "string \<Rightarrow> string \<Rightarrow> (string, string, 'w) action"
  RemoveAll :: "string \<Rightarrow> (string, unit, 'w) action"
  db_Open :: "string \<Rightarrow> (string, 'd, 'w) action"
  Printf :: "string \<Rightarrow> (string, unit, 'w) action"
  RcodeToString :: "int \<Rightarrow> string"

text \<open>The world, the server and the store once the program has made them, and the lines it has printed.\<close>

record ('c, 'tr, 'h, 'u, 'l, 'e, 'd, 'w) main_state =
  main_world :: 'w
  main_server :: "('d Store, 'c, 'tr, 'h, 'u, 'l, 'e) Server option"
  main_store :: "'d Store option"
  main_stdout :: "string list"

definition main_start :: "'w \<Rightarrow> ('c, 'tr, 'h, 'u, 'l, 'e, 'd, 'w) main_state" where
  "main_start w = \<lparr>main_world = w, main_server = None, main_store = None, main_stdout = []\<rparr>"

text \<open>
  \<^verbatim>\<open>must(err)\<close> panics with the error, so that the rest does not run; the result \<open>Inl err\<close> of a program is a panic with the
  value \<open>err\<close>. \<^verbatim>\<open>defer func() { must(cleanup()) }()\<close> runs the cleanup after the rest however that ends; a panic of its own
  replaces that of the rest.
\<close>

definition must :: "(error, 'a, 's) action \<Rightarrow> ('a \<Rightarrow> (error, 'b, 's) action) \<Rightarrow> (error, 'b, 's) action" where
  "must call rest s =
     (case call s of
        (Inl err, s') \<Rightarrow> (Inl err, s')
      | (Inr x, s') \<Rightarrow> rest x s')"

definition deferred :: "(error, unit, 's) action \<Rightarrow> (error, 'a, 's) action \<Rightarrow> (error, 'a, 's) action" where
  "deferred cleanup rest s =
     (case rest s of
        (res, s') \<Rightarrow>
          (case cleanup s' of
             (Inl err, s'') \<Rightarrow> (Inl err, s'')
           | (Inr _, s'') \<Rightarrow> (res, s'')))"

definition in_world :: "(string, 'a, 'w) action \<Rightarrow> (error, 'a, ('c, 'tr, 'h, 'u, 'l, 'e, 'd, 'w) main_state) action" where
  "in_world call p = (case call (main_world p) of (res, w) \<Rightarrow> (map_sum External id res, p\<lparr>main_world := w\<rparr>))"

definition open_store :: "('d, 'w) main_pkg \<Rightarrow> string \<Rightarrow> (error, unit, ('c, 'tr, 'h, 'u, 'l, 'e, 'd, 'w) main_state) action" where
  "open_store X path p =
     (case bs_Open (db_Open X) path (main_world p) of
        (Inl err, w) \<Rightarrow> (Inl err, p\<lparr>main_world := w\<rparr>)
      | (Inr store, w) \<Rightarrow> (Inr (), p\<lparr>main_world := w, main_store := Some store\<rparr>))"

definition with_store :: "(error, 'a, 'd Store) action \<Rightarrow> (error, 'a, ('c, 'tr, 'h, 'u, 'l, 'e, 'd, 'w) main_state) action" where
  "with_store call p =
     (case main_store p of
        None \<Rightarrow> (Inl (Panic ''nil pointer dereference''), p)
      | Some store \<Rightarrow> (case call store of (res, store') \<Rightarrow> (res, p\<lparr>main_store := Some store'\<rparr>)))"

definition start_server ::
  "('h, 'u, 'l, 'e, 'w) net_pkg \<Rightarrow> ('d Store, 'c, 'tr, 'h, 'u, 'l, 'e) Server \<Rightarrow> (error, unit, ('c, 'tr, 'h, 'u, 'l, 'e, 'd, 'w) main_state) action" where
  "start_server N server p =
     (case Start N (Some server) (main_world p) of (res, server', w) \<Rightarrow> (res, p\<lparr>main_server := server', main_world := w\<rparr>))"

definition stop_server :: "('h, 'u, 'l, 'e, 'w) net_pkg \<Rightarrow> (error, unit, ('c, 'tr, 'h, 'u, 'l, 'e, 'd, 'w) main_state) action" where
  "stop_server N p =
     (case Stop N (main_server p) (main_world p) of (res, server', w) \<Rightarrow> (res, p\<lparr>main_server := server', main_world := w\<rparr>))"

text \<open>A call that talks to the running server over the network and so changes it and its store.\<close>

definition with_server ::
  "(('d Store, 'c, 'tr, 'h, 'u, 'l, 'e) Server \<Rightarrow> (error, 'a, ('d Store, 'c, 'tr, 'h, 'u, 'l, 'e) Server \<times> 'd Store) action) \<Rightarrow>
     (error, 'a, ('c, 'tr, 'h, 'u, 'l, 'e, 'd, 'w) main_state) action" where
  "with_server call p =
     (case (main_server p, main_store p) of
        (Some server, Some store) \<Rightarrow>
          (case call server (server, store) of
             (res, (server', store')) \<Rightarrow> (res, p\<lparr>main_server := Some server', main_store := Some store'\<rparr>))
      | _ \<Rightarrow> (Inl (Panic ''nil pointer dereference''), p))"

definition mustPrint :: "('d, 'w) main_pkg \<Rightarrow> string \<Rightarrow> (error, unit, ('c, 'tr, 'h, 'u, 'l, 'e, 'd, 'w) main_state) action" where
  "mustPrint X line p =
     (case Printf X (line @ [char_of (10::nat)]) (main_world p) of
        (Inl err, w) \<Rightarrow> (Inl (External err), p\<lparr>main_world := w\<rparr>)
      | (Inr _, w) \<Rightarrow> (Inr (), p\<lparr>main_world := w, main_stdout := main_stdout p @ [line]\<rparr>))"

text \<open>\<^verbatim>\<open>filepath.Join\<close> on Unix: the elements from the first that is not empty on.\<close>

definition filepath_Join :: "string list \<Rightarrow> string" where
  "filepath_Join elements =
     (case dropWhile (\<lambda>element. element = []) elements of
        [] \<Rightarrow> []
      | rest \<Rightarrow> filepath_Clean (Join rest ''/''))"

text \<open>The configuration of the servers of the programs. Loggers are left out, as everywhere.\<close>

definition loopback :: Config where
  "loopback = \<lparr>cfg_Listen = ''127.0.0.1:0''\<rparr>"

subsection \<open>examples/internal-flow\<close>

definition internal_record :: Record where
  "internal_record = \<lparr>rec_Zone = ''example.com'', rec_Name = ''api.example.com'', rec_TTL = 120, rec_Class = 0, rec_Type = TypeA,
     rec_Data = ''10.0.0.21''\<rparr>"

definition internal_calls ::
  "('rr, 'x) rr_pkg_scheme \<Rightarrow> ('h, 'u, 'l, 'e, 'w) net_pkg \<Rightarrow> ('rr, ('d Store, 'c, 'tr, 'h, 'u, 'l, 'e) Server \<times> 'd Store) client_pkg \<Rightarrow>
     ('d, 'w) main_pkg \<Rightarrow> (error, unit, ('c, 'tr, 'h, 'u, 'l, 'e, 'd, 'w) main_state) action" where
  "internal_calls E N C X =
     must (with_server (\<lambda>server. srv_UpsertRecord E N C (Some server) internal_record [])) (\<lambda>_.
     must (with_server (\<lambda>server. srv_Query E N C (Some server) ''api.example.com'' TypeA [])) (\<lambda>(response, _).
     must (mustPrint X (''answers after upsert: '' @ dec (length (msg_Answer response)))) (\<lambda>_.
     must (with_server (\<lambda>server. srv_DeleteRecord E N C (Some server) internal_record [])) (\<lambda>_.
     must (with_server (\<lambda>server. srv_Query E N C (Some server) ''api.example.com'' TypeA [])) (\<lambda>(response, _).
     mustPrint X (''answers after delete: '' @ dec (length (msg_Answer response))))))))"

definition internal_main where
  "internal_main E H B N C X =
     must (in_world (MkdirTemp X [] ''dnsx-example-internal-*'')) (\<lambda>workdir.
     deferred (in_world (RemoveAll X workdir)) (
     must (open_store X (filepath_Join [workdir, ''dnsx.db''])) (\<lambda>_.
     deferred (with_store (bs_Close B)) (
     must (start_server N (NewServerWithRepository H loopback (Some (bbolt_repo E B)) [])) (\<lambda>_.
     deferred (stop_server N) (internal_calls E N C X))))))"

subsection \<open>examples/embedded-server\<close>

definition www_record :: Record where
  "www_record = \<lparr>rec_Zone = ''example.com'', rec_Name = ''www.example.com'', rec_TTL = 60, rec_Class = 0, rec_Type = TypeA,
     rec_Data = ''10.0.0.10''\<rparr>"

definition embedded_calls ::
  "('rr, 'x) rr_pkg_scheme \<Rightarrow> ('h, 'u, 'l, 'e, 'w) net_pkg \<Rightarrow> ('rr, ('d Store, 'c, 'tr, 'h, 'u, 'l, 'e) Server \<times> 'd Store) client_pkg \<Rightarrow>
     ('d, 'w) main_pkg \<Rightarrow> (error, unit, ('c, 'tr, 'h, 'u, 'l, 'e, 'd, 'w) main_state) action" where
  "embedded_calls E N C X =
     must (with_server (\<lambda>server. srv_LookupA E N C (Some server) ''www.example.com'' [])) (\<lambda>answers.
     must (\<lambda>p. mustPrint X (''server listening on '' @ UDPAddr N (main_server p)) p) (\<lambda>_.
     mustPrint X (''www.example.com -> ['' @ Join answers '' '' @ '']'')))"

definition embedded_main where
  "embedded_main E H B N C X =
     must (in_world (MkdirTemp X [] ''dnsx-example-embedded-*'')) (\<lambda>workdir.
     deferred (in_world (RemoveAll X workdir)) (
     must (open_store X (filepath_Join [workdir, ''dnsx.db''])) (\<lambda>_.
     deferred (with_store (bs_Close B)) (
     must (with_store (bs_SaveRecord E B www_record)) (\<lambda>_.
     must (start_server N (NewServerWithResolver H loopback (Some (NewResolver H (bbolt_repo E B) [])) [])) (\<lambda>_.
     deferred (stop_server N) (embedded_calls E N C X)))))))"

subsection \<open>examples/client-update\<close>

definition client_calls ::
  "('rr, 'x) rr_pkg_scheme \<Rightarrow> ('rr, ('d Store, 'c, 'tr, 'h, 'u, 'l, 'e) Server \<times> 'd Store) client_pkg \<Rightarrow>
     ('d, 'w) main_pkg \<Rightarrow> Client \<Rightarrow> (error, unit, ('c, 'tr, 'h, 'u, 'l, 'e, 'd, 'w) main_state) action" where
  "client_calls E C X client =
     must (\<lambda>p. (map_sum External id (NewRR E ''ops.example.com. 60 IN A 10.0.0.31''), p)) (\<lambda>rr.
     must (with_server (\<lambda>_. UpdateAdd E C client ''example.com'' [rr])) (\<lambda>(updateResponse, _).
     must (mustPrint X (''update rcode: '' @ RcodeToString X (msg_Rcode updateResponse))) (\<lambda>_.
     must (with_server (\<lambda>_. cl_Lookup E C client ''ops.example.com'' TypeA)) (\<lambda>answer.
     must (mustPrint X (''answer count: '' @ dec (length answer))) (\<lambda>_.
     must (with_server (\<lambda>_. UpdateRemove E C client ''example.com'' [rr])) (\<lambda>(deleteResponse, _).
     mustPrint X (''delete rcode: '' @ RcodeToString X (msg_Rcode deleteResponse))))))))"

definition client_main where
  "client_main E H B N C X =
     must (in_world (MkdirTemp X [] ''dnsx-example-client-*'')) (\<lambda>workdir.
     deferred (in_world (RemoveAll X workdir)) (
     must (open_store X (filepath_Join [workdir, ''dnsx.db''])) (\<lambda>_.
     deferred (with_store (bs_Close B)) (
     must (start_server N (NewServerWithRepository H loopback (Some (bbolt_repo E B)) [])) (\<lambda>_.
     deferred (stop_server N) (\<lambda>p. client_calls E C X (NewClient (UDPAddr N (main_server p)) []) p))))))"

section \<open>Cleaning up\<close>

lemma must_cases:
  assumes "must call rest s = (res, s')"
  obtains (failed) err where "call s = (Inl err, s')" and "res = Inl err"
  | (continued) x s1 where "call s = (Inr x, s1)" and "rest x s1 = (res, s')"
  using assms by (cases "call s"; cases "fst (call s)") (auto simp: must_def)

lemma deferred_cases:
  assumes "deferred cleanup rest s = (res, s')"
  obtains res1 s1 res2 where "rest s = (res1, s1)" and "cleanup s1 = (res2, s')" and "res = (case res2 of Inl err \<Rightarrow> Inl err | Inr _ \<Rightarrow> res1)"
  using assms by (cases "rest s"; cases "cleanup (snd (rest s))"; cases "fst (cleanup (snd (rest s)))") (auto simp: deferred_def)

text \<open>
  What holds of a program at its end: a store it has opened is closed, the directory it has made is removed, or the attempt failed
  and was the last thing it did, and when it has not panicked the server is stopped.
\<close>

definition server_stopped :: "('s, 'c, 'tr, 'h, 'u, 'l, 'e) Server option \<Rightarrow> bool" where
  "server_stopped server \<longleftrightarrow>
     (case server of
        None \<Rightarrow> True
      | Some s \<Rightarrow> srv_udpServer s = None \<and> srv_tcpServer s = None \<and> srv_udpConn s = None \<and> srv_tcpListener s = None)"

definition cleaned_up ::
  "('d, 'w) main_pkg \<Rightarrow> string \<Rightarrow> 'w \<Rightarrow> (error + unit) \<times> ('c, 'tr, 'h, 'u, 'l, 'e, 'd, 'w) main_state \<Rightarrow> bool" where
  "cleaned_up X pattern w result \<longleftrightarrow>
     (case main_store (snd result) of None \<Rightarrow> isl (fst result) | Some store \<Rightarrow> bs_closed store) \<and>
     (isl (fst result) \<or> server_stopped (main_server (snd result))) \<and>
     (case MkdirTemp X [] pattern w of
        (Inl err, w') \<Rightarrow> result = (Inl (External err), main_start w')
      | (Inr workdir, _) \<Rightarrow> (\<exists>w'. main_world (snd result) = snd (RemoveAll X workdir w')))"

lemma stop_server_stopped: "stop_server N p = (Inr (), p') \<Longrightarrow> server_stopped (main_server p')"
  by (auto simp: stop_server_def Stop_def server_stopped_def Let_def split: option.splits prod.splits sum.splits)

lemma stopping:
  assumes "deferred (stop_server N) calls p = (res, p')" and "\<not> isl res"
  shows "server_stopped (main_server p')"
  using assms stop_server_stopped [of N] by (elim deferred_cases) (auto split: sum.splits)

lemma closing:
  assumes "deferred (with_store (bs_Close B)) body p = (res, p')"
    and "\<And>r p1. body p = (r, p1) \<Longrightarrow> \<not> isl r \<Longrightarrow> server_stopped (main_server p1)"
  shows "(case main_store p' of None \<Rightarrow> isl res | Some store \<Rightarrow> bs_closed store) \<and> (isl res \<or> server_stopped (main_server p'))"
  using assms(1)
proof (rule deferred_cases)
  fix res1 p1 res2
  assume body: "body p = (res1, p1)" and close: "with_store (bs_Close B) p1 = (res2, p')"
    and res: "res = (case res2 of Inl err \<Rightarrow> Inl err | Inr _ \<Rightarrow> res1)"
  have "case main_store p' of None \<Rightarrow> isl res2 | Some store \<Rightarrow> bs_closed store"
    using close bs_Close_closed [of B] by (auto simp: with_store_def split: option.splits prod.splits) (metis snd_conv)
  moreover have "main_server p' = main_server p1"
    using close by (auto simp: with_store_def split: option.splits prod.splits)
  moreover have "isl res \<longleftrightarrow> isl res2 \<or> isl res1" using res by (cases res2) auto
  ultimately show ?thesis using assms(2) [OF body] by (auto split: option.splits)
qed

lemma program_cleans_up:
  assumes "must (in_world (MkdirTemp X [] pattern)) (\<lambda>workdir.
     deferred (in_world (RemoveAll X workdir)) (
     must (open_store X (path workdir)) (\<lambda>_. deferred (with_store (bs_Close B)) body))) (main_start w) = result"
    and body: "\<And>p r p1. body p = (r, p1) \<Longrightarrow> \<not> isl r \<Longrightarrow> server_stopped (main_server p1)"
  shows "cleaned_up X pattern w result"
proof (cases "MkdirTemp X [] pattern w")
  case (Pair made w1)
  show ?thesis
  proof (cases made)
    case (Inl err)
    then have "result = (Inl (External err), main_start w1)"
      using assms(1) Pair by (simp add: must_def in_world_def main_start_def)
    then show ?thesis by (simp add: cleaned_up_def Pair Inl main_start_def)
  next
    case (Inr workdir)
    obtain res p where result: "result = (res, p)" by (cases result)
    have "deferred (in_world (RemoveAll X workdir)) (must (open_store X (path workdir)) (\<lambda>_. deferred (with_store (bs_Close B)) body))
        (main_start w1) = (res, p)"
      using assms(1) by (simp add: must_def in_world_def main_start_def Pair Inr result)
    then show ?thesis
    proof (rule deferred_cases)
      fix res1 p1 res2
      assume rest: "must (open_store X (path workdir)) (\<lambda>_. deferred (with_store (bs_Close B)) body) (main_start w1) = (res1, p1)"
        and remove: "in_world (RemoveAll X workdir) p1 = (res2, p)" and res: "res = (case res2 of Inl err \<Rightarrow> Inl err | Inr _ \<Rightarrow> res1)"
      have left: "(case main_store p1 of None \<Rightarrow> isl res1 | Some store \<Rightarrow> bs_closed store) \<and> (isl res1 \<or> server_stopped (main_server p1))"
        using rest
      proof (rule must_cases)
        fix err assume "open_store X (path workdir) (main_start w1) = (Inl err, p1)" "res1 = Inl err"
        then show ?thesis by (auto simp: open_store_def main_start_def split: prod.splits sum.splits)
      next
        fix x p2 assume "deferred (with_store (bs_Close B)) body p2 = (res1, p1)"
        from closing [OF this] body show ?thesis by blast
      qed
      have "p = p1\<lparr>main_world := snd (RemoveAll X workdir (main_world p1))\<rparr>"
        using remove by (auto simp: in_world_def split: prod.splits)
      moreover have "isl res \<longleftrightarrow> isl res2 \<or> isl res1" using res by (cases res2) auto
      ultimately show ?thesis using left by (auto simp: cleaned_up_def result Pair Inr split: option.splits)
    qed
  qed
qed

lemma stopping_after:
  assumes "must call (\<lambda>_. deferred (stop_server N) calls) p = (res, p')" and "\<not> isl res"
  shows "server_stopped (main_server p')"
  using assms stopping by (elim must_cases) auto

text \<open>
  C31: The example programs clean up after themselves. However they end, at any failure of the system, the network or the DNS package: the store
  they opened is closed and the last thing they do is to remove the directory they made, and when they end without a
  panic the server is stopped.
\<close>

theorem Examples_clean_up:
  "cleaned_up X ''dnsx-example-internal-*'' w (internal_main E H B N C X (main_start w)) \<and>
   cleaned_up X ''dnsx-example-embedded-*'' w (embedded_main E H B N C X (main_start w)) \<and>
   cleaned_up X ''dnsx-example-client-*'' w (client_main E H B N C X (main_start w))"
proof (intro conjI)
  show "cleaned_up X ''dnsx-example-internal-*'' w (internal_main E H B N C X (main_start w))"
    by (rule program_cleans_up [OF internal_main_def [THEN fun_cong, symmetric]]) (rule stopping_after)
  show "cleaned_up X ''dnsx-example-embedded-*'' w (embedded_main E H B N C X (main_start w))"
    by (rule program_cleans_up [OF embedded_main_def [THEN fun_cong, symmetric]]) (erule must_cases, simp, erule (1) stopping_after)
  show "cleaned_up X ''dnsx-example-client-*'' w (client_main E H B N C X (main_start w))"
    by (rule program_cleans_up [OF client_main_def [THEN fun_cong, symmetric]]) (rule stopping_after)
qed

end
