(* ===== verification/Application.thy ===== *)
theory Application
  imports Command_App
begin

text \<open>
  Properties of the application as a whole: the zones stay valid, the cache does not show, and what an administrator
  stores is served.
\<close>

section \<open>Zones stay valid\<close>

definition plain_event :: "('rr, 'x) rr_pkg_scheme \<Rightarrow> 'p http_pkg_scheme \<Rightarrow> 'rr event \<Rightarrow> bool" where
  "plain_event E P event \<longleftrightarrow>
     (case event of
        DnsRequest m \<Rightarrow> plain_request E m
      | HttpRequest request \<Rightarrow> plain_admin_request P request \<and> muxRoute request \<noteq> RouteSeedImport
      | Elapsed _ \<Rightarrow> True)"

context rr_repository
begin

lemma app_step_valid:
  assumes "set_pkg_ok OS" and "wired R (fst ss)" and "invar (snd ss)" and "all_valid (content (snd ss))" and "plain_event E P event"
  shows "wired R (fst (app_step E OS T H G P event ss)) \<and> invar (snd (app_step E OS T H G P event ss)) \<and>
    all_valid (content (snd (app_step E OS T H G P event ss)))"
proof -
  obtain srv s where ss: "ss = (srv, s)" by (cases ss)
  show ?thesis
  proof (cases event)
    case (DnsRequest m)
    then have m: "plain_request E m" using assms(5) by (simp add: plain_event_def)
    have "handled E OS T H G (srv, s) (snd (serveDNS E OS T H G m (srv, s)))"
      by (rule handled_request [OF handled_start m])
    from handled_valid [OF assms(1) _ _ _ this] assms(2-4) show ?thesis by (simp add: ss DnsRequest)
  next
    case (HttpRequest request)
    then have p: "plain_admin_request P request" "muxRoute request \<noteq> RouteSeedImport" using assms(5) by (simp_all add: plain_event_def)
    from newAdminHandler_valid [OF _ assms(1) _ p] assms(2-4) show ?thesis by (simp add: ss HttpRequest wired_def)
  next
    case (Elapsed t)
    with assms show ?thesis by (simp add: ss)
  qed
qed

lemma app_events_valid:
  assumes "set_pkg_ok OS" and "wired R (fst ss)" and "invar (snd ss)" and "all_valid (content (snd ss))" and "list_all (plain_event E P) events"
  shows "invar (snd (fold (app_step E OS T H G P) events ss)) \<and> all_valid (content (snd (fold (app_step E OS T H G P) events ss)))"
  using assms(2-5)
proof (induction events arbitrary: ss)
  case (Cons event events)
  from app_step_valid [OF assms(1) Cons.prems(1-3), of P event T H G] Cons.IH [of "app_step E OS T H G P event ss"] Cons.prems(4)
  show ?case by simp
qed simp

text \<open>A question for a name is answered from the deepest zone the name lies in.\<close>

lemma Resolve_in_zone:
  assumes E: "rr_pkg_ok E" and H: "hot_pkg_ok H" and OS: "set_pkg_ok OS" and T: "trie_pkg_ok T" and inv: "invar s"
    and ok: "resolver_ok E OS T H r0 s r" "rsv_repo r0 = R" and n: "normal_record E n" and zone: "rec_Zone n \<in> abs_zones (content s)"
    and deepest: "\<And>z. z \<in> abs_zones (content s) \<Longrightarrow> in_zone z (rec_Name n) \<Longrightarrow> length z \<le> length (rec_Zone n)"
    and res: "resolveAuthoritative (nat (rsv_maxCNAMEChain r0)) E OS R (rec_Zone n) (rec_Name n) qt qc s = Inr res" "None \<notin> set (sections res)"
  shows "fst (Resolve E OS T H \<lparr>q_Name = rec_Name n, q_Qtype = qt, q_Qclass = qc\<rparr> s r) = Inr res"
proof -
  let ?n = "rec_Name n" and ?z = "rec_Zone n"
  let ?q = "\<lparr>q_Name = ?n, q_Qtype = qt, q_Qclass = qc\<rparr>"
  have names: "names_pkg_ok E" by (rule names_ok [OF inv])
  note d = normal_recordD [OF n]
  have name: "fqdnTrimmed E (q_Name ?q) = ?n" using fqdnTrimmed_fqdnName [OF d(3), of E] unfolding d(5) by simp
  have in_z: "in_zone ?z ?n" by (rule normal_record_names(3) [OF names n])
  obtain zs where zs: "repo_ListZones R s = Inr zs" and match: "case Match E T (newZoneIndex OS T zs) (fqdnName E ?n) of
       None \<Rightarrow> {z \<in> abs_zones (content s). in_zone z (fqdnName E ?n)} = {}
     | Some z \<Rightarrow> z \<in> abs_zones (content s) \<and> in_zone z (fqdnName E ?n) \<and>
         (\<forall>z' \<in> abs_zones (content s). in_zone z' (fqdnName E ?n) \<longrightarrow> length z' \<le> length z)"
    using Match_zones [OF inv OS T d(3)] d(5,11) by auto
  then obtain z where z: "Match E T (newZoneIndex OS T zs) ?n = Some z" "z \<in> abs_zones (content s)" "in_zone z ?n"
    "length ?z \<le> length z" using zone in_z d(5) by (auto split: option.splits)
  have "length z = length ?z" using deepest [OF z(2,3)] z(4) by simp
  moreover have "z \<noteq> ''.''" "?z \<noteq> ''.''"
    using abs_wf [OF inv] z(2) zone by (auto simp: abs_wf_def normal_zone_def NormalizeZoneName_Inr)
  ultimately have "z = ?z" using zone_unique [OF z(3) in_z] by simp
  have "directAnswer E OS T r0 ?q s = Inr res"
    using directAnswer_zone [OF name, of r0 s zs OS T] zs ok(2) d(11) z(1) \<open>z = ?z\<close> res by simp
  with Resolve_ok [OF E H ok(1), of ?q] show ?thesis by simp
qed

lemma query_answers_record:
  assumes E: "rr_pkg_ok E" and H: "hot_pkg_ok H" and OS: "set_pkg_ok OS" and T: "trie_pkg_ok T" and inv: "invar s"
    and ok: "resolver_ok E OS T H r0 s r" "rsv_repo r0 = R" and r: "servable E (content s)" "saved \<in> abs_records (content s)" "rec_Class saved = ClassINET"
    and deepest: "\<And>z. z \<in> abs_zones (content s) \<Longrightarrow> in_zone z (rec_Name saved) \<Longrightarrow> length z \<le> length (rec_Zone saved)"
  shows "\<exists>res. fst (Resolve E OS T H \<lparr>q_Name = rec_Name saved, q_Qtype = rec_Type saved, q_Qclass = ClassINET\<rparr> s r) = Inr res \<and>
    rsn_RCode res = RcodeSuccess \<and> rsn_Authoritative res \<and>
    rrs_of E (lookup_set (rec_Zone saved) (rec_Name saved) (rec_Type saved) ClassINET (content s)) (rsn_Answer res)"
proof -
  let ?n = "rec_Name saved" and ?z = "rec_Zone saved"
  have names: "names_pkg_ok E" by (rule names_ok [OF inv])
  have n: "normal_record E saved" by (rule normal_stored [OF inv r(2)])
  note d = normal_recordD [OF n]
  have zone: "normal_zone E ?z" by (rule normal_record_zone [OF n])
  have look: "NormalizeLookup E ?z ?n = Inr (?z, ?n)" using NormalizeLookup_fqdnName [OF names zone d(3)] d(5,9) by simp
  obtain res where res: "resolveAuthoritative (nat (rsv_maxCNAMEChain r0)) E OS R ?z ?n (rec_Type saved) ClassINET s = Inr res"
    "rsn_RCode res = RcodeSuccess" "rsn_Authoritative res" "rrs_of E (lookup_set ?z ?n (rec_Type saved) ClassINET (content s)) (rsn_Answer res)"
    "rsn_Authority res = []" "None \<notin> set (rsn_Extra res)"
  proof -
    have "saved \<in> lookup_set ?z ?n (rec_Type saved) ClassINET (content s)" using r(2,3) by (simp add: lookup_set_def)
    then have "lookup_set ?z ?n (rec_Type saved) ClassINET (content s) \<noteq> {}" by blast
    from resolve_positive [OF OS inv r(1) zone look _ this, of "nat (rsv_maxCNAMEChain r0)"] that show thesis
      by (auto simp: extra_ok_def)
  qed
  have "None \<notin> set (rsn_Answer res)"
    using rrs_of_stored [OF res(4) lookup_set_stored] servable_rr [OF r(1)] by blast
  then have none: "None \<notin> set (sections res)" using res(5,6) by simp
  from Resolve_in_zone [OF E H OS T inv ok n stored_zone [OF inv r(2)] deepest res(1) none] res(2-4) show ?thesis by blast
qed

lemma query_answers_nothing:
  assumes E: "rr_pkg_ok E" and H: "hot_pkg_ok H" and OS: "set_pkg_ok OS" and T: "trie_pkg_ok T" and inv: "invar s"
    and ok: "resolver_ok E OS T H r0 s r" "rsv_repo r0 = R" "0 < rsv_maxCNAMEChain r0"
    and servable: "servable E (content s)" and n: "normal_record E n" and zone: "rec_Zone n \<in> abs_zones (content s)"
    and deepest: "\<And>z. z \<in> abs_zones (content s) \<Longrightarrow> in_zone z (rec_Name n) \<Longrightarrow> length z \<le> length (rec_Zone n)"
    and none: "lookup_set (rec_Zone n) (rec_Name n) (rec_Type n) ClassINET (content s) = {}"
      "lookup_set (rec_Zone n) (rec_Name n) TypeCNAME ClassINET (content s) = {}"
  shows "\<exists>res. fst (Resolve E OS T H \<lparr>q_Name = rec_Name n, q_Qtype = rec_Type n, q_Qclass = ClassINET\<rparr> s r) = Inr res \<and>
    rsn_RCode res = (if lookup_set (rec_Zone n) (rec_Name n) TypeANY ClassINET (content s) = {} then RcodeNameError else RcodeSuccess) \<and>
    rsn_Answer res = []"
proof -
  let ?n = "rec_Name n" and ?z = "rec_Zone n"
  have names: "names_pkg_ok E" by (rule names_ok [OF inv])
  note d = normal_recordD [OF n]
  have nz: "normal_zone E ?z" by (rule normal_record_zone [OF n])
  have look: "NormalizeLookup E ?z ?n = Inr (?z, ?n)" using NormalizeLookup_fqdnName [OF names nz d(3)] d(5,9) by simp
  have chain: "0 < nat (rsv_maxCNAMEChain r0)" using ok(3) by simp
  obtain res where res: "resolveAuthoritative (nat (rsv_maxCNAMEChain r0)) E OS R ?z ?n (rec_Type n) ClassINET s = Inr res"
    "rsn_RCode res = (if lookup_set ?z ?n TypeANY ClassINET (content s) = {} then RcodeNameError else RcodeSuccess)"
    "rsn_Answer res = []" "rsn_Extra res = []" "rrs_of E (lookup_set ?z ?z TypeSOA ClassINET (content s)) (rsn_Authority res)"
    using resolve_negative [OF inv servable nz look _ none chain] by blast
  have "None \<notin> set (rsn_Authority res)"
    using rrs_of_stored [OF res(5) lookup_set_stored] servable_rr [OF servable] by blast
  then have "None \<notin> set (sections res)" using res(3,4) by simp
  from Resolve_in_zone [OF E H OS T inv ok(1,2) n zone deepest res(1) this] res(2,3) show ?thesis by blast
qed

end

section \<open>The server of the command\<close>

definition command_server ::
  "'x names_pkg_scheme \<Rightarrow> ('d, 't) bolt_pkg \<Rightarrow> 'c cache_pkg \<Rightarrow> bool \<Rightarrow> Cmd_Config \<Rightarrow> ('d Store, 'c, 'tr, 'h, 'u, 'l, 'e) Server" where
  "command_server E B H isDebug cfg =
     newDNSServer H (newServerConfig cfg) (cmd_newResolver E B H isDebug cfg) (cmd_newManager E B)"

lemma command_options: "list_all (library_option H) [WithCache H config, WithMaxCacheTTL ttl]"
  by (auto simp: library_option_def)

lemma command_server_facts:
  assumes "hot_pkg_ok H"
  shows "wired (bbolt_repo E B) (command_server E B H isDebug cfg)"
    and "srv_resolver (command_server E B H isDebug cfg) = Some (cmd_newResolver E B H isDebug cfg)"
    and "srv_manager (command_server E B H isDebug cfg) = mgr_of (bbolt_repo E B)"
    and "rsv_repo (cmd_newResolver E B H isDebug cfg) = bbolt_repo E B"
    and "rsv_revisionFunc (cmd_newResolver E B H isDebug cfg) = (\<lambda>s. bs_Revision (Some s))"
    and "unused H (cmd_newResolver E B H isDebug cfg)"
proof -
  note options = NewResolver_options [OF assms command_options, of "bbolt_repo E B", unfolded list.map]
  have rev: "repo_Revision (bbolt_repo E B) = Some (\<lambda>s. bs_Revision (Some s))" by (simp add: bbolt_repo_def)
  show r: "rsv_repo (cmd_newResolver E B H isDebug cfg) = bbolt_repo E B"
    "rsv_revisionFunc (cmd_newResolver E B H isDebug cfg) = (\<lambda>s. bs_Revision (Some s))"
    "unused H (cmd_newResolver E B H isDebug cfg)"
    unfolding cmd_newResolver_def Let_def by (simp_all add: options rev)
  then show "wired (bbolt_repo E B) (command_server E B H isDebug cfg)"
    "srv_resolver (command_server E B H isDebug cfg) = Some (cmd_newResolver E B H isDebug cfg)"
    "srv_manager (command_server E B H isDebug cfg) = mgr_of (bbolt_repo E B)"
    by (simp_all add: command_server_def newDNSServer_def NewServerWithResolver_def NewServer_def WithManager_def syncManagedComponents_def
        ensureHandler_def wired_def cmd_newManager_def Let_def NewManager_def)
qed

text \<open>Whatever happened before, a record in the store is in the answer to the question for it.\<close>

lemma command_serves_stored:
  assumes "rr_pkg_ok E" and "hot_pkg_ok H" and "set_pkg_ok OS" and "trie_pkg_ok T" and "bolt_usable B store"
    and "app_run E OS T H G P (bbolt_repo E B) (command_server E B H isDebug cfg, store) n (srv, s)"
    and "unat (bs_revision store) + 2 * n < 2 ^ 64" and "bolt_inv E B s" and "servable E (bolt_content B s)"
    and "saved \<in> abs_records (bolt_content B s)" and "rec_Class saved = ClassINET"
    and "\<forall>z \<in> abs_zones (bolt_content B s). in_zone z (rec_Name saved) \<longrightarrow> length z \<le> length (rec_Zone saved)"
    and "msg_Opcode m = OpcodeQuery" and "msg_Question m = [\<lparr>q_Name = rec_Name saved, q_Qtype = rec_Type saved, q_Qclass = ClassINET\<rparr>]"
  shows "\<exists>reply srv'. serveDNS E OS T H G m (srv, s) = (Inr reply, srv', s) \<and> msg_Rcode reply = RcodeSuccess \<and>
    msg_Authoritative reply \<and> (\<exists>rr. record_RR E saved = Inr rr \<and> rr \<in> set (msg_Answer reply)) \<and>
    rrs_of E (lookup_set (rec_Zone saved) (rec_Name saved) (rec_Type saved) ClassINET (bolt_content B s)) (msg_Answer reply)"
proof -
  let ?q = "\<lparr>q_Name = rec_Name saved, q_Qtype = rec_Type saved, q_Qclass = ClassINET\<rparr>"
  note c = command_server_facts [OF assms(2)]
  have "unat (bs_Revision (Some store)) + 2 * n < 2 ^ 64" using assms(7) by (simp add: bs_Revision_def)
  from bolt_rev.app_run_serving [OF c(4,5) assms(5) c(1,2) assms(6) this]
  obtain r where r: "srv_resolver srv = Some r" "serving E OS T H (cmd_newResolver E B H isDebug cfg) store (r, s)" by auto
  note ok = bolt_rev.serving_ok [OF assms(1,2) c(6,4,5) assms(5) r(2), THEN conjunct1]
  obtain res where res: "fst (Resolve E OS T H ?q s r) = Inr res" "rsn_RCode res = RcodeSuccess" "rsn_Authoritative res"
    "rrs_of E (lookup_set (rec_Zone saved) (rec_Name saved) (rec_Type saved) ClassINET (bolt_content B s)) (rsn_Answer res)"
    using bolt_rr.query_answers_record [OF assms(1-4,8) ok c(4) assms(9-11)] assms(12) by blast
  obtain rr where "record_RR E saved = Inr rr" "rr \<in> set (rsn_Answer res)"
  proof -
    obtain rr where "record_RR E saved = Inr rr" using assms(9,10) by (auto simp: servable_iff)
    moreover have "saved \<in> lookup_set (rec_Zone saved) (rec_Name saved) (rec_Type saved) ClassINET (bolt_content B s)"
      using assms(10,11) by (simp add: lookup_set_def)
    ultimately show thesis using that rrs_of_set [OF res(4)] by blast
  qed
  moreover obtain r' where "Resolve E OS T H ?q s r = (Inr res, r')" using res(1) by (metis prod.collapse)
  ultimately show ?thesis using res(2-4) r(1) assms(13,14) by (simp add: serveDNS_def ServeDNS_def Let_def)
qed


lemma newResponseCache_config:
  assumes "0 < cfg_Capacity config" and "cfg_Algorithm config \<noteq> []"
  shows "newResponseCache H config = \<lparr>rc_cache = Some (hot_Build H
    \<lparr>hb_algorithm = toHotAlgorithm (cfg_Algorithm config), hb_capacity = cfg_Capacity config, hb_janitor = cfg_Janitor config,
     hb_missing = (if 0 < cfg_MissingCapacity config
       then Some (toHotAlgorithm (if cfg_MissingAlgorithm config = [] then cfg_Algorithm config else cfg_MissingAlgorithm config),
              cfg_MissingCapacity config)
       else None)\<rparr>)\<rparr>"
  using assms by (cases "cfg_Janitor config") (simp_all add: newResponseCache_def Let_def)

section \<open>Properties\<close>


definition file_ref :: "(ref_db, unit) file_pkg" where
  "file_ref =
     \<lparr>bboltx_Open = (\<lambda>path w. (Inr ([], []), w)),
      ReadFile = (\<lambda>path w. if path = ''etc/seed.json'' then Inr ''sample'' else Inl ''no such file''),
      SeedFromJSON = (\<lambda>content. if content = ''sample'' then Inr sample_seed else Inl ''invalid character'')\<rparr>"

definition seed_config :: Cmd_Config where
  "seed_config = defaultConfig\<lparr>cmd_Seed := \<lparr>sd_File = ''./etc//conf/../seed.json''\<rparr>\<rparr>"

lemma file_ref_plain: "plain_seed_file file_ref"
proof -
  have "plain_seed sample_seed" by code_simp
  then show ?thesis by (simp add: plain_seed_file_def file_ref_def)
qed

lemma empty_bolt_inv: "names_pkg_ok E \<Longrightarrow> bolt_inv E bolt_ref (bs_New ([], []))"
  by (simp add: bolt_inv_def bs_New_def) (simp add: bolt_ref_def)

lemma bolt_ref_empty: "bolt_content bolt_ref (bs_New ([], [])) = \<lparr>abs_zones = {}, abs_records = {}\<rparr>"
  by (simp add: bolt_content_def bs_New_def bolt_ref_def)

lemma seed_names_sample: "seed_names names_ref sample_seed = {''example.net.'', ''example.org.''}"
  by code_simp


text \<open>
  The resolver of the command is the one the configuration describes: a cache of the configured algorithm and
  capacity, with a janitor and a cache of missing keys as configured, records kept at most 30 seconds, or 5
  when debugging; every algorithm that passes the validation has its own implementation.
\<close>

theorem cmd_newResolver_configured:
  assumes "valid_config cfg"
  shows "let r = cmd_newResolver E B H isDebug cfg; c = cmd_Cache cfg in
    rsv_repo r = bbolt_repo E B \<and> rsv_maxCacheTTL r = (if isDebug then 5 * Second else 30 * Second) \<and>
    rsv_negativeTTL r = 10 * Second \<and> rsv_maxCNAMEChain r = 8 \<and>
    rsv_cache r = Some \<lparr>rc_cache = Some (hot_Build H
      \<lparr>hb_algorithm = toHotAlgorithm (cc_Algorithm c), hb_capacity = cc_Capacity c, hb_janitor = cc_Janitor c,
       hb_missing = (if cc_MissingCapacity c = 0 then None
          else Some (toHotAlgorithm (if cc_MissingAlgorithm c = [] then cc_Algorithm c else cc_MissingAlgorithm c), cc_MissingCapacity c))\<rparr>)\<rparr>"
    and "inj_on toHotAlgorithm (set algorithms)"
proof -
  have cap: "0 < cc_Capacity (cmd_Cache cfg)" "cc_Algorithm (cmd_Cache cfg) \<noteq> []"
    "0 < cc_MissingCapacity (cmd_Cache cfg) \<longleftrightarrow> cc_MissingCapacity (cmd_Cache cfg) \<noteq> 0"
    using assms by (auto simp: valid_config_def algorithms_def)
  show "let r = cmd_newResolver E B H isDebug cfg; c = cmd_Cache cfg in
    rsv_repo r = bbolt_repo E B \<and> rsv_maxCacheTTL r = (if isDebug then 5 * Second else 30 * Second) \<and>
    rsv_negativeTTL r = 10 * Second \<and> rsv_maxCNAMEChain r = 8 \<and>
    rsv_cache r = Some \<lparr>rc_cache = Some (hot_Build H
      \<lparr>hb_algorithm = toHotAlgorithm (cc_Algorithm c), hb_capacity = cc_Capacity c, hb_janitor = cc_Janitor c,
       hb_missing = (if cc_MissingCapacity c = 0 then None
          else Some (toHotAlgorithm (if cc_MissingAlgorithm c = [] then cc_Algorithm c else cc_MissingAlgorithm c), cc_MissingCapacity c))\<rparr>)\<rparr>"
    using cap newResponseCache_config [of _ H]
    by (cases isDebug) (simp_all add: cmd_newResolver_def NewResolver_def WithCache_def WithMaxCacheTTL_def resolverMaxTTL_def Let_def)
  have "distinct (map toHotAlgorithm algorithms)" by code_simp
  then show "inj_on toHotAlgorithm (set algorithms)" by (simp add: distinct_map)
qed

theorem cmd_newResolver_configured_witness:
  "rsv_maxCacheTTL (cmd_newResolver names_ref bolt_ref hot_ref False defaultConfig :: (_, _, unit) Resolver) = 30 * Second"
proof -
  have "rsv_maxCacheTTL (cmd_newResolver names_ref bolt_ref hot_ref False defaultConfig :: (_, _, unit) Resolver) =
      (if False then 5 * Second else 30 * Second)"
    by (rule cmd_newResolver_configured(1) [OF valid_defaultConfig, unfolded Let_def, THEN conjunct2, THEN conjunct1])
  then show ?thesis by simp
qed

text \<open>
  C4: The application keeps the zones valid. Started on an empty database, with or without a seed, it has after
  any sequence of DNS messages and HTTP requests but further imports, accepted or refused, only zones that meet the
  SOA and CNAME rules.
\<close>

theorem App_keeps_zones_valid:
  assumes "names_pkg_ok E" and "set_pkg_ok OS" and "bolt_pkg_ok B" and "lossless_codec B" and "hot_pkg_ok H" and "plain_seed_file F"
    and "bboltx_Open F (st_Path (cmd_Storage cfg)) w = (Inr d, w')" and "empty_bolt B d"
    and "openStore E OS B F cfg w = (Inr store, opened, w'')" and "list_all (plain_event E P) events"
    and "(srv, s) = fold (app_step E OS T H G P) events (command_server E B H isDebug cfg, store)"
  shows "zone_valid z False {r \<in> abs_records (bolt_content B s). rec_Zone r = z}"
proof -
  have inv: "bolt_inv E B (bs_New d)" using assms(1,3,4,8) by (simp add: bolt_inv_def bs_New_def empty_bolt_def)
  have empty: "abs_records (bolt_content B (bs_New d)) = {}" using assms(8) by (simp add: bolt_content_def bs_New_def empty_bolt_def)
  have "bolt_inv E B store \<and> all_valid (bolt_content B store)"
  proof (rule openStore_cases [OF assms(1,2,6,7) inv assms(9)])
    assume "Inr store = (Inr (bs_New d) :: error + _)"
    then show ?thesis using inv empty by (simp add: all_valid_def zone_records_def zone_valid_def)
  next
    fix store' seed and rs :: "Record list"
    assume "Inr store = (Inr store' :: error + _)" "bolt_inv E B store'" and v: "\<forall>z. zone_valid z True {r \<in> set rs. rec_Zone r = z}"
      "abs_records (bolt_content B store') = {v \<in> abs_records (bolt_content B (bs_New d)). Key E v \<notin> Key E ` set rs} \<union> set rs"
    moreover from v have "all_valid (bolt_content B store')"
      using zone_valid_weaken [where needNS = True] by (simp add: all_valid_def zone_records_def empty)
    ultimately show ?thesis by simp
  qed simp
  then have "bolt_inv E B (snd (srv, s)) \<and> all_valid (bolt_content B (snd (srv, s)))"
    unfolding assms(11) by (intro bolt_rr.app_events_valid [OF assms(2) _ _ _ assms(10)])
      (simp_all add: command_server_facts(1) [OF assms(5)])
  then show ?thesis by (simp add: all_valid_def zone_records_def)
qed

definition org_update :: "ref_rr Msg" where
  "org_update = upd_msg [upd_rr ''a.example.org.'' ClassINET TypeA ''192.0.2.1'', upd_rr ''www.example.org.'' ClassINET TypeCNAME ''a.example.org.'']"

definition cname_put :: Request where
  "cname_put = admin_request ''PUT'' ''/records'' ''example.org a.example.org 192.0.2.9''"

abbreviation ref_step where
  "ref_step \<equiv> app_step rr_ref set_ref trie_ref hot_ref msg_ref http_ref"

abbreviation ref_command where
  "ref_command \<equiv> (command_server rr_ref bolt_ref hot_ref False seed_config :: (_, _, _, unit, unit, unit, unit) Server)"

definition seeded_store where
  "seeded_store = projr (fst (openStore rr_ref set_ref bolt_ref file_ref seed_config ()))"

theorem App_keeps_zones_valid_witness:
  "let s = snd (fold ref_step [DnsRequest org_update, HttpRequest cname_put] (ref_command, seeded_store)) in
   zone_valid ''example.org.'' False {r \<in> abs_records (bolt_content bolt_ref s). rec_Zone r = ''example.org.''}"
proof -
  let ?o = "openStore rr_ref set_ref bolt_ref file_ref seed_config ()"
  let ?ss = "fold ref_step [DnsRequest org_update, HttpRequest cname_put] (ref_command, seeded_store)"
  have "\<not> isl (fst ?o)" by code_simp
  then have o: "?o = (Inr seeded_store, fst (snd ?o), snd (snd ?o))" by (cases "fst ?o") (auto simp: seeded_store_def prod_eq_iff)
  have db: "bboltx_Open file_ref (st_Path (cmd_Storage seed_config)) () = (Inr ([], []), ())" by (simp add: file_ref_def)
  have empty: "empty_bolt bolt_ref ([], [])" by (simp add: empty_bolt_def bolt_ref_def)
  have dns: "plain_request rr_ref org_update" by code_simp
  have body: "decodeJSONBody (UnmarshalRecord http_ref) cname_put =
      Inr \<lparr>rec_Zone = ''example.org'', rec_Name = ''a.example.org'', rec_TTL = 60, rec_Class = 0, rec_Type = TypeA, rec_Data = ''192.0.2.9''\<rparr>"
    "decodeJSONBody (UnmarshalSeed http_ref) cname_put = Inr sample_seed"
    by (simp_all add: cname_put_def decodeJSONBody_short bodyLimit_def http_ref_def)
  have http: "plain_admin_request http_ref cname_put" unfolding plain_admin_request_def body sum.case by code_simp
  have "muxRoute cname_put = RouteRecords" by (simp add: muxRoute_records cname_put_def admin_request_def)
  with dns http have events: "list_all (plain_event rr_ref http_ref) [DnsRequest org_update, HttpRequest cname_put]"
    by (simp add: plain_event_def)
  have "(fst ?ss, snd ?ss) = ?ss" by simp
  from App_keeps_zones_valid [OF names_pkg_ok_rr_ref set_ref_ok bolt_ref_ok lossless_ref hot_ref_ok file_ref_plain db empty o events this]
  show ?thesis by (simp only: Let_def)
qed


definition a_query :: "ref_rr Msg" where
  "a_query = (upd_msg [])\<lparr>msg_Opcode := OpcodeQuery, msg_Question := [\<lparr>q_Name = ''a.example.org'', q_Qtype = TypeA, q_Qclass = ClassINET\<rparr>]\<rparr>"

definition one_update :: "ref_rr Msg" where
  "one_update = upd_msg [upd_rr ''a.example.org.'' ClassINET TypeA ''192.0.2.1'']"



definition www_query :: "ref_rr Msg" where
  "www_query = (upd_msg [])\<lparr>msg_Opcode := OpcodeQuery, msg_Question := [\<lparr>q_Name = ''www.example.org.'', q_Qtype = TypeA, q_Qclass = ClassINET\<rparr>]\<rparr>"


end
