(* ===== verification/Client_Reads.thy ===== *)
theory Client_Reads
  imports Application
begin

text \<open>
  The client of the server, \<^verbatim>\<open>dnsserver/server_client.go\<close> and \<^verbatim>\<open>server_lookup.go\<close>, against the application of the command over
  the network: what it writes with a dynamic update it reads with the next question.
\<close>

section \<open>Updates over the network\<close>

context rr_repository
begin

lemma remote_UpsertRecord_request:
  assumes "invar s" and "set_pkg_ok OS" and "wired R srv" and "msg_pkg_ok G" and "client_pkg_ok E C" and "rr_line_ok E"
    and "delivers C (cl_server (srv_Client N (Some srv) opts)) (serveDNS E OS T H G)"
    and "plain_record record" and "NormalizeRecord E record = Inr n" and "canonical E n rr" and "rec_Class n = ClassINET"
    and "srv_UpsertRecord E N C (Some srv) record opts (srv, s) = (Inr (reply, rtt), ss)"
  shows "\<exists>m rr'. msg_Opcode m = OpcodeUpdate \<and> msg_Ns m = [Some rr'] \<and> rr_Class E rr' = ClassINET \<and>
    serveDNS E OS T H G m (srv, s) = (Inr reply, ss)"
proof -
  note names = names_ok [OF assms(1)]
  have n: "normal_record E n" by (rule normal_record_NormalizeRecord [OF names assms(8,9)])
  have line: "record_RR E n = Inr (Some rr)" using assms(10) by (simp add: canonical_def)
  obtain reply' rtt' s' m rr' where m: "UpdateAdd E C (srv_Client N (Some srv) opts) (rec_Zone n) [Some rr] (srv, s) = (Inr (reply', rtt'), (srv, s'))"
    "msg_Opcode m = OpcodeUpdate" "msg_Ns m = [Some rr']" "rr_Class E rr' = ClassINET" "serveDNS E OS T H G m (srv, s) = (Inr reply', (srv, s'))"
    using client_add [OF assms(1-7) n assms(10,11) fqdn_fixed(1) [OF names normal_record_zone [OF n]]] by metis
  then have "reply' = reply" "ss = (srv, s')" using assms(12) by (simp_all add: srv_UpsertRecord_def assms(9) line)
  with m(2-5) show ?thesis by blast
qed

lemma remote_UpsertRecord_stores:
  assumes "invar s" and "set_pkg_ok OS" and "wired R srv" and "msg_pkg_ok G" and "client_pkg_ok E C" and "rr_line_ok E"
    and "delivers C (cl_server (srv_Client N (Some srv) opts)) (serveDNS E OS T H G)"
    and "plain_record record" and "NormalizeRecord E record = Inr n" and "canonical E n rr" and "rec_Class n = ClassINET"
    and "srv_UpsertRecord E N C (Some srv) record opts (srv, s) = (Inr (reply, rtt), (srv1, s'))" and "msg_Rcode reply = RcodeSuccess"
  shows "srv1 = srv \<and> invar s' \<and> content s' = put_content E n (content s)"
proof -
  have same: "same_outcome invar content srv (mgr_UpsertRecord E OS (mgr_of R) record s)
      (srv_UpsertRecord E N C (Some srv) record opts (srv, s))"
    by (rule remote_UpsertRecord [OF assms(1-11)])
  obtain res t where up: "mgr_UpsertRecord E OS (mgr_of R) record s = (res, t)" by (cases "mgr_UpsertRecord E OS (mgr_of R) record s")
  have s': "\<not> isl res" "srv1 = srv" "invar s'" "content s' = content t"
    using same assms(13) unfolding same_outcome_def up assms(12) by (auto split: if_splits)
  have "zone_valid (rec_Zone n) False (zone_records (rec_Zone n) (put_content E n (content s)))"
  proof (rule ccontr)
    assume "\<not> ?thesis"
    from UpsertRecord_rejects [OF assms(1,2,8,9) this] up s'(1) show False by auto
  qed
  from UpsertRecord_accepts [OF assms(1,2,8,9) this] up s'(4) have "content s' = put_content E n (content s)" by auto
  with s'(2,3) show ?thesis by simp
qed

end

section \<open>Reading one's writes\<close>

text \<open>Documented behaviour: \<^verbatim>\<open>SetQuestion\<close> makes a question of class IN.\<close>

definition question_pkg_ok :: "('rr, 'w) client_pkg \<Rightarrow> bool" where
  "question_pkg_ok C \<longleftrightarrow> (\<forall>n t. msg_Opcode (SetQuestion C n t) = OpcodeQuery \<and>
     msg_Question (SetQuestion C n t) = [\<lparr>q_Name = n, q_Qtype = t, q_Qclass = ClassINET\<rparr>])"

lemma client_question_ok: "question_pkg_ok (client_ref handler)"
  by (simp add: question_pkg_ok_def client_ref_def ref_updateMsg_def)

lemma client_reads_its_write:
  assumes "rr_pkg_ok E" and "hot_pkg_ok H" and "set_pkg_ok OS" and "trie_pkg_ok T" and "msg_pkg_ok G" and "client_pkg_ok E C" and "question_pkg_ok C"
    and "rr_line_ok E" and "bolt_usable B store"
    and "app_run E OS T H G P (bbolt_repo E B) (command_server E B H isDebug cfg, store) n (srv, s)"
    and "unat (bs_revision store) + 2 * (n + 1) < 2 ^ 64" and "bolt_inv E B s"
    and "delivers C (cl_server (srv_Client N (Some srv) opts)) (serveDNS E OS T H G)"
    and "plain_record record" and "NormalizeRecord E record = Inr saved" and "canonical E saved rr" and "rec_Class saved = ClassINET"
    and "srv_UpsertRecord E N C (Some srv) record opts (srv, s) = (Inr (reply, rtt), (srv1, s'))" and "msg_Rcode reply = RcodeSuccess"
    and "servable E (bolt_content B s')"
    and "\<forall>z \<in> abs_zones (bolt_content B s'). in_zone z (rec_Name saved) \<longrightarrow> length z \<le> length (rec_Zone saved)"
    and "Fqdn E name = rec_Name saved"
  shows "srv1 = srv"
    and "\<exists>answers srv2. srv_Lookup E N C (Some srv) name (rec_Type saved) opts (srv, s') = (Inr answers, (srv2, s')) \<and>
      Some rr \<in> set answers \<and>
      rrs_of E (lookup_set (rec_Zone saved) (rec_Name saved) (rec_Type saved) ClassINET (bolt_content B s')) answers"
    and "rec_Type saved = TypeA \<Longrightarrow> as_A C rr = Some address \<Longrightarrow>
      \<exists>addresses srv2. srv_LookupA E N C (Some srv) name opts (srv, s') = (Inr addresses, (srv2, s')) \<and> address \<in> set addresses"
proof -
  let ?R = "bbolt_repo E B" and ?c = "srv_Client N (Some srv) opts"
  let ?m = "SetQuestion C (rec_Name saved) (rec_Type saved)"
  note c = command_server_facts [OF assms(2)]
  have small: "unat (bs_Revision (Some store)) + 2 * n < 2 ^ 64" using assms(11) by (simp add: bs_Revision_def)
  have wired: "wired ?R srv" using bolt_rev.app_run_serving [OF c(4,5) assms(9) c(1,2) assms(10) small] by auto
  obtain u rr' where u: "msg_Opcode u = OpcodeUpdate" "msg_Ns u = [Some rr']" "rr_Class E rr' = ClassINET"
    "serveDNS E OS T H G u (srv, s) = (Inr reply, (srv1, s'))"
    using bolt_rr.remote_UpsertRecord_request [OF assms(12,3) wired assms(5,6,8,13-18)] by blast
  obtain k where k: "k \<le> 1" "by_writes ?R k s s'" using single_update_writes [OF wired u(1,2), of E s OS T H G] u(3,4) by auto
  note stores = bolt_rr.remote_UpsertRecord_stores [OF assms(12,3) wired assms(5,6,8,13-19)]
  then have srv1: "srv1 = srv" and inv: "bolt_inv E B s'" and stored: "saved \<in> abs_records (bolt_content B s')"
    by (simp_all add: put_content_def put_record_def)
  show "srv1 = srv" by (rule srv1)
  have run: "app_run E OS T H G P ?R (command_server E B H isDebug cfg, store) (n + k) (srv, s')"
    by (rule app_event [OF assms(10), of _ "DnsRequest u"]) (use u(4) k(2) srv1 in simp_all)
  have bound: "unat (bs_revision store) + 2 * (n + k) < 2 ^ 64" using assms(11) k(1) by simp
  have q: "msg_Opcode ?m = OpcodeQuery" "msg_Question ?m = [\<lparr>q_Name = rec_Name saved, q_Qtype = rec_Type saved, q_Qclass = ClassINET\<rparr>]"
    using assms(7) by (simp_all add: question_pkg_ok_def)
  obtain answer srv2 where answer: "serveDNS E OS T H G ?m (srv, s') = (Inr answer, srv2, s')"
    "\<exists>rr. record_RR E saved = Inr rr \<and> rr \<in> set (msg_Answer answer)"
    "rrs_of E (lookup_set (rec_Zone saved) (rec_Name saved) (rec_Type saved) ClassINET (bolt_content B s')) (msg_Answer answer)"
    using command_serves_stored [OF assms(1-4,9) run bound inv assms(20) stored assms(17,21) q] by blast
  then have rr: "Some rr \<in> set (msg_Answer answer)" using assms(16) by (auto simp: canonical_def)
  obtain rtt2 where "ExchangeContext C (cl_client ?c) ?m (cl_server ?c) (srv, s') = (Inr (answer, rtt2), (srv2, s'))"
    using assms(13) answer(1) unfolding delivers_def by blast
  then have lookup: "cl_Lookup E C ?c name (rec_Type saved) (srv, s') = (Inr (msg_Answer answer), (srv2, s'))"
    by (simp add: cl_Lookup_def Exchange_def ExchangeMessage_def assms(22))
  then show "\<exists>answers srv2. srv_Lookup E N C (Some srv) name (rec_Type saved) opts (srv, s') = (Inr answers, (srv2, s')) \<and>
      Some rr \<in> set answers \<and>
      rrs_of E (lookup_set (rec_Zone saved) (rec_Name saved) (rec_Type saved) ClassINET (bolt_content B s')) answers"
    using rr answer(3) by (simp add: srv_Lookup_def)
  assume "rec_Type saved = TypeA" and address: "as_A C rr = Some address"
  then have "srv_LookupA E N C (Some srv) name opts (srv, s') = (Inr (FilterMap (as_A C) (msg_Answer answer)), (srv2, s'))"
    using lookup by (simp add: srv_LookupA_def lookupServerValues_def cl_LookupA_def)
  moreover have "address \<in> set (FilterMap (as_A C) (msg_Answer answer))"
    using rr address by (force simp: FilterMap_def map_filter_def)
  ultimately show "\<exists>addresses srv2. srv_LookupA E N C (Some srv) name opts (srv, s') = (Inr addresses, (srv2, s')) \<and> address \<in> set addresses"
    by blast
qed



abbreviation ref_command_client where
  "ref_command_client \<equiv> client_ref (serveDNS rr_ref set_ref trie_ref hot_ref msg_ref)"

abbreviation net_command where
  "net_command \<equiv> (command_server rr_ref bolt_ref hot_ref False seed_config :: (_, _, (string \<times> string) list, unit, nat, nat, nat) Server)"

abbreviation net_upsert where
  "net_upsert \<equiv> srv_UpsertRecord rr_ref (ref_network :: (unit, _, _, _, _) net_pkg) ref_command_client (Some net_command) net_record []
     (net_command, bs_New ([], []))"


end
