(* ===== verification/Example_Output.thy ===== *)
theory Example_Output
  imports Example_Programs Client_Reads
begin

text \<open>
  What the programs under \<^verbatim>\<open>examples/\<close> print when the system lets them start and the packages behave as documented: the server, the
  resolver with its cache, the store and the client together.
\<close>

section \<open>What the programs print\<close>

context rr_repository
begin

lemmas program_add = client_add
lemmas program_remove = client_remove

end

text \<open>The packages behave as documented (the assumptions on each are with its definition).\<close>

definition packages_ok where
  "packages_ok E OS T H G C B \<longleftrightarrow> rr_pkg_ok E \<and> hot_pkg_ok H \<and> set_pkg_ok OS \<and> trie_pkg_ok T \<and> msg_pkg_ok G \<and> client_pkg_ok E C \<and>
     question_pkg_ok C \<and> rr_line_ok E \<and> bolt_pkg_ok B \<and> lossless_codec B"

lemma packages_okD:
  assumes "packages_ok E OS T H G C B"
  shows "rr_pkg_ok E" and "hot_pkg_ok H" and "set_pkg_ok OS" and "trie_pkg_ok T" and "msg_pkg_ok G" and "client_pkg_ok E C"
    and "question_pkg_ok C" and "rr_line_ok E" and "bolt_pkg_ok B" and "lossless_codec B" and "names_pkg_ok E"
  using assms by (simp_all add: packages_ok_def rr_pkg_ok_def)

text \<open>A server on a bbolt store whose resolver answers for the store as it is.\<close>

abbreviation fresh_resolver where
  "fresh_resolver E H B \<equiv> NewResolver H (bbolt_repo E B) []"

definition answering where
  "answering E OS T H B srv s \<longleftrightarrow> wired (bbolt_repo E B) srv \<and>
     (\<exists>r. srv_resolver srv = Some r \<and> resolver_ok E OS T H (fresh_resolver E H B) s r)"

lemma fresh_resolver_facts:
  assumes "hot_pkg_ok H"
  shows "unused H (fresh_resolver E H B)" and "rsv_repo (fresh_resolver E H B) = bbolt_repo E B"
    and "rsv_revisionFunc (fresh_resolver E H B) = (\<lambda>s. bs_Revision (Some s))" and "0 < rsv_maxCNAMEChain (fresh_resolver E H B)"
proof -
  note options = NewResolver_options [OF assms, of "[]" "bbolt_repo E B", unfolded list.map]
  have "repo_Revision (bbolt_repo E B) = Some (\<lambda>s. bs_Revision (Some s))" by (simp add: bbolt_repo_def)
  then show "unused H (fresh_resolver E H B)" "rsv_repo (fresh_resolver E H B) = bbolt_repo E B"
    "rsv_revisionFunc (fresh_resolver E H B) = (\<lambda>s. bs_Revision (Some s))" "0 < rsv_maxCNAMEChain (fresh_resolver E H B)"
    by (simp_all add: options)
qed

lemma answering_start:
  assumes "hot_pkg_ok H" and "wired (bbolt_repo E B) srv" and "srv_resolver srv = Some (fresh_resolver E H B)"
  shows "answering E OS T H B srv s"
  using assms unused_ok [OF fresh_resolver_facts(1) [OF assms(1)]] by (simp add: answering_def)

lemma answering_write:
  assumes "hot_pkg_ok H" and "answering E OS T H B srv s" and "bolt_usable B s" and "k \<le> 1" and "by_writes (bbolt_repo E B) k s s'"
    and "unat (bs_revision s) + 2 < 2 ^ 64"
  shows "answering E OS T H B srv s' \<and> unat (bs_revision s') \<le> unat (bs_revision s) + 2"
proof -
  have "s' = s \<or> (\<exists>w. s' = snd (repo_write (bbolt_repo E B) w s))"
  proof -
    obtain ws where ws: "length ws = k" "s' = run_writes (repo_write (bbolt_repo E B)) ws s" using assms(5) by (auto simp: by_writes_def)
    with assms(4) show ?thesis by (cases ws) (auto simp: run_writes_def)
  qed
  then have moved: "s' = s \<or> bs_revision s' = bs_revision s + 1 \<or> bs_revision s' = bs_revision s + 2"
    using bolt_rev.write_revision [OF assms(3)] by (metis (no_types, lifting) bs_Revision_def option.simps(5) prod.collapse)
  then have rev: "s' = s \<or> unat (bs_revision s) < unat (bs_revision s')" "unat (bs_revision s') \<le> unat (bs_revision s) + 2"
    using unat_add_small [of "bs_revision s" 1] unat_add_small [of "bs_revision s" 2] assms(6) by auto
  have "answering E OS T H B srv s'"
    using rev(1) assms(2) resolver_ok_later [of E OS T H "fresh_resolver E H B" s _ s']
    by (auto simp: answering_def fresh_resolver_facts(3) [OF assms(1)] bs_Revision_def)
  with rev(2) show ?thesis by simp
qed

lemma answering_question:
  assumes "packages_ok E OS T H G C B" and "answering E OS T H B srv s" and "delivers C (cl_server c) (serveDNS E OS T H G)"
    and "Fqdn E name = n"
    and "\<And>r. resolver_ok E OS T H (fresh_resolver E H B) s r \<Longrightarrow>
      \<exists>res. fst (Resolve E OS T H \<lparr>q_Name = n, q_Qtype = qtype, q_Qclass = ClassINET\<rparr> s r) = Inr res \<and> P (rsn_Answer res)"
  obtains reply rtt r' where "Exchange E C c name qtype (srv, s) = (Inr (reply, rtt), (srv\<lparr>srv_resolver := Some r'\<rparr>, s))"
    and "P (msg_Answer reply)" and "answering E OS T H B (srv\<lparr>srv_resolver := Some r'\<rparr>) s"
proof -
  note ok = packages_okD [OF assms(1)]
  let ?q = "\<lparr>q_Name = n, q_Qtype = qtype, q_Qclass = ClassINET\<rparr>" and ?m = "SetQuestion C n qtype"
  obtain r where r: "srv_resolver srv = Some r" "resolver_ok E OS T H (fresh_resolver E H B) s r" and wired: "wired (bbolt_repo E B) srv"
    using assms(2) by (auto simp: answering_def)
  obtain res r' where res: "Resolve E OS T H ?q s r = (Inr res, r')" "P (rsn_Answer res)"
    using assms(5) [OF r(2)] by (metis prod.collapse)
  have m: "msg_Opcode ?m = OpcodeQuery" "msg_Question ?m = [?q]" using ok(7) by (simp_all add: question_pkg_ok_def)
  obtain reply where "serveDNS E OS T H G ?m (srv, s) = (Inr reply, srv\<lparr>srv_resolver := Some r'\<rparr>, s)" "msg_Answer reply = rsn_Answer res"
    using m r(1) res(1) by (simp add: serveDNS_def ServeDNS_def Let_def)
  moreover from this(1) obtain rtt where
    "ExchangeContext C (cl_client c) ?m (cl_server c) (srv, s) = (Inr (reply, rtt), (srv\<lparr>srv_resolver := Some r'\<rparr>, s))"
    using assms(3) unfolding delivers_def by blast
  moreover have "resolver_ok E OS T H (fresh_resolver E H B) s r'"
    using Resolve_ok [OF ok(1,2) r(2), of ?q] res(1) by simp
  ultimately show thesis using that res(2) wired assms(4) by (simp add: Exchange_def ExchangeMessage_def answering_def wired_def)
qed

text \<open>The one record of the store is in the answer, and nothing is once it is gone.\<close>

definition example_rr :: "('rr, 'x) rr_pkg_scheme \<Rightarrow> Record \<Rightarrow> 'rr \<Rightarrow> bool" where
  "example_rr E n rr \<longleftrightarrow> normal_record E n \<and> canonical E n rr \<and> rec_Class n = ClassINET \<and> rec_Type n = TypeA \<and>
     plain (additionalTarget E (Some rr))"

lemma answer_stored:
  assumes "packages_ok E OS T H G C B" and "answering E OS T H B srv s" and "delivers C (cl_server c) (serveDNS E OS T H G)"
    and "bolt_inv E B s" and "bolt_content B s = \<lparr>abs_zones = {rec_Zone n}, abs_records = {n}\<rparr>" and "example_rr E n rr"
    and "Fqdn E name = rec_Name n"
  obtains reply rtt r' where "Exchange E C c name TypeA (srv, s) = (Inr (reply, rtt), (srv\<lparr>srv_resolver := Some r'\<rparr>, s))"
    and "msg_Answer reply = [Some rr]" and "answering E OS T H B (srv\<lparr>srv_resolver := Some r'\<rparr>) s"
proof -
  note ok = packages_okD [OF assms(1)]
  have n: "canonical E n rr" "rec_Class n = ClassINET" "rec_Type n = TypeA" "plain (additionalTarget E (Some rr))" "record_RR E n = Inr (Some rr)"
    using assms(6) by (simp_all add: example_rr_def canonical_def)
  have servable: "servable E (bolt_content B s)" using n by (simp add: servable_iff assms(5))
  have one: "lookup_set (rec_Zone n) (rec_Name n) TypeA ClassINET (bolt_content B s) = {n}"
    using n by (auto simp: lookup_set_def assms(5))
  have "\<exists>res. fst (Resolve E OS T H \<lparr>q_Name = rec_Name n, q_Qtype = TypeA, q_Qclass = ClassINET\<rparr> s r) = Inr res \<and> rsn_Answer res = [Some rr]"
    if r: "resolver_ok E OS T H (fresh_resolver E H B) s r" for r
  proof -
    obtain res where res: "fst (Resolve E OS T H \<lparr>q_Name = rec_Name n, q_Qtype = TypeA, q_Qclass = ClassINET\<rparr> s r) = Inr res"
      "rrs_of E {n} (rsn_Answer res)"
      using bolt_rr.query_answers_record [OF ok(1-4) assms(4) r fresh_resolver_facts(2) [OF ok(2)] servable, of n] n one by (auto simp: assms(5))
    then obtain rs where rs: "enumerates rs {n}" "list_all2 (\<lambda>r rr. record_RR E r = Inr rr) rs (rsn_Answer res)" by (auto simp: rrs_of_def)
    have "rs = [n]" by (rule enumerates_single [OF rs(1)])
    then have "rsn_Answer res = [Some rr]" using rs(2) n(5) by (auto simp: list_all2_Cons1)
    with res(1) show ?thesis by blast
  qed
  from answering_question [OF assms(1-3,7) this] that show thesis by blast
qed

lemma answer_missing:
  assumes "packages_ok E OS T H G C B" and "answering E OS T H B srv s" and "delivers C (cl_server c) (serveDNS E OS T H G)"
    and "bolt_inv E B s" and "bolt_content B s = \<lparr>abs_zones = {rec_Zone n}, abs_records = {}\<rparr>" and "example_rr E n rr"
    and "Fqdn E name = rec_Name n"
  obtains reply rtt r' where "Exchange E C c name TypeA (srv, s) = (Inr (reply, rtt), (srv\<lparr>srv_resolver := Some r'\<rparr>, s))"
    and "msg_Answer reply = []" and "answering E OS T H B (srv\<lparr>srv_resolver := Some r'\<rparr>) s"
proof -
  note ok = packages_okD [OF assms(1)]
  have n: "normal_record E n" "rec_Type n = TypeA" using assms(6) by (simp_all add: example_rr_def)
  have servable: "servable E (bolt_content B s)" by (simp add: servable_iff assms(5))
  have "\<exists>res. fst (Resolve E OS T H \<lparr>q_Name = rec_Name n, q_Qtype = TypeA, q_Qclass = ClassINET\<rparr> s r) = Inr res \<and> rsn_Answer res = []"
    if r: "resolver_ok E OS T H (fresh_resolver E H B) s r" for r
    using bolt_rr.query_answers_nothing [OF ok(1-4) assms(4) r fresh_resolver_facts(2,4) [OF ok(2)] servable n(1)] n(2)
    by (auto simp: assms(5) lookup_set_def)
  from answering_question [OF assms(1-3,7) this] that show thesis by blast
qed

lemma put_first: "put_content E n \<lparr>abs_zones = {}, abs_records = {}\<rparr> = \<lparr>abs_zones = {rec_Zone n}, abs_records = {n}\<rparr>"
  by (auto simp: put_content_def put_record_def)

lemma first_record_valid: "rec_Type n = TypeA \<Longrightarrow> zone_valid z False (zone_records z \<lparr>abs_zones = {z}, abs_records = {n}\<rparr>)"
  by (auto simp: zone_valid_def zone_records_def)

lemma empty_bolt_New:
  assumes "packages_ok E OS T H G C B" and "empty_bolt B d"
  shows "bolt_inv E B (bs_New d)" and "bolt_content B (bs_New d) = \<lparr>abs_zones = {}, abs_records = {}\<rparr>"
  using packages_okD [OF assms(1)] assms(2) by (simp_all add: bolt_inv_def bolt_content_def bs_New_def empty_bolt_def)

lemma bolt_inv_usable: "bolt_inv E B s \<Longrightarrow> bolt_usable B s"
  by (simp add: bolt_inv_def bolt_usable_def)

text \<open>
  A client that adds the first record to a store, asks for it, removes it and asks again.
\<close>

lemma add_lookup:
  assumes "packages_ok E OS T H G C B" and "empty_bolt B d" and "wired (bbolt_repo E B) srv" and "srv_resolver srv = Some (fresh_resolver E H B)"
    and "delivers C (cl_server c) (serveDNS E OS T H G)" and "example_rr E n rr" and "Fqdn E zone = rec_Zone n" and "Fqdn E name = rec_Name n"
  obtains reply rtt s1 response rtt1 r1 where "UpdateAdd E C c zone [Some rr] (srv, bs_New d) = (Inr (reply, rtt), (srv, s1))"
    and "msg_Rcode reply = RcodeSuccess"
    and "Exchange E C c name TypeA (srv, s1) = (Inr (response, rtt1), (srv\<lparr>srv_resolver := Some r1\<rparr>, s1))" and "msg_Answer response = [Some rr]"
    and "bolt_inv E B s1" and "bolt_content B s1 = \<lparr>abs_zones = {rec_Zone n}, abs_records = {n}\<rparr>"
    and "answering E OS T H B (srv\<lparr>srv_resolver := Some r1\<rparr>) s1" and "unat (bs_revision s1) \<le> 2"
proof -
  note ok = packages_okD [OF assms(1)] and new = empty_bolt_New [OF assms(1,2)]
  have n: "normal_record E n" "canonical E n rr" "rec_Class n = ClassINET" "rec_Type n = TypeA"
    using assms(6) by (simp_all add: example_rr_def)
  obtain reply rtt s1 m rr' where add: "UpdateAdd E C c zone [Some rr] (srv, bs_New d) = (Inr (reply, rtt), (srv, s1))" "bolt_inv E B s1"
    and effect: "if zone_valid (rec_Zone n) False (zone_records (rec_Zone n) (put_content E n (bolt_content B (bs_New d))))
      then msg_Rcode reply = RcodeSuccess \<and> bolt_content B s1 = put_content E n (bolt_content B (bs_New d))
      else msg_Rcode reply = RcodeServerFailure \<and> bolt_content B s1 = bolt_content B (bs_New d)"
    and m: "msg_Opcode m = OpcodeUpdate" "msg_Ns m = [Some rr']" "rr_Class E rr' = ClassINET"
      "serveDNS E OS T H G m (srv, bs_New d) = (Inr reply, (srv, s1))"
    using bolt_rr.program_add [OF new(1) ok(3) assms(3) ok(5,6,8) assms(5) n(1-3) assms(7)] by metis
  have stored: "msg_Rcode reply = RcodeSuccess" "bolt_content B s1 = \<lparr>abs_zones = {rec_Zone n}, abs_records = {n}\<rparr>"
    using effect first_record_valid [OF n(4)] by (simp_all add: new(2) put_first)
  obtain k where "k \<le> 1" "by_writes (bbolt_repo E B) k (bs_New d) s1"
    using single_update_writes [OF assms(3) m(1,2), of E "bs_New d" OS T H G] m(3,4) by auto
  then have "answering E OS T H B srv s1 \<and> unat (bs_revision s1) \<le> unat (bs_revision (bs_New d)) + 2"
    by (intro answering_write [OF ok(2) answering_start [OF ok(2) assms(3,4)] bolt_inv_usable [OF new(1)]]) (simp_all add: bs_New_def)
  then have answering: "answering E OS T H B srv s1" "unat (bs_revision s1) \<le> 2" by (simp_all add: bs_New_def)
  show thesis
    by (rule answer_stored [OF assms(1) answering(1) assms(5) add(2) stored(2) assms(6,8)])
      (rule that [OF add(1) stored(1) _ _ add(2) stored(2) _ answering(2)])
qed

lemma remove_lookup:
  assumes "packages_ok E OS T H G C B" and "bolt_inv E B s" and "bolt_content B s = \<lparr>abs_zones = {rec_Zone n}, abs_records = {n}\<rparr>"
    and "answering E OS T H B srv s" and "unat (bs_revision s) \<le> 2"
    and "delivers C (cl_server c) (serveDNS E OS T H G)" and "example_rr E n rr" and "Fqdn E zone = rec_Zone n" and "Fqdn E name = rec_Name n"
  obtains reply rtt s2 response rtt2 r2 where "UpdateRemove E C c zone [Some rr] (srv, s) = (Inr (reply, rtt), (srv, s2))"
    and "msg_Rcode reply = RcodeSuccess"
    and "Exchange E C c name TypeA (srv, s2) = (Inr (response, rtt2), (srv\<lparr>srv_resolver := Some r2\<rparr>, s2))" and "msg_Answer response = []"
proof -
  note ok = packages_okD [OF assms(1)]
  have n: "normal_record E n" "canonical E n rr" "rec_Class n = ClassINET" "rec_Type n = TypeA"
    using assms(7) by (simp_all add: example_rr_def)
  have wired: "wired (bbolt_repo E B) srv" using assms(4) by (simp add: answering_def)
  obtain reply rtt s2 m rr' where remove: "UpdateRemove E C c zone [Some rr] (srv, s) = (Inr (reply, rtt), (srv, s2))" "bolt_inv E B s2"
    and effect: "msg_Rcode reply = RcodeSuccess"
      "bolt_content B s2 = (bolt_content B s)\<lparr>abs_records := del_record E n (abs_records (bolt_content B s))\<rparr>"
    and m: "msg_Opcode m = OpcodeUpdate" "msg_Ns m = [Some rr']" "rr_Class E rr' = ClassNONE"
      "serveDNS E OS T H G m (srv, s) = (Inr reply, (srv, s2))"
    using bolt_rr.program_remove [OF assms(2) ok(3) wired ok(5,6,8) assms(6) n(1-3) assms(8)] by metis
  have empty: "bolt_content B s2 = \<lparr>abs_zones = {rec_Zone n}, abs_records = {}\<rparr>" by (simp add: effect(2) assms(3) del_record_def)
  obtain k where "k \<le> 1" "by_writes (bbolt_repo E B) k s s2"
    using single_update_writes [OF wired m(1,2), of E s OS T H G] m(3,4) by auto
  then have answering: "answering E OS T H B srv s2"
    using answering_write [OF ok(2) assms(4) bolt_inv_usable [OF assms(2)]] assms(5) by simp
  show thesis
    by (rule answer_missing [OF assms(1) answering assms(6) remove(2) empty assms(7,9)])
      (rule that [OF remove(1) effect(1)])
qed

subsection \<open>The programs run\<close>

text \<open>
  The system lets a program start: it makes the directory and an empty database in it, the server gets its sockets, the
  network loses no message to the address \<open>target\<close> of the running server, and what is printed is written.
\<close>

definition starts where
  "starts X pattern w N server B d srv \<longleftrightarrow>
     (\<exists>workdir w1 w2 w3. MkdirTemp X [] pattern w = (Inr workdir, w1) \<and>
        db_Open X (filepath_Join [workdir, ''dnsx.db'']) w1 = (Inr d, w2) \<and>
        Start N (Some server) w2 = (Inr (), Some srv, w3)) \<and>
     empty_bolt B d \<and> (\<forall>line w. \<exists>w'. Printf X line w = (Inr (), w'))"

lemma Start_Some: "Start N (Some s) w = (res, s', w') \<Longrightarrow> s' \<noteq> None"
  by (auto simp: Start_def Let_def split: option.splits if_splits prod.splits sum.splits)

lemma Start_keeps:
  "Start N (Some s) w = (Inr (), Some srv, w') \<Longrightarrow>
     srv_repo srv = srv_repo s \<and> srv_manager srv = srv_manager s \<and> srv_resolver srv = srv_resolver s"
  by (auto simp: Start_def Let_def split: option.splits if_splits prod.splits sum.splits)

lemma deferred_stdout:
  assumes "\<And>p. main_stdout (snd (cleanup p)) = main_stdout p"
  shows "main_stdout (snd (deferred cleanup rest p)) = main_stdout (snd (rest p))"
  using assms [of "snd (rest p)"] by (auto simp: deferred_def split: prod.split sum.split)

lemma cleanups_stdout:
  "main_stdout (snd (in_world call p)) = main_stdout p" "main_stdout (snd (with_store f p)) = main_stdout p"
  "main_stdout (snd (stop_server N p)) = main_stdout p"
  by (simp_all add: in_world_def with_store_def stop_server_def split: prod.split option.split)

text \<open>The steps of a program that succeed.\<close>

lemma main_start_fields [simp]:
  "main_world (main_start w) = w" "main_server (main_start w) = None" "main_store (main_start w) = None" "main_stdout (main_start w) = []"
  by (simp_all add: main_start_def)

lemma must_mkdir:
  assumes "MkdirTemp X [] pattern (main_world p) = (Inr workdir, w1)"
  shows "must (in_world (MkdirTemp X [] pattern)) rest p = rest workdir (p\<lparr>main_world := w1\<rparr>)"
  using assms by (simp add: must_def in_world_def)

lemma must_open:
  assumes "db_Open X path (main_world p) = (Inr d, w2)"
  shows "must (open_store X path) rest p = rest () (p\<lparr>main_world := w2, main_store := Some (bs_New d)\<rparr>)"
  using assms by (simp add: must_def open_store_def bs_Open_def)

lemma must_start:
  assumes "Start N (Some server) (main_world p) = (Inr (), Some srv, w3)"
  shows "must (start_server N server) rest p = rest () (p\<lparr>main_server := Some srv, main_world := w3\<rparr>)"
  using assms by (simp add: must_def start_server_def)

lemma opened_stdout:
  assumes "MkdirTemp X [] pattern w = (Inr workdir, w1)" and "db_Open X (path workdir) w1 = (Inr d, w2)"
  shows "main_stdout (snd (must (in_world (MkdirTemp X [] pattern)) (\<lambda>workdir. deferred (in_world (RemoveAll X workdir))
      (must (open_store X (path workdir)) (\<lambda>_. deferred (with_store (bs_Close B)) body))) (main_start w))) =
    main_stdout (snd (body ((main_start w)\<lparr>main_world := w2, main_store := Some (bs_New d)\<rparr>)))"
  using assms by (simp add: must_mkdir must_open deferred_stdout cleanups_stdout)

lemma served_stdout:
  assumes "Start N (Some server) (main_world p) = (Inr (), Some srv, w3)"
  shows "main_stdout (snd (must (start_server N server) (\<lambda>_. deferred (stop_server N) calls) p)) =
    main_stdout (snd (calls (p\<lparr>main_server := Some srv, main_world := w3\<rparr>)))"
  using assms by (simp add: must_start deferred_stdout cleanups_stdout)

text \<open>A call of the running server, and printing, as steps of a program.\<close>

lemma must_server:
  assumes "main_server p = Some srv" and "main_store p = Some store" and "call srv (srv, store) = (Inr x, (srv', store'))"
  shows "must (with_server call) rest p = rest x (p\<lparr>main_server := Some srv', main_store := Some store'\<rparr>)"
  using assms by (simp add: must_def with_server_def)

lemma must_print:
  assumes "\<forall>line w. \<exists>w'. Printf X line w = (Inr (), w')"
  shows "\<exists>w'. mustPrint X line p = (Inr (), p\<lparr>main_world := w', main_stdout := main_stdout p @ [line]\<rparr>)"
  using assms [rule_format, of "line @ [char_of (10::nat)]" "main_world p"] by (auto simp: mustPrint_def)

lemma srv_Client_resolver [simp]:
  "srv_Client N (Some (srv\<lparr>srv_resolver := r\<rparr>)) opts = srv_Client N (Some srv) opts"
  by (simp add: srv_Client_def clientTarget_def UDPAddr_def)

lemma UDPAddr_resolver [simp]: "UDPAddr N (Some (srv\<lparr>srv_resolver := r\<rparr>)) = UDPAddr N (Some srv)"
  by (simp add: UDPAddr_def)

lemma repository_server_facts:
  assumes "Start N (Some (NewServerWithRepository H config (Some (bbolt_repo E B)) [])) w = (Inr (), Some srv, w')"
  shows "wired (bbolt_repo E B) srv" and "srv_resolver srv = Some (fresh_resolver E H B)"
  using Start_keeps [OF assms]
  by (simp_all add: wired_def NewServerWithRepository_def NewServer_def syncManagedComponents_def ensureHandler_def Let_def NewManager_def)

lemma resolver_server_facts:
  assumes "Start N (Some (NewServerWithResolver H config (Some r) [])) w = (Inr (), Some srv, w')"
  shows "wired (rsv_repo r) srv" and "srv_resolver srv = Some r"
  using Start_keeps [OF assms]
  by (simp_all add: wired_def NewServerWithResolver_def NewServer_def syncManagedComponents_def ensureHandler_def Let_def NewManager_def)

text \<open>The records of the programs in normal form.\<close>

lemma fqdnName_literal:
  assumes "names_pkg_ok E" and "plain s" and "lowercase s" and "TrimSpace s = s" and "\<not> suffix ''.'' s"
  shows "fqdnName E s = s @ ''.''" and "Fqdn E s = s @ ''.''"
  using assms Fqdn_cases [OF assms(1), of s] by (simp_all add: fqdnName_def plain_def ToLower_lowercase)

definition in_example_com :: "Record \<Rightarrow> Record" where
  "in_example_com r = r\<lparr>rec_Zone := ''example.com.'', rec_Name := rec_Name r @ ''.'', rec_Class := ClassINET\<rparr>"

lemma example_names:
  assumes "names_pkg_ok E" and "s \<in> {''example.com'', ''api.example.com'', ''www.example.com'', ''ops.example.com''}"
  shows "fqdnName E s = s @ ''.''" and "Fqdn E s = s @ ''.''"
proof -
  have "list_all (\<lambda>s. plain s \<and> lowercase s \<and> TrimSpace s = s \<and> \<not> suffix ''.'' s)
      [''example.com'', ''api.example.com'', ''www.example.com'', ''ops.example.com'']" by code_simp
  then have "plain s" "lowercase s" "TrimSpace s = s" "\<not> suffix ''.'' s" using assms(2) by auto
  from fqdnName_literal [OF assms(1) this] show "fqdnName E s = s @ ''.''" "Fqdn E s = s @ ''.''" .
qed

lemma example_records:
  assumes "names_pkg_ok E" and "r \<in> {internal_record, www_record}"
  shows "NormalizeRecord E r = Inr (in_example_com r)" and "plain_record r"
proof -
  have lit: "list_all (\<lambda>r. plain_record r \<and> rec_Zone r = ''example.com'' \<and> rec_Name r \<in> {''api.example.com'', ''www.example.com''} \<and>
      TrimSpace (rec_Data r) = rec_Data r \<and> rec_Data r \<noteq> [] \<and> rec_Type r \<noteq> 0 \<and> rec_Class r = 0) [internal_record, www_record]" by code_simp
  then have r: "plain_record r" "rec_Zone r = ''example.com''" "rec_Name r \<in> {''api.example.com'', ''www.example.com''}"
    "TrimSpace (rec_Data r) = rec_Data r" "rec_Data r \<noteq> []" "rec_Type r \<noteq> 0" "rec_Class r = 0" using assms(2) by auto
  then have names: "fqdnName E (rec_Zone r) = ''example.com.''" "fqdnName E (rec_Name r) = rec_Name r @ ''.''"
    using example_names(1) [OF assms(1)] by auto
  have "list_all (\<lambda>n. dns_name (n @ ''.'') \<and> in_zone ''example.com.'' (n @ ''.'') \<and> n @ ''.'' \<noteq> ''.'')
      [''api.example.com'', ''www.example.com''] \<and> dns_name ''example.com.''" by code_simp
  then have "IsSubDomain E ''example.com.'' (rec_Name r @ ''.'')" "rec_Name r @ ''.'' \<noteq> ''.''"
    using IsSubDomain_in_zone [OF assms(1)] r(3) by auto
  with r names show "NormalizeRecord E r = Inr (in_example_com r)" by (auto simp: NormalizeRecord_Inr in_example_com_def)
  show "plain_record r" by (rule r)
qed

lemma internal_calls_print:
  assumes "packages_ok E OS T H G C B" and "empty_bolt B d" and "wired (bbolt_repo E B) srv" and "srv_resolver srv = Some (fresh_resolver E H B)"
    and "delivers C (cl_server (srv_Client N (Some srv) [])) (serveDNS E OS T H G)" and "\<forall>line w. \<exists>w'. Printf X line w = (Inr (), w')"
    and "canonical E (in_example_com internal_record) rr" and "plain (additionalTarget E (Some rr))"
    and "main_server p = Some srv" and "main_store p = Some (bs_New d)" and "main_stdout p = []"
  shows "main_stdout (snd (internal_calls E N C X p)) = [''answers after upsert: 1'', ''answers after delete: 0'']"
proof -
  let ?n = "in_example_com internal_record" and ?c = "srv_Client N (Some srv) []"
  note names = packages_okD(11) [OF assms(1)]
  note r = example_records [OF names, of internal_record, simplified]
  have n: "normal_record E ?n" by (rule normal_record_NormalizeRecord [OF names r(2,1)])
  then have ex: "example_rr E ?n rr" using assms(7,8) by (simp add: example_rr_def in_example_com_def internal_record_def)
  have rr: "record_RR E ?n = Inr (Some rr)" using assms(7) by (simp add: canonical_def)
  have zone: "Fqdn E (rec_Zone ?n) = rec_Zone ?n" by (rule fqdn_fixed(1) [OF names normal_record_zone [OF n]])
  have name: "Fqdn E ''api.example.com'' = rec_Name ?n"
    using example_names(2) [OF names, of "''api.example.com''"] by (simp add: in_example_com_def internal_record_def)
  obtain reply rtt s1 response rtt1 r1 where one:
    "UpdateAdd E C ?c (rec_Zone ?n) [Some rr] (srv, bs_New d) = (Inr (reply, rtt), (srv, s1))"
    "Exchange E C ?c ''api.example.com'' TypeA (srv, s1) = (Inr (response, rtt1), (srv\<lparr>srv_resolver := Some r1\<rparr>, s1))"
    "msg_Answer response = [Some rr]"
    and s1: "bolt_inv E B s1" "bolt_content B s1 = \<lparr>abs_zones = {rec_Zone ?n}, abs_records = {?n}\<rparr>"
      "answering E OS T H B (srv\<lparr>srv_resolver := Some r1\<rparr>) s1" "unat (bs_revision s1) \<le> 2"
    by (rule add_lookup [OF assms(1-5) ex zone name])
  obtain reply2 rtt2 s2 response2 rtt3 r2 where two:
    "UpdateRemove E C ?c (rec_Zone ?n) [Some rr] (srv\<lparr>srv_resolver := Some r1\<rparr>, s1) = (Inr (reply2, rtt2), (srv\<lparr>srv_resolver := Some r1\<rparr>, s2))"
    "Exchange E C ?c ''api.example.com'' TypeA (srv\<lparr>srv_resolver := Some r1\<rparr>, s2) =
       (Inr (response2, rtt3), (srv\<lparr>srv_resolver := Some r1, srv_resolver := Some r2\<rparr>, s2))"
    "msg_Answer response2 = []"
    by (rule remove_lookup [OF assms(1) s1 assms(5) ex zone name])
  let ?p1 = "p\<lparr>main_server := Some (srv\<lparr>srv_resolver := Some r1\<rparr>), main_store := Some s1\<rparr>"
  obtain w1 where w1: "mustPrint X ''answers after upsert: 1'' ?p1 = (Inr (), ?p1\<lparr>main_world := w1, main_stdout := [''answers after upsert: 1'']\<rparr>)"
    using must_print [OF assms(6), of "''answers after upsert: 1''" ?p1] assms(11) by auto
  let ?p2 = "p\<lparr>main_world := w1, main_stdout := [''answers after upsert: 1''], main_server := Some (srv\<lparr>srv_resolver := Some r2\<rparr>), main_store := Some s2\<rparr>"
  obtain w2 where w2: "mustPrint X ''answers after delete: 0'' ?p2 =
      (Inr (), ?p2\<lparr>main_world := w2, main_stdout := [''answers after upsert: 1'', ''answers after delete: 0'']\<rparr>)"
    using must_print [OF assms(6), of "''answers after delete: 0''" ?p2] by auto
  have upsert: "srv_UpsertRecord E N C (Some srv) internal_record [] (srv, bs_New d) = (Inr (reply, rtt), (srv, s1))"
    using one(1) by (simp add: srv_UpsertRecord_def r(1) rr)
  have delete: "srv_DeleteRecord E N C (Some (srv\<lparr>srv_resolver := Some r1\<rparr>)) internal_record [] (srv\<lparr>srv_resolver := Some r1\<rparr>, s1) =
      (Inr (reply2, rtt2), (srv\<lparr>srv_resolver := Some r1\<rparr>, s2))"
    using two(1) by (simp add: srv_DeleteRecord_def r(1) rr)
  have dec: "dec (Suc 0) = ''1''" "dec 0 = ''0''" by code_simp+
  have "internal_calls E N C X p = (Inr (), ?p2\<lparr>main_world := w2, main_stdout := [''answers after upsert: 1'', ''answers after delete: 0'']\<rparr>)"
    using assms(9,10) upsert delete one(2,3) two(2,3) w1 w2
    by (simp add: internal_calls_def must_def with_server_def srv_Query_def dec)
  then show ?thesis by simp
qed


lemma embedded_calls_print:
  assumes "packages_ok E OS T H G C B" and "wired (bbolt_repo E B) srv" and "srv_resolver srv = Some (fresh_resolver E H B)"
    and "delivers C (cl_server (srv_Client N (Some srv) [])) (serveDNS E OS T H G)" and "\<forall>line w. \<exists>w'. Printf X line w = (Inr (), w')"
    and "canonical E (in_example_com www_record) rr" and "plain (additionalTarget E (Some rr))" and "as_A C rr = Some ''10.0.0.10''"
    and "bolt_inv E B s" and "bolt_content B s = \<lparr>abs_zones = {''example.com.''}, abs_records = {in_example_com www_record}\<rparr>"
    and "main_server p = Some srv" and "main_store p = Some s" and "main_stdout p = []"
  shows "main_stdout (snd (embedded_calls E N C X p)) =
    [''server listening on '' @ UDPAddr N (Some srv), ''www.example.com -> [10.0.0.10]'']"
proof -
  let ?n = "in_example_com www_record" and ?c = "srv_Client N (Some srv) []"
  note names = packages_okD(11) [OF assms(1)]
  note r = example_records [OF names, of www_record, simplified]
  have n: "normal_record E ?n" by (rule normal_record_NormalizeRecord [OF names r(2,1)])
  then have ex: "example_rr E ?n rr" using assms(6,7) by (simp add: example_rr_def in_example_com_def www_record_def)
  have name: "Fqdn E ''www.example.com'' = rec_Name ?n"
    using example_names(2) [OF names, of "''www.example.com''"] by (simp add: in_example_com_def www_record_def)
  have content: "bolt_content B s = \<lparr>abs_zones = {rec_Zone ?n}, abs_records = {?n}\<rparr>" by (simp add: assms(10) in_example_com_def)
  obtain response rtt r' where lookup: "Exchange E C ?c ''www.example.com'' TypeA (srv, s) = (Inr (response, rtt), (srv\<lparr>srv_resolver := Some r'\<rparr>, s))"
    "msg_Answer response = [Some rr]"
    by (rule answer_stored [OF assms(1) answering_start [OF packages_okD(2) [OF assms(1)] assms(2,3)] assms(4,9) content ex name])
  then have addresses: "srv_LookupA E N C (Some srv) ''www.example.com'' [] (srv, s) = (Inr [''10.0.0.10''], (srv\<lparr>srv_resolver := Some r'\<rparr>, s))"
    using assms(8) by (simp add: srv_LookupA_def lookupServerValues_def cl_LookupA_def cl_Lookup_def FilterMap_def map_filter_def)
  let ?lines = "[''server listening on '' @ UDPAddr N (Some srv)]" and ?p1 = "p\<lparr>main_server := Some (srv\<lparr>srv_resolver := Some r'\<rparr>), main_store := Some s\<rparr>"
  obtain w1 where w1: "mustPrint X (''server listening on '' @ UDPAddr N (Some srv)) ?p1 = (Inr (), ?p1\<lparr>main_world := w1, main_stdout := ?lines\<rparr>)"
    using must_print [OF assms(5), of "''server listening on '' @ UDPAddr N (Some srv)" ?p1] assms(13) by auto
  let ?p2 = "?p1\<lparr>main_world := w1, main_stdout := ?lines\<rparr>"
  obtain w2 where w2: "mustPrint X ''www.example.com -> [10.0.0.10]'' ?p2 =
      (Inr (), ?p2\<lparr>main_world := w2, main_stdout := ?lines @ [''www.example.com -> [10.0.0.10]'']\<rparr>)"
    using must_print [OF assms(5), of "''www.example.com -> [10.0.0.10]''" ?p2] by auto
  have "embedded_calls E N C X p = (Inr (), ?p2\<lparr>main_world := w2, main_stdout := ?lines @ [''www.example.com -> [10.0.0.10]'']\<rparr>)"
    using assms(11,12) addresses w1 w2 by (simp add: embedded_calls_def must_def with_server_def)
  then show ?thesis by simp
qed

definition ops_record :: Record where
  "ops_record = \<lparr>rec_Zone = ''example.com.'', rec_Name = ''ops.example.com.'', rec_TTL = 60, rec_Class = ClassINET, rec_Type = TypeA,
     rec_Data = ''10.0.0.31''\<rparr>"

lemma ops_record_normal:
  assumes "names_pkg_ok E"
  shows "normal_record E ops_record"
proof -
  have lit: "plain_record ops_record" "dns_name ''example.com.''" "dns_name ''ops.example.com.''" "in_zone ''example.com.'' ''ops.example.com.''"
    "TrimSpace ''example.com.'' = ''example.com.''" "TrimSpace ''ops.example.com.'' = ''ops.example.com.''" "TrimSpace ''10.0.0.31'' = ''10.0.0.31''"
    by code_simp+
  then have "fqdnName E ''example.com.'' = ''example.com.''" "fqdnName E ''ops.example.com.'' = ''ops.example.com.''"
    using fqdnName_fix [OF assms] trimmed_of_TrimSpace by metis+
  then show ?thesis using lit IsSubDomain_in_zone [OF assms lit(2,3)]
    by (simp add: normal_record_def NormalizeRecord_Inr ops_record_def)
qed

lemma client_calls_print:
  assumes "packages_ok E OS T H G C B" and "empty_bolt B d" and "wired (bbolt_repo E B) srv" and "srv_resolver srv = Some (fresh_resolver E H B)"
    and "delivers C (cl_server client) (serveDNS E OS T H G)" and "\<forall>line w. \<exists>w'. Printf X line w = (Inr (), w')"
    and "NewRR E ''ops.example.com. 60 IN A 10.0.0.31'' = Inr (Some rr)"
    and "canonical E ops_record rr" and "plain (additionalTarget E (Some rr))" and "RcodeToString X RcodeSuccess = ''NOERROR''"
    and "main_server p = Some srv" and "main_store p = Some (bs_New d)" and "main_stdout p = []"
  shows "main_stdout (snd (client_calls E C X client p)) = [''update rcode: NOERROR'', ''answer count: 1'', ''delete rcode: NOERROR'']"
proof -
  note names = packages_okD(11) [OF assms(1)]
  have ex: "example_rr E ops_record rr"
    using ops_record_normal [OF names] assms(8,9) by (simp add: example_rr_def) (simp add: ops_record_def)
  have zone: "Fqdn E ''example.com'' = rec_Zone ops_record" and name: "Fqdn E ''ops.example.com'' = rec_Name ops_record"
    using example_names(2) [OF names, of "''example.com''"] example_names(2) [OF names, of "''ops.example.com''"] by (simp_all add: ops_record_def)
  obtain reply rtt s1 response rtt1 r1 where one:
    "UpdateAdd E C client ''example.com'' [Some rr] (srv, bs_New d) = (Inr (reply, rtt), (srv, s1))" "msg_Rcode reply = RcodeSuccess"
    "Exchange E C client ''ops.example.com'' TypeA (srv, s1) = (Inr (response, rtt1), (srv\<lparr>srv_resolver := Some r1\<rparr>, s1))"
    "msg_Answer response = [Some rr]"
    and s1: "bolt_inv E B s1" "bolt_content B s1 = \<lparr>abs_zones = {rec_Zone ops_record}, abs_records = {ops_record}\<rparr>"
      "answering E OS T H B (srv\<lparr>srv_resolver := Some r1\<rparr>) s1" "unat (bs_revision s1) \<le> 2"
    by (rule add_lookup [OF assms(1-5) ex zone name])
  obtain reply2 rtt2 s2 where two:
    "UpdateRemove E C client ''example.com'' [Some rr] (srv\<lparr>srv_resolver := Some r1\<rparr>, s1) = (Inr (reply2, rtt2), (srv\<lparr>srv_resolver := Some r1\<rparr>, s2))"
    "msg_Rcode reply2 = RcodeSuccess"
    by (rule remove_lookup [OF assms(1) s1 assms(5) ex zone name])
  let ?l1 = "[''update rcode: NOERROR'']" and ?l2 = "[''update rcode: NOERROR'', ''answer count: 1'']"
  let ?l3 = "[''update rcode: NOERROR'', ''answer count: 1'', ''delete rcode: NOERROR'']"
  let ?p1 = "p\<lparr>main_server := Some srv, main_store := Some s1\<rparr>"
  obtain w1 where w1: "mustPrint X ''update rcode: NOERROR'' ?p1 = (Inr (), ?p1\<lparr>main_world := w1, main_stdout := ?l1\<rparr>)"
    using must_print [OF assms(6), of "''update rcode: NOERROR''" ?p1] assms(13) by auto
  let ?p2 = "p\<lparr>main_world := w1, main_stdout := ?l1, main_server := Some (srv\<lparr>srv_resolver := Some r1\<rparr>), main_store := Some s1\<rparr>"
  obtain w2 where w2: "mustPrint X ''answer count: 1'' ?p2 = (Inr (), ?p2\<lparr>main_world := w2, main_stdout := ?l2\<rparr>)"
    using must_print [OF assms(6), of "''answer count: 1''" ?p2] by auto
  let ?p3 = "p\<lparr>main_world := w2, main_stdout := ?l2, main_server := Some (srv\<lparr>srv_resolver := Some r1\<rparr>), main_store := Some s2\<rparr>"
  obtain w3 where w3: "mustPrint X ''delete rcode: NOERROR'' ?p3 = (Inr (), ?p3\<lparr>main_world := w3, main_stdout := ?l3\<rparr>)"
    using must_print [OF assms(6), of "''delete rcode: NOERROR''" ?p3] by auto
  have dec: "dec (Suc 0) = ''1''" by code_simp
  have lookup: "cl_Lookup E C client ''ops.example.com'' TypeA (srv, s1) = (Inr [Some rr], (srv\<lparr>srv_resolver := Some r1\<rparr>, s1))"
    using one(3,4) by (simp add: cl_Lookup_def)
  have "client_calls E C X client p = (Inr (), ?p3\<lparr>main_world := w3, main_stdout := ?l3\<rparr>)"
    using assms(7,10-12) one(1,2) two lookup w1 w2 w3
    by (simp add: client_calls_def must_def with_server_def dec)
  then show ?thesis by simp
qed

section \<open>Properties of the programs\<close>

text \<open>
  C32: The program \<^verbatim>\<open>examples/internal-flow\<close> shows what it says: when the system lets it start and the packages behave as documented, it
  prints one answer after the upsert and none after the deletion, whatever the resolver kept in its cache
  in between.
\<close>

theorem internal_main_prints:
  fixes C :: "('rr, ('d Store, 'c, 'tr, 'h, 'u, 'l, 'e) Server \<times> 'd Store) client_pkg" and srv :: "('d Store, 'c, 'tr, 'h, 'u, 'l, 'e) Server"
  assumes "packages_ok E OS T H G C B"
    and "starts X ''dnsx-example-internal-*'' w N (NewServerWithRepository H loopback (Some (bbolt_repo E B)) []) B d srv"
    and "delivers C (cl_server (srv_Client N (Some srv) [])) (serveDNS E OS T H G)"
    and "canonical E (in_example_com internal_record) rr" and "plain (additionalTarget E (Some rr))"
  shows "main_stdout (snd (internal_main E H B N C X (main_start w))) = [''answers after upsert: 1'', ''answers after delete: 0'']"
proof -
  obtain workdir w1 w2 w3 where made: "MkdirTemp X [] ''dnsx-example-internal-*'' w = (Inr workdir, w1)"
    "db_Open X (filepath_Join [workdir, ''dnsx.db'']) w1 = (Inr d, w2)"
    and start: "Start N (Some (NewServerWithRepository H loopback (Some (bbolt_repo E B)) [])) w2 = (Inr (), Some srv, w3)"
    and rest: "empty_bolt B d" "\<forall>line w. \<exists>w'. Printf X line w = (Inr (), w')"
    using assms(2) unfolding starts_def by blast
  let ?p = "(main_start w)\<lparr>main_world := w2, main_store := Some (bs_New d)\<rparr>"
  have "main_stdout (snd (internal_main E H B N C X (main_start w))) =
      main_stdout (snd (internal_calls E N C X (?p\<lparr>main_server := Some srv, main_world := w3\<rparr>)))"
    unfolding internal_main_def
    by (subst opened_stdout [where path = "\<lambda>workdir. filepath_Join [workdir, ''dnsx.db'']", OF made], subst served_stdout)
      (use start in simp_all)
  also have "\<dots> = [''answers after upsert: 1'', ''answers after delete: 0'']"
    by (rule internal_calls_print [OF assms(1) rest(1) repository_server_facts [OF start] assms(3) rest(2) assms(4,5)]) simp_all
  finally show ?thesis .
qed


definition main_ref :: "(ref_db, ref_net) main_pkg" where
  "main_ref =
     \<lparr>MkdirTemp = (\<lambda>parent pattern w. (Inr ''/tmp/dnsx-1'', w)), RemoveAll = (\<lambda>path w. (Inr (), w)),
      db_Open = (\<lambda>path w. if path = ''/tmp/dnsx-1/dnsx.db'' then (Inr ([], []), w) else (Inl ''no such directory'', w)),
      Printf = (\<lambda>line w. (Inr (), w)), RcodeToString = (\<lambda>rcode. if rcode = 0 then ''NOERROR'' else ''SERVFAIL'')\<rparr>"

abbreviation example_server where
  "example_server \<equiv> (NewServerWithRepository hot_ref loopback (Some (bbolt_repo rr_ref bolt_ref)) [] ::
     (_, _, (string \<times> string) list, unit, nat, nat, nat) Server)"

abbreviation example_client where
  "example_client \<equiv> (client_ref ref_handler ::
     (_, (ref_db Store, _, (string \<times> string) list, unit, nat, nat, nat) Server \<times> ref_db Store) client_pkg)"

theorem internal_main_prints_witness:
  "main_stdout (snd (internal_main rr_ref hot_ref bolt_ref (ref_network :: (unit, _, _, _, _) net_pkg) example_client main_ref
     (main_start empty_net))) = [''answers after upsert: 1'', ''answers after delete: 0'']"
proof -
  let ?start = "Start (ref_network :: (unit, _, _, _, _) net_pkg) (Some example_server) empty_net"
  have packages: "packages_ok rr_ref set_ref trie_ref hot_ref msg_ref example_client bolt_ref"
    by (simp add: packages_ok_def rr_ref_ok hot_ref_ok set_ref_ok trie_ref_ok msg_ref_ok client_ref_ok client_question_ok rr_ref_line_ok bolt_ref_ok
        lossless_ref)
  have "fst ?start = Inr ()" by code_simp
  then obtain srv w3 where start: "?start = (Inr (), Some srv, w3)"
    using Start_Some [of ref_network example_server empty_net "Inr ()" "fst (snd ?start)" "snd (snd ?start)"]
    by (cases ?start) auto
  have path: "filepath_Join [''/tmp/dnsx-1'', ''dnsx.db''] = ''/tmp/dnsx-1/dnsx.db''" by code_simp
  have started: "starts main_ref ''dnsx-example-internal-*'' empty_net ref_network example_server bolt_ref ([], []) srv"
    unfolding starts_def using start path by (simp add: main_ref_def empty_bolt_def) (simp add: bolt_ref_def)
  have line: "canonical rr_ref (in_example_com internal_record) ((upd_rr ''api.example.com.'' ClassINET TypeA ''10.0.0.21'')\<lparr>rf_ttl := 120\<rparr>)" by code_simp
  have target: "plain (additionalTarget rr_ref (Some ((upd_rr ''api.example.com.'' ClassINET TypeA ''10.0.0.21'')\<lparr>rf_ttl := 120\<rparr>)))" by code_simp
  show ?thesis by (rule internal_main_prints [OF packages started delivers_ref line target])
qed

lemma client_main_prints:
  fixes C :: "('rr, ('d Store, 'c, 'tr, 'h, 'u, 'l, 'e) Server \<times> 'd Store) client_pkg" and srv :: "('d Store, 'c, 'tr, 'h, 'u, 'l, 'e) Server"
  assumes "packages_ok E OS T H G C B"
    and "starts X ''dnsx-example-client-*'' w N (NewServerWithRepository H loopback (Some (bbolt_repo E B)) []) B d srv"
    and "delivers C (cl_server (NewClient (UDPAddr N (Some srv)) [])) (serveDNS E OS T H G)"
    and "NewRR E ''ops.example.com. 60 IN A 10.0.0.31'' = Inr (Some rr)"
    and "canonical E ops_record rr" and "plain (additionalTarget E (Some rr))" and "RcodeToString X RcodeSuccess = ''NOERROR''"
  shows "main_stdout (snd (client_main E H B N C X (main_start w))) =
    [''update rcode: NOERROR'', ''answer count: 1'', ''delete rcode: NOERROR'']"
proof -
  obtain workdir w1 w2 w3 where made: "MkdirTemp X [] ''dnsx-example-client-*'' w = (Inr workdir, w1)"
    "db_Open X (filepath_Join [workdir, ''dnsx.db'']) w1 = (Inr d, w2)"
    and start: "Start N (Some (NewServerWithRepository H loopback (Some (bbolt_repo E B)) [])) w2 = (Inr (), Some srv, w3)"
    and rest: "empty_bolt B d" "\<forall>line w. \<exists>w'. Printf X line w = (Inr (), w')"
    using assms(2) unfolding starts_def by blast
  let ?p = "(main_start w)\<lparr>main_world := w2, main_store := Some (bs_New d)\<rparr>"
  let ?q = "?p\<lparr>main_server := Some srv, main_world := w3\<rparr>"
  have "main_stdout (snd (client_main E H B N C X (main_start w))) =
      main_stdout (snd (client_calls E C X (NewClient (UDPAddr N (main_server ?q)) []) ?q))"
    unfolding client_main_def
    by (subst opened_stdout [where path = "\<lambda>workdir. filepath_Join [workdir, ''dnsx.db'']", OF made], subst served_stdout)
      (use start in simp_all)
  also have "\<dots> = [''update rcode: NOERROR'', ''answer count: 1'', ''delete rcode: NOERROR'']"
    by (rule client_calls_print [OF assms(1) rest(1) repository_server_facts [OF start] _ rest(2) assms(4-7)]) (use assms(3) in simp_all)
  finally show ?thesis .
qed

lemma embedded_main_prints:
  fixes C :: "('rr, ('d Store, 'c, 'tr, 'h, 'u, 'l, 'e) Server \<times> 'd Store) client_pkg" and srv :: "('d Store, 'c, 'tr, 'h, 'u, 'l, 'e) Server"
  assumes "packages_ok E OS T H G C B"
    and "starts X ''dnsx-example-embedded-*'' w N (NewServerWithResolver H loopback (Some (fresh_resolver E H B)) []) B d srv"
    and "delivers C (cl_server (srv_Client N (Some srv) [])) (serveDNS E OS T H G)"
    and "canonical E (in_example_com www_record) rr" and "plain (additionalTarget E (Some rr))" and "as_A C rr = Some ''10.0.0.10''"
  shows "main_stdout (snd (embedded_main E H B N C X (main_start w))) =
    [''server listening on '' @ UDPAddr N (Some srv), ''www.example.com -> [10.0.0.10]'']"
proof -
  obtain workdir w1 w2 w3 where made: "MkdirTemp X [] ''dnsx-example-embedded-*'' w = (Inr workdir, w1)"
    "db_Open X (filepath_Join [workdir, ''dnsx.db'']) w1 = (Inr d, w2)"
    and start: "Start N (Some (NewServerWithResolver H loopback (Some (fresh_resolver E H B)) [])) w2 = (Inr (), Some srv, w3)"
    and rest: "empty_bolt B d" "\<forall>line w. \<exists>w'. Printf X line w = (Inr (), w')"
    using assms(2) unfolding starts_def by blast
  note new = empty_bolt_New [OF assms(1) rest(1)] and r = example_records [OF packages_okD(11) [OF assms(1)], of www_record, simplified]
  obtain s where s: "bs_SaveRecord E B www_record (bs_New d) = (Inr (), s)" "bolt_inv E B s"
    "bolt_content B s = put_content E (in_example_com www_record) (bolt_content B (bs_New d))"
    using bolt_SaveRecord_step [OF new(1) r(2,1)] by (auto simp: put_content_def)
  have content: "bolt_content B s = \<lparr>abs_zones = {''example.com.''}, abs_records = {in_example_com www_record}\<rparr>"
    using s(3) by (simp add: new(2) put_first in_example_com_def)
  have wired: "wired (bbolt_repo E B) srv"
    using resolver_server_facts(1) [OF start] by (simp add: fresh_resolver_facts(2) [OF packages_okD(2) [OF assms(1)]])
  let ?p = "(main_start w)\<lparr>main_world := w2, main_store := Some (bs_New d)\<rparr>"
  let ?q = "?p\<lparr>main_store := Some s, main_server := Some srv, main_world := w3\<rparr>"
  have save: "with_store (bs_SaveRecord E B www_record) ?p = (Inr (), ?p\<lparr>main_store := Some s\<rparr>)"
    using s(1) by (simp add: with_store_def)
  have "main_stdout (snd (embedded_main E H B N C X (main_start w))) = main_stdout (snd (embedded_calls E N C X ?q))"
    unfolding embedded_main_def
    by (subst opened_stdout [where path = "\<lambda>workdir. filepath_Join [workdir, ''dnsx.db'']", OF made], subst must_def,
        simp only: save prod.case sum.case, subst served_stdout) (use start in simp_all)
  also have "\<dots> = [''server listening on '' @ UDPAddr N (Some srv), ''www.example.com -> [10.0.0.10]'']"
    by (rule embedded_calls_print [OF assms(1) wired resolver_server_facts(2) [OF start] assms(3) rest(2) assms(4-6) s(2) content]) simp_all
  finally show ?thesis .
qed

end
