(* ===== verification/Spec2Isabelle.thy ===== *)
theory Spec2Isabelle
  imports Manager_Change Manager_Concurrent Example_Output
begin

text \<open>
  A verification of dnsx, an authoritative DNS server with a managed store of zones and records, written
  in Go. The names of files are relative to \<^verbatim>\<open>src/\<close>.

  \<^bold>\<open>The program.\<close> Zones and records are kept by a repository, in memory (\<^verbatim>\<open>dnsserver/store_memory.go\<close>) or in a
  bbolt database (\<^verbatim>\<open>dnsserver/store/bbolt\<close>). The manager validates and applies every change. The resolver answers
  questions from the repository, with an index of the zones and a cache of responses. The server owns
  the sockets, hands questions to the resolver and dynamic updates to the manager, and has a client
  that sends both to itself; the package \<^verbatim>\<open>dnsclient\<close> makes the messages. The command, \<^verbatim>\<open>cmd/server\<close>, reads a
  configuration, opens a bbolt database with an optional seed, and runs the server and an HTTP interface for the
  administrator on it. Three programs under \<^verbatim>\<open>examples\<close> put the packages together.

  \<^bold>\<open>Conventions.\<close> A struct is a record with a prefix for its fields, a Go function that returns a value or an error is a sum
  (\<open>Inl\<close> the error), a method that changes state returns the new state beside the result, on errors too. A nil pointer
  or interface is \<open>None\<close>, a panic is the error \<open>Panic\<close>. Integers have their width, \<^verbatim>\<open>time.Duration\<close> is a 64-bit word.
  Packages that are not part of the repository are records of functions which the definitions take
  as arguments (\<open>E\<close> names and resource records, \<open>OS\<close> ordered sets, \<open>M\<close> concurrent maps, \<open>T\<close> the prefix tree, \<open>H\<close> the cache,
  \<open>B\<close> the database, \<open>G\<close> and \<open>C\<close> messages and the client, \<open>N\<close> the network, \<open>F\<close> files, \<open>P\<close> what HTTP requests are decoded with, or
  flags and configuration, \<open>X\<close> directories and output, in \<open>Admin_Server\<close> \<open>T\<close> sockets); predicates such as \<open>names_pkg_ok\<close> and
  \<open>mapping_pkg_ok\<close> state the documented behaviour the theorems rely on, and for each record there is an executable instance that
  meets its predicate, on which the witnesses run the model. Log messages and contexts are left out.

  \<^bold>\<open>Theories.\<close>
  \<^item> \<open>Prelude\<close>, \<open>Go_Std\<close>, \<open>Packages\<close>: types, sorting by a comparison (locale \<open>keyed_order\<close>), the string functions of
    Go, the imported packages.
  \<^item> \<open>Records\<close>, \<open>RR\<close>: \<^verbatim>\<open>record.go\<close>, \<^verbatim>\<open>errors.go\<close>, \<^verbatim>\<open>store_helpers.go\<close>, \<^verbatim>\<open>record_filter.go\<close>; normalisation, storage
    keys, filters, conversion to and from resource records.
  \<^item> \<open>Repository\<close>: \<^verbatim>\<open>store.go\<close>, the interface of the stores, the abstract content of a store and the contract between the
    two (locale \<open>repository\<close>). \<open>Memory_Store\<close> and \<open>Bbolt_Store\<close> are its two interpretations.
  \<^item> \<open>Validation\<close>, \<open>Snapshot\<close>: \<^verbatim>\<open>validation.go\<close>, \<^verbatim>\<open>snapshot.go\<close>; the rules of a zone and its RRsets.
  \<^item> \<open>Manager\<close>, \<open>Manager_Change\<close>, \<open>Seed\<close>, \<open>Store_Files\<close>: \<^verbatim>\<open>manager*.go\<close>, \<^verbatim>\<open>bootstrap.go\<close>; changes, previews, batches and imports;
    reading seeds and opening databases. \<open>Manager_Concurrent\<close> has the methods of the manager as sequences of calls of the repository,
    which goroutines interleave.
  \<^item> \<open>Zone_Index\<close>, \<open>Resolver\<close>, \<open>Resolver_Answers\<close>, \<open>Response_Cache\<close>, \<open>Query\<close>: \<^verbatim>\<open>zone_index.go\<close>, \<^verbatim>\<open>resolver*.go\<close>,
    \<^verbatim>\<open>cache_config.go\<close>, \<^verbatim>\<open>cache_hot.go\<close>; the choice of the zone, authoritative answers, the cache and the resolver as an object
    (locales \<open>rr_repository\<close>, \<open>revisioned\<close>).
  \<^item> \<open>Client\<close>: \<^verbatim>\<open>dnsclient/client.go\<close>, \<^verbatim>\<open>lookup_typed.go\<close>.
  \<^item> \<open>Server\<close>, \<open>Update\<close>, \<open>Server_Client\<close>: \<^verbatim>\<open>server.go\<close>, \<^verbatim>\<open>server_lifecycle.go\<close>, \<^verbatim>\<open>update.go\<close>, \<^verbatim>\<open>server_client.go\<close>,
    \<^verbatim>\<open>server_lookup.go\<close>; construction, life cycle, requests and the server as its own client.
  \<^item> \<open>Admin_Http\<close>, \<open>Admin_Facts\<close>, \<open>Admin_Server\<close>: \<^verbatim>\<open>cmd/server/http.go\<close>, \<^verbatim>\<open>http_decode.go\<close>, \<^verbatim>\<open>admin_server.go\<close>; routes, decoding,
    handlers, and when the HTTP server listens.
  \<^item> \<open>Command_Config\<close>, \<open>Command_App\<close>, \<open>Application\<close>, \<open>Client_Reads\<close>: \<^verbatim>\<open>cmd/server/config.go\<close>, \<^verbatim>\<open>main.go\<close>, \<^verbatim>\<open>app.go\<close>; the
    configuration, the parts made from it, and the application as a whole: \<open>app_step\<close> is a DNS message, an HTTP request or the
    passing of time, \<open>app_run\<close> a sequence of them.
  \<^item> \<open>Example_Programs\<close>, \<open>Example_Output\<close>: the programs under \<^verbatim>\<open>examples\<close>, as sequences of calls with their panics and deferred
    calls.

  \<^bold>\<open>What is proved.\<close>
  \<^item> Stores: every operation of both stores simulates an operation on the content, so after any history of
    writes lookups return exactly what the writes left, and the two stores answer alike; failed writes change
    nothing, successful ones advance the revision.
  \<^item> Changes: no sequence of manager calls, and no sequence of requests to the server, leaves a zone that breaks the SOA and CNAME
    rules; replacing an RRset and importing a seed are atomic when nothing else writes; a preview of coherent changes shows what applying them
    leaves, and a batch that succeeds leaves valid zones.
  \<^item> Answers: a question is answered from the longest zone that contains its name, with exactly the stored records,
    the chain of CNAME records in order, the additional addresses and the SOA record of negative answers; the cache and the
    zone index never show in an answer; lifetimes in the cache are bounded and do not overflow.
  \<^item> Server: a dynamic update takes effect record by record up to the first refused one; a write the server sends
    to itself over the network has the effect of the same write on the manager; calls of \<^verbatim>\<open>Start\<close> and \<^verbatim>\<open>Stop\<close> leak
    no socket, and a stopped server starts again.
  \<^item> Concurrency: calls of the manager that run side by side keep the zones valid in every order of their calls of the
    repository, if those that add records to one zone do not overlap.
  \<^item> Administration: only a request answered with 200 changes the store; what PUT reports as saved is stored, and GET lists
    it; every path has its methods; \<^verbatim>\<open>Stop\<close> of the admin server leaves no listener open.
  \<^item> Application: opening the store fails with the database closed, or applies the seed as a whole; from an empty
    database DNS messages and HTTP requests other than imports keep the zones valid; the cache never shows; a record an administrator saved
    is in the next answer, and a client reads its own writes over the network.
  \<^item> Examples: the programs close the store and remove their directory however they end, and print what they set out to show when
    the system and the packages behave.
  \<^item> Flaws: the manifest lists where the code does not do this: a race between the zone index and the cache, TTL 0,
    zone names with a bar, batches and updates that stop half way, imports that ignore stored records, a failed
    \<^verbatim>\<open>Stop\<close> that cannot be repeated, \<^verbatim>\<open>Server.UpsertRRSet\<close> which only adds, upserts that overlap (the manager has no lock), an
    admin server that does not serve after a restart, the search for the configuration file, and others, each with a theorem.

  \<^bold>\<open>Bounds.\<close> All definitions are total. The only loop with a bound of its own is the chain of CNAME records: its
  recursion is on \<^verbatim>\<open>maxCNAMEChain\<close>, the bound the code itself has, and running out of it is the SERVFAIL of the code. The theorems on
  stores and zones are for plain names (ASCII, no bar, no backslash); the theorems on the cache are for
  fewer than 2^64 steps of the revision, and \<open>app_run\<close> counts the writes of every event, each at most two steps, for that. Bodies of HTTP requests
  are read up to 1 MiB, as in the code.

  \<^bold>\<open>Not modelled.\<close> \<^verbatim>\<open>writeDNSMessage\<close> (\<^verbatim>\<open>io.go\<close>) writes to a socket; the reply is the result of the handlers
  here. Loggers, and with them \<^verbatim>\<open>dnsTypeName\<close>, which only words messages, are left out, and so are methods that only read a field
  (\<^verbatim>\<open>Server.Manager\<close> and the like). Dependency injection (dix), flags (pflag), configuration files (configx), JSON, sockets and databases are
  parameters; the modules of the application are data, and what dix does with them is not modelled. Requests are handled one at a time,
  except in \<open>Manager_Concurrent\<close>, for the race in \<open>Query\<close>, where the store changes between the steps of one question, and for the
  goroutines of \<open>Server\<close> and \<open>Admin_Server\<close>.
\<close>

end
